(* ===== verification/Interop_Prelude.thy ===== *)
theory Interop_Prelude
  imports Main "HOL-Library.Word" "HOL-Library.Char_ord" "HOL-Library.Sublist"
begin

text \<open>
  Shared vocabulary of the development.  Rust's \<open>u8\<close> is Isabelle's 8-bit \<open>char\<close>, a
  \<open>&[u8]\<close> or \<open>Vec<u8>\<close> a \<open>char list\<close>, and a \<open>str\<close> or \<open>String\<close> the list of its
  UTF-8 bytes, so that a byte literal of the source is a string literal here and
  \<open>as_bytes\<close> is the identity.  A wider unsigned integer kept in a data structure is a
  machine word.  An offset or length of type \<open>usize\<close> is a \<open>nat\<close>: a Rust slice has at most
  \<open>isize::MAX\<close> bytes, so an offset inside a slice never reaches the end of \<open>usize\<close>.
  A fallible function returns \<open>error + 'a\<close> or \<open>'a option\<close>.
  The theory holds the slice and string operations of the standard library that the crates
  use, saturating word arithmetic, and the decimal parser and printer of unsigned integers.
\<close>

section \<open>Types and collections of facts\<close>

type_synonym byte = char
type_synonym bytes = "char list"
type_synonym u16 = "16 word"
type_synonym u32 = "32 word"
type_synonym u64 = "64 word"
type_synonym u128 = "128 word"

named_theorems slice_simps \<open>results of the checked slice operations\<close>
named_theorems eval_simps \<open>equations that evaluate a closed term of the model\<close>
named_theorems result_iff \<open>when a checked computation succeeds\<close>

abbreviation ESC :: byte where
  "ESC \<equiv> CHR 0x1B"

definition ST :: bytes where
  "ST = [ESC, CHR 0x5C]"

lemma length_ST [simp]: "length ST = 2"
  by (simp add: ST_def)

section \<open>Results\<close>

text \<open>The \<open>?\<close> operator: an error leaves the function, a value is handed on.\<close>

definition try_bind :: "'e + 'a \<Rightarrow> ('a \<Rightarrow> 'e + 'b) \<Rightarrow> 'e + 'b" where
  "try_bind m f = (case m of Inl e \<Rightarrow> Inl e | Inr a \<Rightarrow> f a)"

definition ok_or :: "'e \<Rightarrow> 'a option \<Rightarrow> 'e + 'a" where
  "ok_or e m = (case m of None \<Rightarrow> Inl e | Some a \<Rightarrow> Inr a)"

definition map_err :: "('e \<Rightarrow> 'f) \<Rightarrow> 'e + 'a \<Rightarrow> 'f + 'a" where
  "map_err f m = (case m of Inl e \<Rightarrow> Inl (f e) | Inr a \<Rightarrow> Inr a)"

lemma try_bind_simps [simp]:
  "try_bind (Inl e) f = Inl e"
  "try_bind (Inr a) f = f a"
  by (simp_all add: try_bind_def)

lemma try_bind_Inr_iff [result_iff]:
  "try_bind m f = Inr b \<longleftrightarrow> (\<exists>a. m = Inr a \<and> f a = Inr b)"
  by (cases m) simp_all

lemma try_bind_Inl_iff:
  "try_bind m f = Inl e \<longleftrightarrow> m = Inl e \<or> (\<exists>a. m = Inr a \<and> f a = Inl e)"
  by (cases m) simp_all

lemma ok_or_simps [simp]:
  "ok_or e None = Inl e"
  "ok_or e (Some a) = Inr a"
  by (simp_all add: ok_or_def)

lemma ok_or_Inr_iff [result_iff]: "ok_or e m = Inr a \<longleftrightarrow> m = Some a"
  by (cases m) simp_all

lemma map_err_simps [simp]:
  "map_err f (Inl e) = Inl (f e)"
  "map_err f (Inr a) = Inr a"
  by (simp_all add: map_err_def)

lemma map_err_Inr_iff [result_iff]: "map_err f m = Inr a \<longleftrightarrow> m = Inr a"
  by (cases m) simp_all

section \<open>Slices\<close>

text \<open>\<open>input.get(i)\<close>, \<open>input.get(a..b)\<close> and \<open>input.get(a..)\<close>.\<close>

definition get_at :: "'a list \<Rightarrow> nat \<Rightarrow> 'a option" where
  "get_at xs i = (if i < length xs then Some (xs ! i) else None)"

definition get_range :: "'a list \<Rightarrow> nat \<Rightarrow> nat \<Rightarrow> 'a list option" where
  "get_range xs a b =
     (if a \<le> b \<and> b \<le> length xs then Some (take (b - a) (drop a xs)) else None)"

definition get_from :: "'a list \<Rightarrow> nat \<Rightarrow> 'a list option" where
  "get_from xs a = (if a \<le> length xs then Some (drop a xs) else None)"

text \<open>\<open>iter().position(p)\<close>.\<close>

fun position :: "('a \<Rightarrow> bool) \<Rightarrow> 'a list \<Rightarrow> nat option" where
  "position p [] = None"
| "position p (x # xs) = (if p x then Some 0 else map_option Suc (position p xs))"

text \<open>\<open>chunks(n)\<close> for a positive \<open>n\<close>.\<close>

function chunks :: "nat \<Rightarrow> 'a list \<Rightarrow> 'a list list" where
  "chunks n xs = (if n = 0 \<or> xs = [] then [] else take n xs # chunks n (drop n xs))"
  by pat_completeness auto
termination
  by (relation "measure (\<lambda>(n, xs). length xs)") auto

declare chunks.simps [simp del]

lemma get_at_Some_iff [slice_simps]: "get_at xs i = Some x \<longleftrightarrow> i < length xs \<and> xs ! i = x"
  by (simp add: get_at_def)

lemma get_range_Some_iff [slice_simps]:
  "get_range xs a b = Some ys \<longleftrightarrow> a \<le> b \<and> b \<le> length xs \<and> ys = take (b - a) (drop a xs)"
  by (auto simp: get_range_def)

lemma get_from_Some_iff [slice_simps]:
  "get_from xs a = Some ys \<longleftrightarrow> a \<le> length xs \<and> ys = drop a xs"
  by (auto simp: get_from_def)

lemma get_range_append:
  "get_range xs a b = Some ys \<Longrightarrow> get_range (xs @ zs) a b = Some ys"
  by (auto simp: slice_simps)

lemma get_at_append: "get_at xs i = Some x \<Longrightarrow> get_at (xs @ zs) i = Some x"
  by (auto simp: slice_simps nth_append)

lemma get_range_in_range: "b \<le> length xs \<Longrightarrow> get_range (xs @ zs) a b = get_range xs a b"
  by (auto simp: get_range_def)

lemma get_at_in_range: "i < length xs \<Longrightarrow> get_at (xs @ zs) i = get_at xs i"
  by (auto simp: get_at_def nth_append)

lemma get_range_length: "get_range xs a b = Some ys \<Longrightarrow> length ys = b - a"
  by (auto simp: slice_simps)

lemma get_range_mid [simp]:
  "get_range (pre @ mid @ post) (length pre) (length pre + length mid) = Some mid"
  by (simp add: get_range_def)

lemma position_Some_iff:
  "position p xs = Some i \<longleftrightarrow> i < length xs \<and> p (xs ! i) \<and> (\<forall>j<i. \<not> p (xs ! j))"
proof (induction xs arbitrary: i)
  case Nil
  then show ?case by simp
next
  case (Cons x xs)
  show ?case
  proof (cases i)
    case 0
    then show ?thesis by auto
  next
    case (Suc k)
    have "(\<forall>j<Suc k. \<not> p ((x # xs) ! j)) \<longleftrightarrow> \<not> p x \<and> (\<forall>j<k. \<not> p (xs ! j))"
      by (auto simp: less_Suc_eq_0_disj)
    with Suc Cons.IH [of k] show ?thesis by auto
  qed
qed

lemma position_None_iff: "position p xs = None \<longleftrightarrow> (\<forall>x\<in>set xs. \<not> p x)"
  by (induction xs) auto

lemma position_append:
  "position p (xs @ ys) =
     (case position p xs of Some i \<Rightarrow> Some i | None \<Rightarrow> map_option ((+) (length xs)) (position p ys))"
proof (induction xs)
  case Nil
  then show ?case by (cases "position p ys") simp_all
next
  case (Cons x xs)
  then show ?case
    by (cases "position p ys") (auto split: option.splits)
qed

lemma position_at_sep: "\<forall>x\<in>set xs. \<not> p x \<Longrightarrow> p y \<Longrightarrow> position p (xs @ y # ys) = Some (length xs)"
  by (induction xs) auto

lemma chunks_Nil [simp]: "chunks n [] = []"
  by (simp add: chunks.simps)

lemma chunks_step: "0 < n \<Longrightarrow> xs \<noteq> [] \<Longrightarrow> chunks n xs = take n xs # chunks n (drop n xs)"
  by (subst chunks.simps) simp

lemma chunks_eq_Nil_iff: "0 < n \<Longrightarrow> chunks n xs = [] \<longleftrightarrow> xs = []"
  by (subst chunks.simps) simp

lemma concat_chunks: "0 < n \<Longrightarrow> concat (chunks n xs) = xs"
proof (induction n xs rule: chunks.induct)
  case (1 n xs)
  then show ?case by (cases "xs = []") (simp_all add: chunks_step)
qed

lemma chunks_bounds: "0 < n \<Longrightarrow> ys \<in> set (chunks n xs) \<Longrightarrow> ys \<noteq> [] \<and> length ys \<le> n"
proof (induction n xs rule: chunks.induct)
  case (1 n xs)
  show ?case
  proof (cases "xs = []")
    case True
    with "1.prems" show ?thesis by simp
  next
    case False
    with "1.prems" consider "ys = take n xs" | "ys \<in> set (chunks n (drop n xs))"
      by (auto simp: chunks_step)
    then show ?thesis
      using False "1.prems" "1.IH" by cases auto
  qed
qed

lemma chunks_full: "0 < n \<Longrightarrow> ys \<in> set (butlast (chunks n xs)) \<Longrightarrow> length ys = n"
proof (induction n xs rule: chunks.induct)
  case (1 n xs)
  show ?case
  proof (cases "xs = [] \<or> drop n xs = []")
    case True
    with "1.prems" show ?thesis by (cases "xs = []") (auto simp: chunks_step)
  next
    case False
    then have "chunks n (drop n xs) \<noteq> []"
      using "1.prems" by (simp add: chunks_eq_Nil_iff)
    with "1.prems" False consider "ys = take n xs" | "ys \<in> set (butlast (chunks n (drop n xs)))"
      by (auto simp: chunks_step)
    then show ?thesis
      using False "1.prems" "1.IH" by cases auto
  qed
qed

text \<open>A list that is long enough holds the front of an equal concatenation.\<close>

lemma append_front:
  assumes "a @ b = c @ d" "length c \<le> length a"
  obtains e where "a = c @ e" "d = e @ b"
  using assms that by (auto simp: append_eq_append_conv2)

section \<open>Strings\<close>

text \<open>
  \<open>split(c)\<close>, \<open>split_once(c)\<close>, \<open>strip_prefix\<close> and \<open>join\<close> for an ASCII separator: in UTF-8 the
  byte of an ASCII character occurs only as that character, so the operations on bytes and on
  characters agree.
\<close>

fun split_on :: "'a \<Rightarrow> 'a list \<Rightarrow> 'a list list" where
  "split_on c [] = [[]]"
| "split_on c (x # xs) =
     (if x = c then [] # split_on c xs
      else case split_on c xs of [] \<Rightarrow> [[x]] | y # ys \<Rightarrow> (x # y) # ys)"

fun split_once :: "'a \<Rightarrow> 'a list \<Rightarrow> ('a list \<times> 'a list) option" where
  "split_once c [] = None"
| "split_once c (x # xs) =
     (if x = c then Some ([], xs) else map_option (\<lambda>(a, b). (x # a, b)) (split_once c xs))"

fun strip_prefix :: "'a list \<Rightarrow> 'a list \<Rightarrow> 'a list option" where
  "strip_prefix [] xs = Some xs"
| "strip_prefix (p # ps) [] = None"
| "strip_prefix (p # ps) (x # xs) = (if p = x then strip_prefix ps xs else None)"

fun join_with :: "'a list \<Rightarrow> 'a list list \<Rightarrow> 'a list" where
  "join_with sep [] = []"
| "join_with sep [s] = s"
| "join_with sep (s # t # ss) = s @ sep @ join_with sep (t # ss)"

lemma split_on_not_Nil [simp]: "split_on c xs \<noteq> []"
  by (cases xs) (auto split: list.splits)

lemma split_on_no_sep: "c \<notin> set xs \<Longrightarrow> split_on c xs = [xs]"
  by (induction xs) auto

lemma split_on_append:
  "c \<notin> set xs \<Longrightarrow> split_on c (xs @ c # ys) = xs # split_on c ys"
  by (induction xs) auto

lemma split_on_join:
  "\<forall>s\<in>set ss. c \<notin> set s \<Longrightarrow> ss \<noteq> [] \<Longrightarrow> split_on c (join_with [c] ss) = ss"
  by (induction "[c]" ss rule: join_with.induct) (auto simp: split_on_no_sep split_on_append)

lemma split_on_pieces: "s \<in> set (split_on c xs) \<Longrightarrow> set s \<subseteq> set xs \<and> c \<notin> set s"
proof (induction xs arbitrary: s)
  case Nil
  then show ?case by simp
next
  case (Cons x xs)
  then show ?case by (fastforce split: if_splits list.splits)
qed

lemma join_split: "join_with [c] (split_on c xs) = xs"
proof (induction xs)
  case (Cons x xs)
  then show ?case
    by (cases "split_on c xs"; cases "tl (split_on c xs)") (auto split: list.splits)
qed simp

lemma split_once_append: "c \<notin> set xs \<Longrightarrow> split_once c (xs @ c # ys) = Some (xs, ys)"
  by (induction xs) auto

lemma split_once_Some_iff:
  "split_once c s = Some (a, b) \<longleftrightarrow> s = a @ c # b \<and> c \<notin> set a"
proof (induction s arbitrary: a)
  case Nil
  then show ?case by simp
next
  case (Cons x xs)
  then show ?case by (cases a) auto
qed

lemma strip_prefix_append [simp]: "strip_prefix ps (ps @ xs) = Some xs"
  by (induction ps) auto

lemma strip_prefix_Some_iff: "strip_prefix ps s = Some xs \<longleftrightarrow> s = ps @ xs"
  by (induction ps s rule: strip_prefix.induct) auto

section \<open>Saturating and checked arithmetic\<close>

definition sat_add :: "'a::len word \<Rightarrow> 'a word \<Rightarrow> 'a word" where
  "sat_add a b = (if unat a + unat b < 2 ^ LENGTH('a) then a + b else - 1)"

definition sat_mul :: "'a::len word \<Rightarrow> 'a word \<Rightarrow> 'a word" where
  "sat_mul a b = (if unat a * unat b < 2 ^ LENGTH('a) then a * b else - 1)"

definition sat_sub :: "'a::len word \<Rightarrow> 'a word \<Rightarrow> 'a word" where
  "sat_sub a b = (if b \<le> a then a - b else 0)"

definition checked_div :: "'a::len word \<Rightarrow> 'a word \<Rightarrow> 'a word option" where
  "checked_div a b = (if b = 0 then None else Some (a div b))"

text \<open>\<open>u32::try_from(n).unwrap_or(u32::MAX)\<close> for a \<open>usize\<close>.\<close>

definition u32_of_usize :: "nat \<Rightarrow> u32" where
  "u32_of_usize n = (if n < 2 ^ 32 then of_nat n else - 1)"

lemma unat_minus_one: "unat (- 1 :: 'a::len word) = 2 ^ LENGTH('a) - 1"
  by (simp add: unsigned_minus_1_eq_mask mask_eq_exp_minus_1)

lemma unat_sat_add:
  "unat (sat_add a b) = min (unat a + unat b) (2 ^ LENGTH('a) - 1)" for a b :: "'a::len word"
  by (auto simp: sat_add_def unat_word_ariths unat_minus_one)

lemma unat_sat_mul:
  "unat (sat_mul a b) = min (unat a * unat b) (2 ^ LENGTH('a) - 1)" for a b :: "'a::len word"
  by (auto simp: sat_mul_def unat_word_ariths unat_minus_one)

lemma unat_sat_sub: "unat (sat_sub a b) = unat a - unat b" for a b :: "'a::len word"
  by (auto simp: sat_sub_def unat_sub word_le_nat_alt)

lemma unat_u32_of_usize: "unat (u32_of_usize n) = min n (2 ^ 32 - 1)"
  by (auto simp: u32_of_usize_def unat_of_nat unat_minus_one)

lemma sat_add_u32_of_usize: "sat_add (u32_of_usize n) 1 = u32_of_usize (Suc n)"
  by (rule word_unat_eq_iff [THEN iffD2]) (simp add: unat_sat_add unat_u32_of_usize)

lemma u32_of_usize_0 [simp]: "u32_of_usize 0 = 0"
  by (simp add: u32_of_usize_def)

text \<open>A number written with a low part below the radix.\<close>

lemma split_radix:
  fixes q r m :: nat
  assumes "r < m"
  shows "(q * m + r) div m = q" "(q * m + r) mod m = r"
  using assms by simp_all

section \<open>Unsigned decimal numbers\<close>

text \<open>
  \<open>to_string\<close> of an unsigned integer, and \<open>str::parse\<close> for an unsigned type with maximum \<open>m\<close>:
  one optional \<open>+\<close>, then at least one digit, failing as soon as the value passes \<open>m\<close>.
\<close>

definition digit_char :: "nat \<Rightarrow> byte" where
  "digit_char d = ''0123456789'' ! d"

definition is_digit :: "byte \<Rightarrow> bool" where
  "is_digit c \<longleftrightarrow> CHR ''0'' \<le> c \<and> c \<le> CHR ''9''"

definition digit_value :: "byte \<Rightarrow> nat" where
  "digit_value c = of_char c - 48"

fun dec_string :: "nat \<Rightarrow> string" where
  "dec_string n =
     (if n < 10 then [digit_char n] else dec_string (n div 10) @ [digit_char (n mod 10)])"

declare dec_string.simps [simp del, eval_simps]

fun parse_digits :: "nat \<Rightarrow> nat \<Rightarrow> string \<Rightarrow> nat option" where
  "parse_digits m acc [] = Some acc"
| "parse_digits m acc (c # cs) =
     (if \<not> is_digit c then None
      else if m < acc * 10 then None
      else if m < acc * 10 + digit_value c then None
      else parse_digits m (acc * 10 + digit_value c) cs)"

definition parse_uint :: "nat \<Rightarrow> string \<Rightarrow> nat option" where
  "parse_uint m s =
     (case s of [] \<Rightarrow> None
      | c # cs \<Rightarrow>
          if c = CHR ''+'' then (if cs = [] then None else parse_digits m 0 cs)
          else parse_digits m 0 (c # cs))"

definition parse_word :: "string \<Rightarrow> 'a::len word option" where
  "parse_word s = map_option of_nat (parse_uint (2 ^ LENGTH('a) - 1) s)"

declare digit_char_def [eval_simps] is_digit_def [eval_simps] digit_value_def [eval_simps]
  parse_uint_def [eval_simps] parse_word_def [eval_simps]

lemma digit_cases:
  assumes "d < 10"
  obtains "d = 0" | "d = 1" | "d = 2" | "d = 3" | "d = 4" | "d = 5" | "d = 6" | "d = 7"
    | "d = 8" | "d = (9::nat)"
proof -
  have "d \<in> {0, 1, 2, 3, 4, 5, 6, 7, 8, 9}"
    using assms by auto
  then show ?thesis
    using that by blast
qed

lemma digit_char_props:
  "d < 10 \<Longrightarrow> is_digit (digit_char d) \<and> digit_value (digit_char d) = d"
  by (erule digit_cases) (simp_all add: eval_simps)

lemma is_digit_iff: "is_digit c \<longleftrightarrow> (\<exists>d<10. c = digit_char d)"
proof
  assume "is_digit c"
  then have *: "48 \<le> (of_char c :: nat)" "(of_char c :: nat) \<le> 57"
    by (simp_all add: is_digit_def less_eq_char_def)
  let ?d = "of_char c - 48 :: nat"
  have d: "?d < 10"
    using * by simp
  then have "(of_char (digit_char ?d) :: nat) - 48 = ?d" "48 \<le> (of_char (digit_char ?d) :: nat)"
    using digit_char_props [OF d] by (simp_all add: digit_value_def is_digit_def less_eq_char_def)
  then have "(of_char (digit_char ?d) :: nat) = of_char c"
    using * by linarith
  then have "digit_char ?d = c"
    by (simp add: of_char_eq_iff)
  with d show "\<exists>d<10. c = digit_char d"
    by (intro exI [of _ ?d]) simp
qed (auto simp: digit_char_props)

lemma dec_string_not_Nil [simp]: "dec_string n \<noteq> []"
  by (subst dec_string.simps) simp

lemma dec_string_digits: "c \<in> set (dec_string n) \<Longrightarrow> is_digit c"
proof (induction n rule: dec_string.induct)
  case (1 n)
  then show ?case
    by (cases "n < 10") (auto simp: dec_string.simps [of n] digit_char_props)
qed

lemma parse_digits_append:
  "parse_digits m acc (xs @ ys) =
     (case parse_digits m acc xs of None \<Rightarrow> None | Some a \<Rightarrow> parse_digits m a ys)"
  by (induction xs arbitrary: acc) auto

lemma parse_digits_dec_string:
  "parse_digits m 0 (dec_string n) = (if n \<le> m then Some n else None)"
proof (induction n rule: dec_string.induct)
  case (1 n)
  show ?case
  proof (cases "n < 10")
    case True
    then show ?thesis
      by (simp add: dec_string.simps [of n] digit_char_props)
  next
    case False
    have "n div 10 * 10 + n mod 10 = n"
      by simp
    with False 1 show ?thesis
      by (auto simp: dec_string.simps [of n] parse_digits_append digit_char_props)
  qed
qed

lemma not_digit_syntax [simp]:
  "\<not> is_digit (CHR ''+'')" "\<not> is_digit (CHR '';'')" "\<not> is_digit (CHR '','')"
  "\<not> is_digit (CHR ''c'')" "\<not> is_digit (CHR ''t'')" "\<not> is_digit ESC" "\<not> is_digit (CHR ''='')"
  by (simp_all add: is_digit_def)

lemma dec_string_no_syntax:
  "\<not> is_digit c \<Longrightarrow> c \<notin> set (dec_string n)"
  using dec_string_digits by blast

lemma parse_uint_dec_string: "parse_uint m (dec_string n) = (if n \<le> m then Some n else None)"
proof (cases "dec_string n")
  case Nil
  then show ?thesis by simp
next
  case (Cons c cs)
  then have "c \<noteq> CHR ''+''"
    using dec_string_digits [of c n] by auto
  then have "parse_uint m (dec_string n) = parse_digits m 0 (dec_string n)"
    by (simp add: parse_uint_def Cons)
  then show ?thesis
    by (simp add: parse_digits_dec_string)
qed

lemma parse_word_dec_string [simp]:
  "parse_word (dec_string (unat w)) = Some w" for w :: "'a::len word"
proof -
  have "unat w \<le> 2 ^ LENGTH('a) - 1"
    using unsigned_less [of w, where ?'a = nat] by linarith
  then show ?thesis
    by (simp add: parse_word_def parse_uint_dec_string)
qed

lemma dec_string_inj: "dec_string m = dec_string n \<longleftrightarrow> m = n"
  by (metis max.cobounded1 max.cobounded2 option.inject parse_uint_dec_string)

lemma parse_digits_bound:
  "parse_digits m acc s = Some n \<Longrightarrow> acc \<le> m \<Longrightarrow> n \<le> m"
  by (induction s arbitrary: acc) (auto split: if_splits)

end
