(* ===== verification/Base64_Interface.thy ===== *)
theory Base64_Interface
  imports Interop_Prelude
begin

text \<open>
  The \<open>base64\<close> crate is not part of the repository: every definition that encodes or decodes
  takes the engine's functions as arguments, and the lemmas about them rest on the laws stated
  here, which the crate documents for its two configurations.  \<open>STANDARD\<close> is the padded
  alphabet of RFC 4648 section 4, \<open>URL_SAFE_NO_PAD\<close> the unpadded one of section 5; both decode
  only the canonical text of a byte sequence (padding required or forbidden, no stray trailing
  bits).  The last section instantiates the laws with the algorithm of the RFC, which shows
  that they can hold and lets witnesses compute.
\<close>

section \<open>The laws the code relies on\<close>

locale base64_engine =
  fixes enc :: "bytes \<Rightarrow> string" and dec :: "string \<Rightarrow> bytes option"
  assumes dec_enc: "dec (enc bs) = Some bs"
    and enc_dec: "dec s = Some bs \<Longrightarrow> enc bs = s"
begin

lemma enc_inj: "enc a = enc b \<longleftrightarrow> a = b"
  by (metis dec_enc option.inject)

lemma dec_Some_iff: "dec s = Some bs \<longleftrightarrow> s = enc bs"
  using dec_enc enc_dec by auto

end

definition alphanumeric :: string where
  "alphanumeric =
     ''ABCDEFGHIJKLMNOPQRSTUVWXYZabcdefghijklmnopqrstuvwxyz0123456789''"

definition standard_alphabet :: string where
  "standard_alphabet = alphanumeric @ ''+/''"

definition url_safe_alphabet :: string where
  "url_safe_alphabet = alphanumeric @ ''-_''"

locale standard_engine = base64_engine +
  assumes enc_alphabet: "set (enc bs) \<subseteq> set standard_alphabet \<union> {CHR ''=''}"
    and enc_length: "length (enc bs) = 4 * ((length bs + 2) div 3)"
begin

lemma enc_eq_Nil_iff: "enc bs = [] \<longleftrightarrow> bs = []"
proof -
  have "length (enc bs) = 0 \<longleftrightarrow> length bs = 0"
    by (simp add: enc_length div_eq_0_iff)
  then show ?thesis by simp
qed

lemma enc_no_ESC: "ESC \<notin> set (enc bs)"
proof -
  have "ESC \<notin> set standard_alphabet \<union> {CHR ''=''}"
    by (simp add: standard_alphabet_def alphanumeric_def)
  then show ?thesis
    using enc_alphabet by blast
qed

end

locale url_engine = base64_engine +
  assumes enc_alphabet: "set (enc bs) \<subseteq> set url_safe_alphabet"
    and enc_nonempty: "bs \<noteq> [] \<Longrightarrow> enc bs \<noteq> []"
begin

lemma enc_no_reserved:
  "c \<in> {CHR ''/'', CHR ''?'', CHR 0x23} \<Longrightarrow> c \<notin> set (enc bs)"
proof -
  assume "c \<in> {CHR ''/'', CHR ''?'', CHR 0x23}"
  then have "c \<notin> set url_safe_alphabet"
    by (auto simp: url_safe_alphabet_def alphanumeric_def)
  then show ?thesis
    using enc_alphabet by blast
qed

end

section \<open>The algorithm of RFC 4648\<close>

text \<open>The encoder takes 24 bits at a time; \<open>pad\<close> says whether the last group is padded.\<close>

definition sextet :: "string \<Rightarrow> nat \<Rightarrow> byte" where
  "sextet al i = al ! i"

definition sextet_of :: "string \<Rightarrow> byte \<Rightarrow> nat option" where
  "sextet_of al c = position ((=) c) al"

definition zero_byte :: byte where
  "zero_byte = CHR 0x00"

definition sextet1 :: "byte \<Rightarrow> nat" where
  "sextet1 a = of_char a div 4"

definition sextet2 :: "byte \<Rightarrow> byte \<Rightarrow> nat" where
  "sextet2 a b = of_char a mod 4 * 16 + of_char b div 16"

definition sextet3 :: "byte \<Rightarrow> byte \<Rightarrow> nat" where
  "sextet3 b c = of_char b mod 16 * 4 + of_char c div 64"

definition sextet4 :: "byte \<Rightarrow> nat" where
  "sextet4 c = of_char c mod 64"

definition byte1 :: "nat \<Rightarrow> nat \<Rightarrow> byte" where
  "byte1 i j = char_of (i * 4 + j div 16)"

definition byte2 :: "nat \<Rightarrow> nat \<Rightarrow> byte" where
  "byte2 j k = char_of (j mod 16 * 16 + k div 4)"

definition byte3 :: "nat \<Rightarrow> nat \<Rightarrow> byte" where
  "byte3 k l = char_of (k mod 4 * 64 + l)"

fun rfc_encode :: "string \<Rightarrow> bool \<Rightarrow> bytes \<Rightarrow> string" where
  "rfc_encode al pad [] = []"
| "rfc_encode al pad [a] =
     [sextet al (sextet1 a), sextet al (sextet2 a zero_byte)] @ (if pad then ''=='' else [])"
| "rfc_encode al pad [a, b] =
     [sextet al (sextet1 a), sextet al (sextet2 a b), sextet al (sextet3 b zero_byte)]
       @ (if pad then ''='' else [])"
| "rfc_encode al pad (a # b # c # bs) =
     sextet al (sextet1 a) # sextet al (sextet2 a b) # sextet al (sextet3 b c)
       # sextet al (sextet4 c) # rfc_encode al pad bs"

definition decode2 :: "string \<Rightarrow> byte \<Rightarrow> byte \<Rightarrow> bytes option" where
  "decode2 al w x =
     (case (sextet_of al w, sextet_of al x) of
        (Some i, Some j) \<Rightarrow> if j mod 16 = 0 then Some [byte1 i j] else None
      | _ \<Rightarrow> None)"

definition decode3 :: "string \<Rightarrow> byte \<Rightarrow> byte \<Rightarrow> byte \<Rightarrow> bytes option" where
  "decode3 al w x y =
     (case (sextet_of al w, sextet_of al x, sextet_of al y) of
        (Some i, Some j, Some k) \<Rightarrow>
          if k mod 4 = 0 then Some [byte1 i j, byte2 j k] else None
      | _ \<Rightarrow> None)"

definition decode4 :: "string \<Rightarrow> byte \<Rightarrow> byte \<Rightarrow> byte \<Rightarrow> byte \<Rightarrow> bytes option" where
  "decode4 al w x y z =
     (case (sextet_of al w, sextet_of al x, sextet_of al y, sextet_of al z) of
        (Some i, Some j, Some k, Some l) \<Rightarrow> Some [byte1 i j, byte2 j k, byte3 k l]
      | _ \<Rightarrow> None)"

fun rfc_decode :: "string \<Rightarrow> bool \<Rightarrow> string \<Rightarrow> bytes option" where
  "rfc_decode al pad [] = Some []"
| "rfc_decode al pad [w] = None"
| "rfc_decode al pad [w, x] = (if pad then None else decode2 al w x)"
| "rfc_decode al pad [w, x, y] = (if pad then None else decode3 al w x y)"
| "rfc_decode al pad (w # x # y # z # s) =
     (if pad \<and> s = [] \<and> z = CHR ''='' then
        (if y = CHR ''='' then decode2 al w x else decode3 al w x y)
      else case decode4 al w x y z of None \<Rightarrow> None
        | Some bs \<Rightarrow> map_option ((@) bs) (rfc_decode al pad s))"

definition good_alphabet :: "string \<Rightarrow> bool" where
  "good_alphabet al \<longleftrightarrow> length al = 64 \<and> distinct al \<and> CHR ''='' \<notin> set al"

lemma good_standard: "good_alphabet standard_alphabet"
  by (simp add: good_alphabet_def standard_alphabet_def alphanumeric_def)

lemma good_url_safe: "good_alphabet url_safe_alphabet"
  by (simp add: good_alphabet_def url_safe_alphabet_def alphanumeric_def)

lemma sextet_of_sextet: "good_alphabet al \<Longrightarrow> i < 64 \<Longrightarrow> sextet_of al (sextet al i) = Some i"
  by (auto simp: sextet_of_def sextet_def position_Some_iff good_alphabet_def
      distinct_conv_nth)

lemma sextet_in: "good_alphabet al \<Longrightarrow> i < 64 \<Longrightarrow> sextet al i \<in> set al"
  by (auto simp: sextet_def good_alphabet_def)

lemma sextet_not_pad: "good_alphabet al \<Longrightarrow> i < 64 \<Longrightarrow> sextet al i \<noteq> CHR ''=''"
  using sextet_in good_alphabet_def by metis

lemma sextet_of_Some:
  assumes "good_alphabet al" "sextet_of al c = Some i"
  shows "i < 64" "sextet al i = c" "c \<noteq> CHR ''=''"
proof -
  show i: "i < 64" and c: "sextet al i = c"
    using assms by (auto simp: sextet_of_def sextet_def position_Some_iff good_alphabet_def)
  show "c \<noteq> CHR ''=''"
    using sextet_not_pad [OF assms(1) i] c by simp
qed

lemma byte_parts:
  "of_char c div 4 < (64::nat)" "of_char c div 16 < (16::nat)" "of_char c div 64 < (4::nat)"
  using nat_of_char_less_256 [of c] by (simp_all add: less_mult_imp_div_less)

lemma sextet_bounds [simp]:
  "sextet1 a < 64" "sextet2 a b < 64" "sextet3 b c < 64" "sextet4 c < 64"
proof -
  have "of_char a mod 4 < (4::nat)" "of_char b mod 16 < (16::nat)"
    by simp_all
  then show "sextet2 a b < 64" "sextet3 b c < 64"
    using byte_parts(2) [of b] byte_parts(3) [of c]
    unfolding sextet2_def sextet3_def by linarith+
qed (simp_all add: sextet1_def sextet4_def byte_parts)

lemma bytes_of_sextets [simp]:
  "byte1 (sextet1 a) (sextet2 a b) = a"
  "byte2 (sextet2 a b) (sextet3 b c) = b"
  "byte3 (sextet3 b c) (sextet4 c) = c"
  "sextet2 a zero_byte mod 16 = 0" "sextet3 b zero_byte mod 4 = 0"
  by (simp_all only: byte1_def byte2_def byte3_def sextet1_def sextet2_def sextet3_def sextet4_def
      split_radix byte_parts div_mult_mod_eq char_of_char) (simp_all add: zero_byte_def)

lemma sextet_parts:
  fixes j k :: nat
  assumes "j < 64" "k < 64"
  shows "j div 16 < 4" "k div 4 < 16"
  using assms by (simp_all add: less_mult_imp_div_less)

lemma byte_values:
  assumes "i < 64" "j < 64" "k < 64" "l < 64"
  shows "of_char (byte1 i j) = i * 4 + j div 16"
    and "of_char (byte2 j k) = j mod 16 * 16 + k div 4"
    and "of_char (byte3 k l) = k mod 4 * 64 + l"
proof -
  have "j mod 16 < 16" "k mod 4 < 4"
    by simp_all
  then have "i * 4 + j div 16 < 256" "j mod 16 * 16 + k div 4 < 256" "k mod 4 * 64 + l < 256"
    using assms sextet_parts [OF assms(2,3)] by linarith+
  then show "of_char (byte1 i j) = i * 4 + j div 16"
    "of_char (byte2 j k) = j mod 16 * 16 + k div 4" "of_char (byte3 k l) = k mod 4 * 64 + l"
    by (simp_all only: byte1_def byte2_def byte3_def of_char_of mod_less)
qed

lemma sextets_of_bytes:
  assumes "i < 64" "j < 64" "k < 64" "l < 64"
  shows "sextet1 (byte1 i j) = i" "sextet2 (byte1 i j) (byte2 j k) = j"
    "sextet3 (byte2 j k) (byte3 k l) = k" "sextet4 (byte3 k l) = l"
  by (simp_all only: sextet1_def sextet2_def sextet3_def sextet4_def byte_values [OF assms]
      split_radix sextet_parts [OF assms(2,3)] assms div_mult_mod_eq)

lemma sextets_of_last:
  assumes "i < 64" "j < 64" "k < 64"
  shows "j mod 16 = 0 \<Longrightarrow> sextet2 (byte1 i j) zero_byte = j"
    and "k mod 4 = 0 \<Longrightarrow> sextet3 (byte2 j k) zero_byte = k"
proof -
  have v: "of_char (byte1 i j) = i * 4 + j div 16" "of_char (byte2 j k) = j mod 16 * 16 + k div 4"
    using byte_values [of i j k 0] assms by simp_all
  show "sextet2 (byte1 i j) zero_byte = j" if "j mod 16 = 0"
    using that by (simp only: sextet2_def v zero_byte_def split_radix sextet_parts [OF assms(2,3)])
      (use that in auto)
  show "sextet3 (byte2 j k) zero_byte = k" if "k mod 4 = 0"
    using that by (simp only: sextet3_def v zero_byte_def split_radix sextet_parts [OF assms(2,3)])
      (use that in auto)
qed

lemma rfc_decode_encode: "good_alphabet al \<Longrightarrow> rfc_decode al pad (rfc_encode al pad bs) = Some bs"
  by (induction al pad bs rule: rfc_encode.induct)
    (simp_all add: decode2_def decode3_def decode4_def sextet_of_sextet sextet_not_pad)

lemma decode2_encode:
  assumes "good_alphabet al" "decode2 al w x = Some bs"
  shows "\<exists>a. bs = [a] \<and> sextet al (sextet1 a) = w \<and> sextet al (sextet2 a zero_byte) = x"
proof -
  obtain i j where ij: "sextet_of al w = Some i" "sextet_of al x = Some j" "j mod 16 = 0"
    and bs: "bs = [byte1 i j]"
    using assms(2) by (auto simp: decode2_def split: option.splits if_splits)
  note b = sextet_of_Some [OF assms(1) ij(1)] sextet_of_Some [OF assms(1) ij(2)]
  show ?thesis
    using b sextets_of_bytes [of i j 0 0] sextets_of_last [of i j 0] ij(3) bs by simp
qed

lemma decode3_encode:
  assumes "good_alphabet al" "decode3 al w x y = Some bs"
  shows "\<exists>a b. bs = [a, b] \<and> sextet al (sextet1 a) = w \<and> sextet al (sextet2 a b) = x
    \<and> sextet al (sextet3 b zero_byte) = y"
proof -
  obtain i j k where ij: "sextet_of al w = Some i" "sextet_of al x = Some j"
      "sextet_of al y = Some k" "k mod 4 = 0"
    and bs: "bs = [byte1 i j, byte2 j k]"
    using assms(2) by (auto simp: decode3_def split: option.splits if_splits)
  note b = sextet_of_Some [OF assms(1) ij(1)] sextet_of_Some [OF assms(1) ij(2)]
    sextet_of_Some [OF assms(1) ij(3)]
  show ?thesis
    using b sextets_of_bytes [of i j k 0] sextets_of_last [of i j k] ij(4) bs by simp
qed

lemma decode4_encode:
  assumes "good_alphabet al" "decode4 al w x y z = Some bs"
  shows "\<exists>a b c. bs = [a, b, c] \<and> sextet al (sextet1 a) = w \<and> sextet al (sextet2 a b) = x
    \<and> sextet al (sextet3 b c) = y \<and> sextet al (sextet4 c) = z"
proof -
  obtain i j k l where ij: "sextet_of al w = Some i" "sextet_of al x = Some j"
      "sextet_of al y = Some k" "sextet_of al z = Some l"
    and bs: "bs = [byte1 i j, byte2 j k, byte3 k l]"
    using assms(2) by (auto simp: decode4_def split: option.splits if_splits)
  note b = sextet_of_Some [OF assms(1) ij(1)] sextet_of_Some [OF assms(1) ij(2)]
    sextet_of_Some [OF assms(1) ij(3)] sextet_of_Some [OF assms(1) ij(4)]
  show ?thesis
    using b sextets_of_bytes [of i j k l] bs by simp
qed

lemma rfc_encode_decode:
  "good_alphabet al \<Longrightarrow> rfc_decode al pad s = Some bs \<Longrightarrow> rfc_encode al pad bs = s"
proof (induction al pad s arbitrary: bs rule: rfc_decode.induct)
  case (3 al pad w x)
  then show ?case by (auto dest!: decode2_encode split: if_splits)
next
  case (4 al pad w x y)
  then show ?case by (auto dest!: decode3_encode split: if_splits)
next
  case (5 al pad w x y z s)
  show ?case
  proof (cases "pad \<and> s = [] \<and> z = CHR ''=''")
    case True
    then show ?thesis
      using "5.prems"(2) decode2_encode [OF "5.prems"(1), of w x bs]
        decode3_encode [OF "5.prems"(1), of w x y bs]
      by (auto split: if_splits)
  next
    case False
    with "5.prems" obtain hd tl where "decode4 al w x y z = Some hd"
      and "rfc_decode al pad s = Some tl" "bs = hd @ tl"
      by (auto split: option.splits)
    with "5.IH" [OF False] "5.prems"(1) show ?thesis
      by (auto dest!: decode4_encode)
  qed
qed simp_all

lemma rfc_encode_alphabet:
  "good_alphabet al \<Longrightarrow>
     set (rfc_encode al pad bs) \<subseteq> set al \<union> (if pad then {CHR ''=''} else {})"
  by (induction al pad bs rule: rfc_encode.induct) (auto simp: sextet_in)

lemma rfc_encode_length: "length (rfc_encode al True bs) = 4 * ((length bs + 2) div 3)"
proof (induction al True bs rule: rfc_encode.induct)
  case (4 al a b c bs)
  have "(length (a # b # c # bs) + 2) div 3 = Suc ((length bs + 2) div 3)"
    by (simp add: div_add_self1 [of 3 "length bs + 2", simplified, symmetric])
  with 4 show ?case by simp
qed simp_all

lemma rfc_encode_nonempty: "bs \<noteq> [] \<Longrightarrow> rfc_encode al pad bs \<noteq> []"
  by (cases "(al, pad, bs)" rule: rfc_encode.cases) simp_all

definition std_encode :: "bytes \<Rightarrow> string" where
  "std_encode = rfc_encode standard_alphabet True"

definition std_decode :: "string \<Rightarrow> bytes option" where
  "std_decode = rfc_decode standard_alphabet True"

definition url_encode :: "bytes \<Rightarrow> string" where
  "url_encode = rfc_encode url_safe_alphabet False"

definition url_decode :: "string \<Rightarrow> bytes option" where
  "url_decode = rfc_decode url_safe_alphabet False"

interpretation rfc_standard: standard_engine std_encode std_decode
proof unfold_locales
  show "set (std_encode bs) \<subseteq> set standard_alphabet \<union> {CHR ''=''}" for bs
    using rfc_encode_alphabet [OF good_standard, of True] by (simp add: std_encode_def)
qed (auto simp: std_encode_def std_decode_def good_standard rfc_decode_encode rfc_encode_length
    intro: rfc_encode_decode)

interpretation rfc_url: url_engine url_encode url_decode
proof unfold_locales
  show "set (url_encode bs) \<subseteq> set url_safe_alphabet" for bs
    using rfc_encode_alphabet [OF good_url_safe, of False] by (simp add: url_encode_def)
qed (auto simp: url_encode_def url_decode_def good_url_safe rfc_decode_encode rfc_encode_nonempty
    intro: rfc_encode_decode)

lemmas rfc_eval = std_encode_def std_decode_def url_encode_def url_decode_def sextet_def
  sextet_of_def decode2_def decode3_def decode4_def sextet1_def sextet2_def sextet3_def
  sextet4_def byte1_def byte2_def byte3_def zero_byte_def standard_alphabet_def
  url_safe_alphabet_def alphanumeric_def char_of_def

declare rfc_eval [eval_simps]

end
