(* ===== verification/Core_Contracts.thy ===== *)
theory Core_Contracts
  imports Base64_Interface
begin

text \<open>
  Crate \<open>terminal-interop-core\<close>: the receipt of one probe, its structural validation, and the
  negotiation that selects a capability from ordered receipts.  Structs are records (field
  names carry the struct as a prefix where the bare name is not unique), enums are datatypes
  with the source's variants, the ordered map of event fields is a finite map.
\<close>

section \<open>Data model\<close>

record protocol_id =
  protocol_namespace :: string
  protocol_name :: string
  protocol_revision :: string

record capability_id =
  capability_protocol :: protocol_id
  capability_name :: string

record adapter_identity =
  adapter_name :: string
  adapter_version :: string

record correlation_id =
  correlation_namespace :: string
  correlation_value :: string

datatype hint_observation = Present | Value string

record environment_hint =
  hint_name :: string
  hint_observation :: hint_observation

record path_hop =
  hop_role :: string
  hop_implementation :: string
  hop_version :: "string option"

datatype topology_observation = TopologyUnknown | Declared "path_hop list"

datatype transport_readiness = NotRequired | Ready | ReadinessUnknown

datatype wire_event_role = CapabilityReply | BarrierReply | Unclassified

record wire_event =
  event_sequence :: u32
  event_role :: wire_event_role
  event_protocol :: "protocol_id option"
  event_correlation :: "string option"
  event_status :: "string option"
  event_fields :: "string \<rightharpoonup> string"
  event_raw_base64 :: string

datatype stop_reason =
  CapabilityAndBarrierObserved | BarrierObserved | Timeout | ResourceLimit | EndOfInput

record wire_exchange =
  logical_request_base64 :: string
  wire_request_base64 :: string
  response_base64 :: string
  exchange_events :: "wire_event list"
  elapsed_ms :: u64
  exchange_stop_reason :: stop_reason

record transport_evidence =
  transport_adapter :: adapter_identity
  transport_readiness :: transport_readiness
  preparation_exchanges :: "wire_exchange list"

record probe_context =
  tty_endpoint :: string
  context_transport :: transport_evidence
  context_hints :: "environment_hint list"
  context_topology :: topology_observation

datatype availability = Available | Unavailable | AvailabilityUnknown

datatype conformance = Conformant | Nonconformant | ConformanceNotApplicable | Inconclusive

datatype assertion_outcome = Pass | Fail | OutcomeUnknown | OutcomeNotApplicable

record assertion_result =
  assertion_id :: string
  assertion_outcome :: assertion_outcome
  assertion_detail :: string

record assessment =
  assessed_availability :: availability
  assessed_conformance :: conformance
  assessed_assertions :: "assertion_result list"

record probe_receipt =
  receipt_schema :: string
  observed_at_unix_ms :: u64
  receipt_capability :: capability_id
  receipt_adapter :: adapter_identity
  receipt_correlation :: "correlation_id option"
  receipt_context :: probe_context
  receipt_exchange :: wire_exchange
  receipt_assessment :: assessment

definition MAX_ARTIFACT_INPUT_BYTES_V1 :: nat where
  "MAX_ARTIFACT_INPUT_BYTES_V1 = 32 * 1024 * 1024"

definition PROBE_RECEIPT_SCHEMA_V1 :: string where
  "PROBE_RECEIPT_SCHEMA_V1 = ''urn:terminal-interop:probe-receipt:v1''"

definition CAPABILITY_NEGOTIATION_SCHEMA_V1 :: string where
  "CAPABILITY_NEGOTIATION_SCHEMA_V1 = ''urn:terminal-interop:capability-negotiation:v1''"

section \<open>Structural validation of a receipt\<close>

datatype probe_receipt_validation_error =
    UnsupportedSchema string
  | InvalidBase64 string
  | NoncanonicalEventSequence string u32 u32

definition validate_base64 ::
  "(string \<Rightarrow> bytes option) \<Rightarrow> string \<Rightarrow> string \<Rightarrow> probe_receipt_validation_error + unit" where
  "validate_base64 dec field val =
     map_err (\<lambda>_. InvalidBase64 field) (ok_or () (map_option (\<lambda>_. ()) (dec val)))"

fun validate_events ::
  "(string \<Rightarrow> bytes option) \<Rightarrow> string \<Rightarrow> nat \<Rightarrow> wire_event list
     \<Rightarrow> probe_receipt_validation_error + unit" where
  "validate_events dec path index [] = Inr ()"
| "validate_events dec path index (event # events) =
     (let expected = u32_of_usize index in
      if event_sequence event \<noteq> expected
      then Inl (NoncanonicalEventSequence path expected (event_sequence event))
      else try_bind
        (validate_base64 dec (path @ ''.events['' @ dec_string index @ ''].raw_base64'')
          (event_raw_base64 event))
        (\<lambda>_. validate_events dec path (Suc index) events))"

definition validate_exchange ::
  "(string \<Rightarrow> bytes option) \<Rightarrow> string \<Rightarrow> wire_exchange \<Rightarrow> probe_receipt_validation_error + unit"
where
  "validate_exchange dec path ex =
     try_bind (validate_base64 dec (path @ ''.logical_request_base64'') (logical_request_base64 ex))
     (\<lambda>_. try_bind (validate_base64 dec (path @ ''.wire_request_base64'') (wire_request_base64 ex))
     (\<lambda>_. try_bind (validate_base64 dec (path @ ''.response_base64'') (response_base64 ex))
     (\<lambda>_. validate_events dec path 0 (exchange_events ex))))"

fun validate_preparation ::
  "(string \<Rightarrow> bytes option) \<Rightarrow> nat \<Rightarrow> wire_exchange list \<Rightarrow> probe_receipt_validation_error + unit"
where
  "validate_preparation dec index [] = Inr ()"
| "validate_preparation dec index (ex # exs) =
     try_bind
       (validate_exchange dec
          (''context.transport.preparation_exchanges['' @ dec_string index @ '']'') ex)
       (\<lambda>_. validate_preparation dec (Suc index) exs)"

definition validate_receipt ::
  "(string \<Rightarrow> bytes option) \<Rightarrow> probe_receipt \<Rightarrow> probe_receipt_validation_error + unit" where
  "validate_receipt dec r =
     (if receipt_schema r \<noteq> PROBE_RECEIPT_SCHEMA_V1
      then Inl (UnsupportedSchema (receipt_schema r))
      else try_bind
        (validate_preparation dec 0 (preparation_exchanges (context_transport (receipt_context r))))
        (\<lambda>_. validate_exchange dec ''exchange'' (receipt_exchange r)))"

text \<open>
  What the validation promises: every wire field is the text of some bytes and events are
  numbered by their position.
\<close>

definition events_canonical :: "nat \<Rightarrow> wire_event list \<Rightarrow> bool" where
  "events_canonical start events \<longleftrightarrow>
     (\<forall>i < length events. event_sequence (events ! i) = u32_of_usize (start + i))"

definition exchange_well_formed :: "(string \<Rightarrow> bytes option) \<Rightarrow> wire_exchange \<Rightarrow> bool" where
  "exchange_well_formed dec ex \<longleftrightarrow>
     dec (logical_request_base64 ex) \<noteq> None \<and> dec (wire_request_base64 ex) \<noteq> None \<and>
     dec (response_base64 ex) \<noteq> None \<and>
     (\<forall>e \<in> set (exchange_events ex). dec (event_raw_base64 e) \<noteq> None) \<and>
     events_canonical 0 (exchange_events ex)"

definition receipt_well_formed :: "(string \<Rightarrow> bytes option) \<Rightarrow> probe_receipt \<Rightarrow> bool" where
  "receipt_well_formed dec r \<longleftrightarrow>
     receipt_schema r = PROBE_RECEIPT_SCHEMA_V1 \<and>
     (\<forall>ex \<in> set (preparation_exchanges (context_transport (receipt_context r))).
        exchange_well_formed dec ex) \<and>
     exchange_well_formed dec (receipt_exchange r)"

lemma validate_base64_Inr_iff [result_iff]:
  "validate_base64 dec field val = Inr u \<longleftrightarrow> dec val \<noteq> None"
  by (simp add: validate_base64_def result_iff)

lemma events_canonical_Nil [simp]: "events_canonical n []"
  by (simp add: events_canonical_def)

lemma events_canonical_Cons [simp]:
  "events_canonical n (e # es) \<longleftrightarrow>
     event_sequence e = u32_of_usize n \<and> events_canonical (Suc n) es"
  by (auto simp: events_canonical_def nth_Cons less_Suc_eq_0_disj split: nat.splits)

lemma validate_events_Inr_iff [result_iff]:
  "validate_events dec path n es = Inr u \<longleftrightarrow>
     events_canonical n es \<and> (\<forall>e \<in> set es. dec (event_raw_base64 e) \<noteq> None)"
  by (induction es arbitrary: n) (auto simp: Let_def result_iff)

lemma validate_exchange_Inr_iff [result_iff]:
  "validate_exchange dec path ex = Inr u \<longleftrightarrow> exchange_well_formed dec ex"
  by (auto simp: validate_exchange_def exchange_well_formed_def result_iff)

lemma validate_preparation_Inr_iff [result_iff]:
  "validate_preparation dec n exs = Inr u \<longleftrightarrow> (\<forall>ex \<in> set exs. exchange_well_formed dec ex)"
  by (induction exs arbitrary: n) (auto simp: result_iff)

lemma validate_receipt_Inr_iff [result_iff]:
  "validate_receipt dec r = Inr u \<longleftrightarrow> receipt_well_formed dec r"
  by (auto simp: validate_receipt_def receipt_well_formed_def result_iff)

section \<open>Negotiation\<close>

datatype candidate_disposition = Eligible | Ineligible

record negotiation_candidate =
  candidate_preference :: u64
  candidate_disposition :: candidate_disposition
  candidate_receipt :: probe_receipt

datatype negotiation_selection =
    Selected u64 capability_id adapter_identity
  | NoEligibleCandidate

record capability_negotiation =
  negotiation_schema :: string
  negotiation_candidates :: "negotiation_candidate list"
  negotiation_selection :: negotiation_selection

datatype negotiation_validation_error =
    NegotiationUnsupportedSchema string
  | NoncanonicalPreference u64 u64
  | DispositionMismatch u64
  | SelectionMismatch
  | SelectedIdentityMismatch u64
  | InvalidReceipt u64 probe_receipt_validation_error

definition preference_from_index :: "nat \<Rightarrow> u64" where
  "preference_from_index index = of_nat index"

definition receipt_is_eligible :: "probe_receipt \<Rightarrow> bool" where
  "receipt_is_eligible r \<longleftrightarrow>
     assessed_availability (receipt_assessment r) = Available \<and>
     assessed_conformance (receipt_assessment r) = Conformant \<and>
     (transport_readiness (context_transport (receipt_context r)) = NotRequired \<or>
      transport_readiness (context_transport (receipt_context r)) = Ready)"

definition disposition_of :: "probe_receipt \<Rightarrow> candidate_disposition" where
  "disposition_of r = (if receipt_is_eligible r then Eligible else Ineligible)"

text \<open>The closure of \<open>negotiate_capabilities_v1\<close> over the enumerated receipts; \<open>sel\<close> is the
  variable it captures.\<close>

fun negotiate_loop ::
  "nat \<Rightarrow> negotiation_selection \<Rightarrow> probe_receipt list
     \<Rightarrow> negotiation_candidate list \<times> negotiation_selection" where
  "negotiate_loop index sel [] = ([], sel)"
| "negotiate_loop index sel (receipt # receipts) =
     (let preference = preference_from_index index;
          (disposition, sel') =
            (if receipt_is_eligible receipt then
               (Eligible,
                case sel of
                  NoEligibleCandidate \<Rightarrow>
                    Selected preference (receipt_capability receipt) (receipt_adapter receipt)
                | Selected _ _ _ \<Rightarrow> sel)
             else (Ineligible, sel));
          (candidates, sel'') = negotiate_loop (Suc index) sel' receipts
      in (\<lparr>candidate_preference = preference, candidate_disposition = disposition,
           candidate_receipt = receipt\<rparr> # candidates, sel''))"

definition negotiate_capabilities_v1 :: "probe_receipt list \<Rightarrow> capability_negotiation" where
  "negotiate_capabilities_v1 receipts =
     (let (candidates, sel) = negotiate_loop 0 NoEligibleCandidate receipts in
      \<lparr>negotiation_schema = CAPABILITY_NEGOTIATION_SCHEMA_V1,
       negotiation_candidates = candidates, negotiation_selection = sel\<rparr>)"

text \<open>The loop of \<open>CapabilityNegotiationV1::validate\<close>; \<open>first\<close> is \<open>first_eligible\<close>.\<close>

fun validate_candidates ::
  "(string \<Rightarrow> bytes option) \<Rightarrow> nat \<Rightarrow> negotiation_candidate option \<Rightarrow> negotiation_candidate list
     \<Rightarrow> negotiation_validation_error + negotiation_candidate option" where
  "validate_candidates dec index first [] = Inr first"
| "validate_candidates dec index first (c # cs) =
     (let expected = preference_from_index index in
      if candidate_preference c \<noteq> expected
      then Inl (NoncanonicalPreference expected (candidate_preference c))
      else try_bind
        (map_err (InvalidReceipt (candidate_preference c))
          (validate_receipt dec (candidate_receipt c)))
        (\<lambda>_. if candidate_disposition c \<noteq> disposition_of (candidate_receipt c)
             then Inl (DispositionMismatch (candidate_preference c))
             else validate_candidates dec (Suc index)
               (if first = None \<and> candidate_disposition c = Eligible then Some c else first) cs))"

text \<open>The closing match of \<open>validate\<close> on the selection and the first eligible candidate.\<close>

definition check_selection ::
  "negotiation_selection \<Rightarrow> negotiation_candidate option \<Rightarrow> negotiation_validation_error + unit"
where
  "check_selection selection first_eligible =
     (case (selection, first_eligible) of
        (NoEligibleCandidate, None) \<Rightarrow> Inr ()
      | (Selected preference capability adapter, Some c) \<Rightarrow>
          if preference = candidate_preference c then
            if capability \<noteq> receipt_capability (candidate_receipt c) \<or>
               adapter \<noteq> receipt_adapter (candidate_receipt c)
            then Inl (SelectedIdentityMismatch preference)
            else Inr ()
          else Inl SelectionMismatch
      | _ \<Rightarrow> Inl SelectionMismatch)"

definition validate_negotiation ::
  "(string \<Rightarrow> bytes option) \<Rightarrow> capability_negotiation \<Rightarrow> negotiation_validation_error + unit" where
  "validate_negotiation dec n =
     (if negotiation_schema n \<noteq> CAPABILITY_NEGOTIATION_SCHEMA_V1
      then Inl (NegotiationUnsupportedSchema (negotiation_schema n))
      else try_bind (validate_candidates dec 0 None (negotiation_candidates n))
        (check_selection (negotiation_selection n)))"

text \<open>
  Deserialization accepts a wire document only after validation.  The text parser of the wire
  struct (serde and serde_json) is the argument \<open>parse_wire\<close>.
\<close>

definition deserialize_negotiation ::
  "(bytes \<Rightarrow> 'e + capability_negotiation) \<Rightarrow> (negotiation_validation_error \<Rightarrow> 'e)
     \<Rightarrow> (string \<Rightarrow> bytes option) \<Rightarrow> bytes \<Rightarrow> 'e + capability_negotiation" where
  "deserialize_negotiation parse_wire custom dec text =
     try_bind (parse_wire text)
       (\<lambda>n. try_bind (map_err custom (validate_negotiation dec n)) (\<lambda>_. Inr n))"

text \<open>The specification of the selection: the first eligible receipt, by position.\<close>

definition first_eligible_selection :: "nat \<Rightarrow> probe_receipt list \<Rightarrow> negotiation_selection" where
  "first_eligible_selection start rs =
     (case position receipt_is_eligible rs of
        None \<Rightarrow> NoEligibleCandidate
      | Some i \<Rightarrow> Selected (of_nat (start + i)) (receipt_capability (rs ! i))
          (receipt_adapter (rs ! i)))"

definition candidate_of :: "nat \<Rightarrow> probe_receipt \<Rightarrow> negotiation_candidate" where
  "candidate_of index r =
     \<lparr>candidate_preference = of_nat index, candidate_disposition = disposition_of r,
      candidate_receipt = r\<rparr>"

definition candidates_of :: "nat \<Rightarrow> probe_receipt list \<Rightarrow> negotiation_candidate list" where
  "candidates_of start rs = map (\<lambda>i. candidate_of (start + i) (rs ! i)) [0..<length rs]"

lemma candidates_of_Nil [simp]: "candidates_of n [] = []"
  by (simp add: candidates_of_def)

lemma candidates_of_Cons [simp]:
  "candidates_of n (r # rs) = candidate_of n r # candidates_of (Suc n) rs"
proof -
  have "[0..<length (r # rs)] = 0 # map Suc [0..<length rs]"
    by (simp add: upt_conv_Cons map_Suc_upt del: upt_Suc)
  then show ?thesis
    by (simp add: candidates_of_def comp_def del: upt_Suc)
qed

lemma receipts_candidates_of [simp]: "map candidate_receipt (candidates_of n rs) = rs"
  by (induction rs arbitrary: n) (simp_all add: candidate_of_def)

lemma length_candidates_of [simp]: "length (candidates_of n rs) = length rs"
  by (simp add: candidates_of_def)

lemma first_eligible_selection_simps [simp]:
  "first_eligible_selection n [] = NoEligibleCandidate"
  "first_eligible_selection n (r # rs) =
     (if receipt_is_eligible r then Selected (of_nat n) (receipt_capability r) (receipt_adapter r)
      else first_eligible_selection (Suc n) rs)"
  by (simp_all add: first_eligible_selection_def split: option.splits)

lemma negotiate_loop_eq:
  "negotiate_loop n sel rs =
     (candidates_of n rs,
      case sel of NoEligibleCandidate \<Rightarrow> first_eligible_selection n rs | Selected _ _ _ \<Rightarrow> sel)"
  by (induction rs arbitrary: n sel)
    (auto simp: Let_def candidate_of_def disposition_of_def preference_from_index_def
      split: negotiation_selection.splits)

lemma negotiate_eq:
  "negotiate_capabilities_v1 rs =
     \<lparr>negotiation_schema = CAPABILITY_NEGOTIATION_SCHEMA_V1,
      negotiation_candidates = candidates_of 0 rs,
      negotiation_selection = first_eligible_selection 0 rs\<rparr>"
  by (simp add: negotiate_capabilities_v1_def negotiate_loop_eq)

lemma candidate_of_eq_iff:
  "c = candidate_of n (candidate_receipt c) \<longleftrightarrow>
     candidate_preference c = of_nat n \<and>
     candidate_disposition c = disposition_of (candidate_receipt c)"
  by (cases c) (simp add: candidate_of_def)

text \<open>Every derived field of the candidates is the one their receipts determine.\<close>

definition candidates_canonical :: "nat \<Rightarrow> negotiation_candidate list \<Rightarrow> bool" where
  "candidates_canonical start cs \<longleftrightarrow> cs = candidates_of start (map candidate_receipt cs)"

lemma candidates_canonical_simps [simp]:
  "candidates_canonical n []"
  "candidates_canonical n (c # cs) \<longleftrightarrow>
     candidate_preference c = of_nat n \<and>
     candidate_disposition c = disposition_of (candidate_receipt c) \<and>
     candidates_canonical (Suc n) cs"
  by (simp_all add: candidates_canonical_def candidate_of_eq_iff)

lemma validate_candidates_Inr_iff:
  "validate_candidates dec n first cs = Inr res \<longleftrightarrow>
     candidates_canonical n cs \<and>
     (\<forall>c \<in> set cs. receipt_well_formed dec (candidate_receipt c)) \<and>
     res = (case first of Some c \<Rightarrow> Some c
       | None \<Rightarrow> find (\<lambda>c. receipt_is_eligible (candidate_receipt c)) cs)"
proof (induction cs arbitrary: n first)
  case Nil
  then show ?case by (auto split: option.splits)
next
  case (Cons c cs)
  show ?case
    by (auto simp: Cons.IH Let_def result_iff preference_from_index_def
        disposition_of_def split: option.splits)
qed

lemma find_candidates_of:
  "find (\<lambda>c. receipt_is_eligible (candidate_receipt c)) (candidates_of n rs) =
     (case position receipt_is_eligible rs of None \<Rightarrow> None
      | Some i \<Rightarrow> Some (candidate_of (n + i) (rs ! i)))"
  by (induction rs arbitrary: n) (auto simp: candidate_of_def split: option.splits)

definition selection_matches ::
  "negotiation_selection \<Rightarrow> negotiation_candidate option \<Rightarrow> bool" where
  "selection_matches sel first \<longleftrightarrow>
     (case first of None \<Rightarrow> sel = NoEligibleCandidate
      | Some c \<Rightarrow> sel = Selected (candidate_preference c)
          (receipt_capability (candidate_receipt c)) (receipt_adapter (candidate_receipt c)))"

lemma selection_matches_simps [simp]:
  "selection_matches sel None \<longleftrightarrow> sel = NoEligibleCandidate"
  "selection_matches sel (Some c) \<longleftrightarrow> sel = Selected (candidate_preference c)
     (receipt_capability (candidate_receipt c)) (receipt_adapter (candidate_receipt c))"
  by (simp_all add: selection_matches_def)

lemma check_selection_Inr_iff [result_iff]:
  "check_selection sel first = Inr u \<longleftrightarrow> selection_matches sel first"
  by (cases sel; cases first) (auto simp: check_selection_def)

lemma validate_negotiation_Inr_iff [result_iff]:
  "validate_negotiation dec n = Inr u \<longleftrightarrow>
     n = negotiate_capabilities_v1 (map candidate_receipt (negotiation_candidates n)) \<and>
     (\<forall>r \<in> set (map candidate_receipt (negotiation_candidates n)). receipt_well_formed dec r)"
  (is "?lhs \<longleftrightarrow> ?rhs")
proof -
  let ?rs = "map candidate_receipt (negotiation_candidates n)"
  let ?first = "find (\<lambda>c. receipt_is_eligible (candidate_receipt c)) (negotiation_candidates n)"
  let ?checked = "negotiation_schema n = CAPABILITY_NEGOTIATION_SCHEMA_V1 \<and>
    candidates_canonical 0 (negotiation_candidates n) \<and>
    (\<forall>r \<in> set ?rs. receipt_well_formed dec r)"
  have 1: "?lhs \<longleftrightarrow> ?checked \<and> selection_matches (negotiation_selection n) ?first"
    by (simp add: validate_negotiation_def result_iff validate_candidates_Inr_iff)
  have 2: "selection_matches (negotiation_selection n) ?first \<longleftrightarrow>
      negotiation_selection n = first_eligible_selection 0 ?rs" if "?checked"
  proof -
    have "negotiation_candidates n = candidates_of 0 ?rs"
      using that by (simp only: candidates_canonical_def)
    then have "?first = find (\<lambda>c. receipt_is_eligible (candidate_receipt c)) (candidates_of 0 ?rs)"
      by (rule arg_cong)
    then have "?first = (case position receipt_is_eligible ?rs of None \<Rightarrow> None
        | Some i \<Rightarrow> Some (candidate_of i (?rs ! i)))"
      by (simp only: find_candidates_of add_0)
    then show ?thesis
      by (cases "position receipt_is_eligible ?rs")
        (simp_all add: first_eligible_selection_def candidate_of_def)
  qed
  have "?rhs \<longleftrightarrow> ?checked \<and> negotiation_selection n = first_eligible_selection 0 ?rs"
    by (subst negotiate_eq, cases n) (auto simp: candidates_canonical_def)
  with 1 2 show ?thesis by blast
qed

lemma deserialize_negotiation_Inr_iff [result_iff]:
  "deserialize_negotiation parse custom dec text = Inr n \<longleftrightarrow>
     parse text = Inr n \<and> (\<exists>u. validate_negotiation dec n = Inr u)"
  by (auto simp: deserialize_negotiation_def result_iff)

section \<open>Properties\<close>

lemma first_eligible_None_iff:
  "first_eligible_selection n rs = NoEligibleCandidate \<longleftrightarrow>
     list_all (\<lambda>r. \<not> receipt_is_eligible r) rs"
  by (induction rs arbitrary: n) auto

lemma first_eligible_Selected_iff:
  "first_eligible_selection 0 rs = Selected p cap ad \<longleftrightarrow>
     (\<exists>i < length rs. p = of_nat i \<and> receipt_is_eligible (rs ! i) \<and>
        list_all (\<lambda>r. \<not> receipt_is_eligible r) (take i rs) \<and>
        cap = receipt_capability (rs ! i) \<and> ad = receipt_adapter (rs ! i))"
proof -
  have "list_all (\<lambda>r. \<not> receipt_is_eligible r) (take i rs) \<longleftrightarrow>
      (\<forall>j<i. \<not> receipt_is_eligible (rs ! j))" if "i < length rs" for i
    using that by (simp add: list_all_length)
  then show ?thesis
    by (auto simp: first_eligible_selection_def position_Some_iff split: option.splits)
      (metis option.inject position_Some_iff option.distinct(1))+
qed

text \<open>C27: Negotiation selects the eligible receipt of the least position, with that position as
  its preference and its own capability and adapter, and selects nothing exactly when no receipt
  is eligible; every receipt is kept, in order, as evidence.\<close>

theorem negotiation_selects_first:
  "(negotiation_selection (negotiate_capabilities_v1 rs) = Selected p cap ad \<longleftrightarrow>
     (\<exists>i < length rs. p = of_nat i \<and> receipt_is_eligible (rs ! i) \<and>
        list_all (\<lambda>r. \<not> receipt_is_eligible r) (take i rs) \<and>
        cap = receipt_capability (rs ! i) \<and> ad = receipt_adapter (rs ! i)))
   \<and> (negotiation_selection (negotiate_capabilities_v1 rs) = NoEligibleCandidate \<longleftrightarrow>
      list_all (\<lambda>r. \<not> receipt_is_eligible r) rs)
   \<and> map candidate_receipt (negotiation_candidates (negotiate_capabilities_v1 rs)) = rs"
  by (simp add: negotiate_eq first_eligible_Selected_iff first_eligible_None_iff)

text \<open>C2: Validation of a negotiation accepts exactly the documents that negotiation itself
  produces from their receipts, when all those receipts are well formed; a document with any
  derived field changed is rejected.\<close>

theorem negotiation_validation_exact:
  "validate_negotiation dec n = Inr () \<longleftrightarrow>
     n = negotiate_capabilities_v1 (map candidate_receipt (negotiation_candidates n)) \<and>
     list_all (receipt_well_formed dec) (map candidate_receipt (negotiation_candidates n))"
  by (simp add: validate_negotiation_Inr_iff list_all_iff)

text \<open>A negotiation of well-formed receipts survives being written and read back: if the wire
  parser returns what was written, deserialization accepts it and returns it unchanged.\<close>

theorem negotiation_document_roundtrip:
  assumes "list_all (receipt_well_formed dec) rs"
    and "parse_wire text = Inr (negotiate_capabilities_v1 rs)"
  shows "deserialize_negotiation parse_wire custom dec text = Inr (negotiate_capabilities_v1 rs)"
proof -
  have "map candidate_receipt (negotiation_candidates (negotiate_capabilities_v1 rs)) = rs"
    by (simp add: negotiate_eq)
  with assms show ?thesis
    by (simp add: deserialize_negotiation_Inr_iff validate_negotiation_Inr_iff list_all_iff
        del: map_eq_conv)
qed

text \<open>A receipt with an empty exchange, for concrete instances.\<close>

definition sample_exchange :: wire_exchange where
  "sample_exchange =
     \<lparr>logical_request_base64 = [], wire_request_base64 = [], response_base64 = [],
      exchange_events = [], elapsed_ms = 0, exchange_stop_reason = Timeout\<rparr>"

definition sample_receipt :: "availability \<Rightarrow> conformance \<Rightarrow> probe_receipt" where
  "sample_receipt avail conf =
     (let ident = \<lparr>adapter_name = ''a'', adapter_version = ''1''\<rparr>;
          proto = \<lparr>protocol_namespace = ''n'', protocol_name = ''p'', protocol_revision = ''r''\<rparr>
      in \<lparr>receipt_schema = PROBE_RECEIPT_SCHEMA_V1, observed_at_unix_ms = 0,
          receipt_capability = \<lparr>capability_protocol = proto, capability_name = ''c''\<rparr>,
          receipt_adapter = ident, receipt_correlation = None,
          receipt_context =
            \<lparr>tty_endpoint = ''/dev/tty'',
             context_transport = \<lparr>transport_adapter = ident, transport_readiness = NotRequired,
               preparation_exchanges = []\<rparr>,
             context_hints = [], context_topology = TopologyUnknown\<rparr>,
          receipt_exchange = sample_exchange,
          receipt_assessment = \<lparr>assessed_availability = avail, assessed_conformance = conf,
            assessed_assertions = []\<rparr>\<rparr>)"

lemma sample_receipt_well_formed: "dec [] \<noteq> None \<Longrightarrow> receipt_well_formed dec (sample_receipt a c)"
  by (simp add: receipt_well_formed_def exchange_well_formed_def sample_receipt_def Let_def
      sample_exchange_def)

theorem negotiation_document_roundtrip_witness:
  "deserialize_negotiation
     (\<lambda>text. if text = ''x'' then Inr (negotiate_capabilities_v1 [sample_receipt Available Conformant])
        else Inl ''bad'') (\<lambda>e. ''custom'') std_decode ''x''
   = Inr (negotiate_capabilities_v1 [sample_receipt Available Conformant])"
  by (rule negotiation_document_roundtrip)
    (simp_all add: sample_receipt_well_formed std_decode_def)

text \<open>Receipt validation accepts exactly the receipts of schema version 1 in which every wire
  field of every exchange, preparation included, is the encoding of some bytes and the events of
  every exchange are numbered by position.\<close>

theorem receipt_validation_exact:
  "validate_receipt dec r = Inr () \<longleftrightarrow>
     receipt_schema r = PROBE_RECEIPT_SCHEMA_V1 \<and>
     list_all (\<lambda>ex. list_all (\<lambda>s. dec s \<noteq> None)
         ([logical_request_base64 ex, wire_request_base64 ex, response_base64 ex]
           @ map event_raw_base64 (exchange_events ex)) \<and>
       map event_sequence (exchange_events ex)
         = map u32_of_usize [0..<length (exchange_events ex)])
       (preparation_exchanges (context_transport (receipt_context r)) @ [receipt_exchange r])"
proof -
  have "events_canonical 0 es \<longleftrightarrow> map event_sequence es = map u32_of_usize [0..<length es]" for es
    by (simp add: events_canonical_def map_equality_iff)
  then have "exchange_well_formed dec ex \<longleftrightarrow>
      list_all (\<lambda>s. dec s \<noteq> None)
        ([logical_request_base64 ex, wire_request_base64 ex, response_base64 ex]
          @ map event_raw_base64 (exchange_events ex)) \<and>
      map event_sequence (exchange_events ex)
        = map u32_of_usize [0..<length (exchange_events ex)]" for ex
    by (simp add: exchange_well_formed_def list_all_iff conj_ac)
  then show ?thesis
    by (simp only: validate_receipt_Inr_iff receipt_well_formed_def list_all_append list_all_iff
        list.set ball_simps ball_Un conj_ac set_append simp_thms)
qed

end
