(* ===== verification/Utf8_Text.thy ===== *)
theory Utf8_Text
  imports Interop_Prelude
begin

text \<open>
  UTF-8 as the standard library reads it.  A string is the list of its bytes, a \<open>char\<close> of Rust
  its code point, a \<open>nat\<close>.  \<open>utf8_next\<close> reads one character or one maximal ill-formed piece from
  the front of a nonempty byte list, by the table of \<open>core::str::lossy\<close>; on it rest
  \<open>String::from_utf8_lossy\<close>, \<open>str::from_utf8\<close> and \<open>str::chars\<close>.
\<close>

section \<open>Reading and writing one character\<close>

definition byte_at :: "bytes \<Rightarrow> nat \<Rightarrow> nat" where
  "byte_at bs i = (case get_at bs i of None \<Rightarrow> 0 | Some b \<Rightarrow> of_char b)"

definition cont_byte :: "nat \<Rightarrow> bool" where
  "cont_byte n \<longleftrightarrow> 0x80 \<le> n \<and> n \<le> 0xBF"

definition second_of_3 :: "nat \<Rightarrow> nat \<Rightarrow> bool" where
  "second_of_3 b0 b1 \<longleftrightarrow>
     (if b0 = 0xE0 then 0xA0 \<le> b1 \<and> b1 \<le> 0xBF
      else if b0 = 0xED then 0x80 \<le> b1 \<and> b1 \<le> 0x9F else cont_byte b1)"

definition second_of_4 :: "nat \<Rightarrow> nat \<Rightarrow> bool" where
  "second_of_4 b0 b1 \<longleftrightarrow>
     (if b0 = 0xF0 then 0x90 \<le> b1 \<and> b1 \<le> 0xBF
      else if b0 = 0xF4 then 0x80 \<le> b1 \<and> b1 \<le> 0x8F else cont_byte b1)"

definition utf8_next :: "bytes \<Rightarrow> nat option \<times> nat" where
  "utf8_next bs =
     (let b0 = byte_at bs 0; b1 = byte_at bs 1; b2 = byte_at bs 2; b3 = byte_at bs 3 in
      if b0 < 0x80 then (Some b0, 1)
      else if 0xC2 \<le> b0 \<and> b0 \<le> 0xDF then
        (if cont_byte b1 then (Some ((b0 - 0xC0) * 64 + (b1 - 0x80)), 2) else (None, 1))
      else if 0xE0 \<le> b0 \<and> b0 \<le> 0xEF then
        (if \<not> second_of_3 b0 b1 then (None, 1)
         else if \<not> cont_byte b2 then (None, 2)
         else (Some (((b0 - 0xE0) * 64 + (b1 - 0x80)) * 64 + (b2 - 0x80)), 3))
      else if 0xF0 \<le> b0 \<and> b0 \<le> 0xF4 then
        (if \<not> second_of_4 b0 b1 then (None, 1)
         else if \<not> cont_byte b2 then (None, 2)
         else if \<not> cont_byte b3 then (None, 3)
         else (Some ((((b0 - 0xF0) * 64 + (b1 - 0x80)) * 64 + (b2 - 0x80)) * 64 + (b3 - 0x80)), 4))
      else (None, 1))"

definition is_scalar :: "nat \<Rightarrow> bool" where
  "is_scalar c \<longleftrightarrow> c < 0xD800 \<or> 0xE000 \<le> c \<and> c \<le> 0x10FFFF"

definition encode_char :: "nat \<Rightarrow> bytes" where
  "encode_char c =
     (if c < 0x80 then [char_of c]
      else if c < 0x800 then [char_of (0xC0 + c div 64), char_of (0x80 + c mod 64)]
      else if c < 0x10000 then
        [char_of (0xE0 + c div 64 div 64), char_of (0x80 + c div 64 mod 64),
         char_of (0x80 + c mod 64)]
      else
        [char_of (0xF0 + c div 64 div 64 div 64), char_of (0x80 + c div 64 div 64 mod 64),
         char_of (0x80 + c div 64 mod 64), char_of (0x80 + c mod 64)])"

lemma byte_at_Cons [simp]:
  "byte_at (b # bs) 0 = of_char b"
  "byte_at (b # bs) (Suc i) = byte_at bs i"
  by (simp_all add: byte_at_def get_at_def)

lemma byte_at_numeral [simp]:
  "byte_at (b # bs) (numeral k) = byte_at bs (pred_numeral k)"
  by (simp add: numeral_eq_Suc)

lemma byte_at_Nil [simp]: "byte_at [] i = 0"
  by (simp add: byte_at_def get_at_def)

lemma byte_at_less: "byte_at bs i < 256"
  by (simp add: byte_at_def split: option.splits)

lemma byte_at_pos: "0 < byte_at bs i \<Longrightarrow> i < length bs \<and> char_of (byte_at bs i) = bs ! i"
  by (auto simp: byte_at_def get_at_def split: if_splits)

lemma utf8_next_pos: "0 < snd (utf8_next bs)"
  by (simp add: utf8_next_def Let_def)

lemma encode_char_not_Nil [simp]: "encode_char c \<noteq> []"
  by (simp add: encode_char_def)

text \<open>The characters of two, three and four bytes, by the bits each byte carries.\<close>

lemma encode_char_two:
  assumes "2 \<le> q" "q < 32" "r < 64"
  shows "is_scalar (q * 64 + r)" "encode_char (q * 64 + r) = [char_of (0xC0 + q), char_of (0x80 + r)]"
  using assms by (auto simp: encode_char_def split_radix is_scalar_def)

lemma encode_char_three:
  assumes "q < 16" "r < 64" "s < 64" "1 \<le> q \<or> 32 \<le> r" "q < 13 \<or> 13 < q \<or> q = 13 \<and> r < 32"
  shows "is_scalar ((q * 64 + r) * 64 + s)"
    "encode_char ((q * 64 + r) * 64 + s) = [char_of (0xE0 + q), char_of (0x80 + r), char_of (0x80 + s)]"
proof -
  define c where "c = (q * 64 + r) * 64 + s"
  have d: "c div 64 = q * 64 + r" "c mod 64 = s" "(q * 64 + r) div 64 = q" "(q * 64 + r) mod 64 = r"
    using assms(2,3) by (simp_all only: c_def split_radix)
  have c: "c = 4096 * q + 64 * r + s"
    by (simp add: c_def)
  have "0x800 \<le> c"
    using assms(4) c by (elim disjE) linarith+
  moreover have "c < 0x10000"
    using assms(1-3) c by linarith
  moreover have "c < 0xD800 \<or> 0xE000 \<le> c"
    using assms(5) c assms(1-3) by (elim disjE) linarith+
  ultimately show "is_scalar ((q * 64 + r) * 64 + s)"
    "encode_char ((q * 64 + r) * 64 + s) = [char_of (0xE0 + q), char_of (0x80 + r), char_of (0x80 + s)]"
    unfolding c_def [symmetric] using assms(2,3) by (simp_all add: encode_char_def d is_scalar_def)
qed

lemma encode_char_four:
  assumes "q < 5" "r < 64" "s < 64" "t < 64" "1 \<le> q \<or> 16 \<le> r" "q < 4 \<or> r < 16"
  shows "is_scalar (((q * 64 + r) * 64 + s) * 64 + t)"
    "encode_char (((q * 64 + r) * 64 + s) * 64 + t) =
       [char_of (0xF0 + q), char_of (0x80 + r), char_of (0x80 + s), char_of (0x80 + t)]"
proof -
  define c c1 c2 where "c = ((q * 64 + r) * 64 + s) * 64 + t" and "c1 = c div 64" and "c2 = c1 div 64"
  have d: "c div 64 = c1" "c mod 64 = t" "c1 div 64 = c2" "c1 mod 64 = s" "c2 div 64 = q" "c2 mod 64 = r"
    unfolding c2_def c1_def using assms(2-4) by (simp_all only: c_def split_radix)
  have c: "c = 262144 * q + 4096 * r + 64 * s + t"
    by (simp add: c_def)
  have "0x10000 \<le> c"
    using assms(5) c by (elim disjE) linarith+
  moreover have "c \<le> 0x10FFFF"
    using assms(6) c assms(1-4) by (elim disjE) linarith+
  ultimately show "is_scalar (((q * 64 + r) * 64 + s) * 64 + t)"
    "encode_char (((q * 64 + r) * 64 + s) * 64 + t) =
       [char_of (0xF0 + q), char_of (0x80 + r), char_of (0x80 + s), char_of (0x80 + t)]"
    unfolding c_def [symmetric] by (simp_all add: encode_char_def d is_scalar_def)
qed

lemma split_radix_64: obtains q r :: nat where "c = q * 64 + r" "r < 64"
  by (rule that [of "c div 64" "c mod 64"]) simp_all

lemma utf8_next_encode:
  assumes "is_scalar c"
  shows "utf8_next (encode_char c @ bs) = (Some c, length (encode_char c))"
proof -
  obtain s c1 where c: "c = c1 * 64 + s" "s < 64" by (rule split_radix_64)
  obtain r c2 where c1: "c1 = c2 * 64 + r" "r < 64" by (rule split_radix_64)
  obtain q p where c2: "c2 = p * 64 + q" "q < 64" by (rule split_radix_64)
  have max: "c \<le> 0x10FFFF" and gap: "c < 0xD800 \<or> 0xE000 \<le> c"
    using assms by (auto simp: is_scalar_def)
  consider "c < 0x80" | "0x80 \<le> c" "c < 0x800" | "0x800 \<le> c" "c < 0x10000" | "0x10000 \<le> c"
    by linarith
  then show ?thesis
  proof cases
    case 1
    then show ?thesis by (simp add: encode_char_def utf8_next_def Let_def)
  next
    case 2
    then have "2 \<le> c1" "c1 < 32"
      using c by linarith+
    with encode_char_two(2) [OF this c(2)] c show ?thesis
      by (simp add: utf8_next_def Let_def cont_byte_def)
  next
    case 3
    have lim: "c2 < 16" "1 \<le> c2 \<or> 32 \<le> r" "c2 < 13 \<or> 13 < c2 \<or> c2 = 13 \<and> r < 32"
      using 3 gap c c1 by linarith+
    then have "second_of_3 (224 + c2) (128 + r)"
      using c1(2) by (auto simp: second_of_3_def cont_byte_def)
    with encode_char_three(2) [OF lim(1) c1(2) c(2) lim(2,3)] lim(1) c c1 show ?thesis
      by (simp add: utf8_next_def Let_def cont_byte_def)
  next
    case 4
    have lim: "p < 5" "1 \<le> p \<or> 16 \<le> q" "p < 4 \<or> q < 16"
      using 4 max c c1 c2 by linarith+
    then have "second_of_4 (240 + p) (128 + q)"
      using c2(2) by (auto simp: second_of_4_def cont_byte_def)
    with encode_char_four(2) [OF lim(1) c2(2) c1(2) c(2) lim(2,3)] lim(1) c c1 c2 show ?thesis
      by (simp add: utf8_next_def Let_def cont_byte_def)
  qed
qed

lemma take_explicit:
  "2 \<le> length xs \<Longrightarrow> take 2 xs = [xs ! 0, xs ! 1]"
  "3 \<le> length xs \<Longrightarrow> take 3 xs = [xs ! 0, xs ! 1, xs ! 2]"
  "4 \<le> length xs \<Longrightarrow> take 4 xs = [xs ! 0, xs ! 1, xs ! 2, xs ! 3]"
  proof -
  show "2 \<le> length xs \<Longrightarrow> take 2 xs = [xs ! 0, xs ! 1]"
    by (cases xs; cases "tl xs") simp_all
  show "3 \<le> length xs \<Longrightarrow> take 3 xs = [xs ! 0, xs ! 1, xs ! 2]"
    by (cases xs; cases "tl xs"; cases "tl (tl xs)") simp_all
  show "4 \<le> length xs \<Longrightarrow> take 4 xs = [xs ! 0, xs ! 1, xs ! 2, xs ! 3]"
    by (cases xs; cases "tl xs"; cases "tl (tl xs)"; cases "tl (tl (tl xs))") simp_all
qed

lemma cont_byte_bits:
  assumes "cont_byte b"
  obtains r where "b = 0x80 + r" "r < 64"
  using assms by (intro that [of "b - 0x80"]) (auto simp: cont_byte_def)

text \<open>The bytes that \<open>utf8_next\<close> has looked at are there.\<close>

lemma take_bytes:
  "0 < byte_at bs 1 \<Longrightarrow> take 2 bs = [char_of (byte_at bs 0), char_of (byte_at bs 1)]"
  "0 < byte_at bs 2 \<Longrightarrow> take 3 bs = [char_of (byte_at bs 0), char_of (byte_at bs 1), char_of (byte_at bs 2)]"
  "0 < byte_at bs 3 \<Longrightarrow>
     take 4 bs = [char_of (byte_at bs 0), char_of (byte_at bs 1), char_of (byte_at bs 2), char_of (byte_at bs 3)]"
  by (auto dest!: byte_at_pos simp: take_explicit byte_at_def get_at_def)

lemma utf8_next_shape:
  assumes "utf8_next bs = (Some c, n)" "bs \<noteq> []"
  shows "is_scalar c \<and> encode_char c = take n bs \<and> n \<le> length bs"
proof -
  let ?b = "byte_at bs"
  consider (one) "?b 0 < 0x80" "c = ?b 0" "n = 1"
    | (two) "0xC2 \<le> ?b 0" "?b 0 \<le> 0xDF" "cont_byte (?b 1)" "n = 2"
        "c = (?b 0 - 0xC0) * 64 + (?b 1 - 0x80)"
    | (three) "0xE0 \<le> ?b 0" "?b 0 \<le> 0xEF" "second_of_3 (?b 0) (?b 1)" "cont_byte (?b 2)" "n = 3"
        "c = ((?b 0 - 0xE0) * 64 + (?b 1 - 0x80)) * 64 + (?b 2 - 0x80)"
    | (four) "0xF0 \<le> ?b 0" "?b 0 \<le> 0xF4" "second_of_4 (?b 0) (?b 1)" "cont_byte (?b 2)"
        "cont_byte (?b 3)" "n = 4"
        "c = (((?b 0 - 0xF0) * 64 + (?b 1 - 0x80)) * 64 + (?b 2 - 0x80)) * 64 + (?b 3 - 0x80)"
    using assms(1) by (auto simp: utf8_next_def Let_def split: if_splits)
  then show ?thesis
  proof cases
    case one
    with assms(2) show ?thesis
      by (cases bs) (simp_all add: is_scalar_def encode_char_def)
  next
    case two
    define q where "q = ?b 0 - 0xC0"
    obtain r where r: "?b 1 = 0x80 + r" "r < 64"
      using two(3) by (rule cont_byte_bits)
    have q: "2 \<le> q" "q < 32" "?b 0 = 0xC0 + q"
      using two(1,2) by (auto simp: q_def)
    show ?thesis
      using encode_char_two [OF q(1,2) r(2)] take_bytes(1) [of bs] byte_at_pos [of bs 1] r(1) two(4,5) by (simp add: q(3))
  next
    case three
    define q where "q = ?b 0 - 0xE0"
    have q: "q < 16" "?b 0 = 0xE0 + q"
      using three(1,2) by (auto simp: q_def)
    have "cont_byte (?b 1)"
      using three(3) by (auto simp: second_of_3_def cont_byte_def split: if_splits)
    then obtain r where r: "?b 1 = 0x80 + r" "r < 64" by (rule cont_byte_bits)
    obtain s where s: "?b 2 = 0x80 + s" "s < 64"
      using three(4) by (rule cont_byte_bits)
    have "1 \<le> q \<or> 32 \<le> r" "q < 13 \<or> 13 < q \<or> q = 13 \<and> r < 32"
      using three(3) q r by (auto simp: second_of_3_def cont_byte_def split: if_splits)
    from encode_char_three [OF q(1) r(2) s(2) this] show ?thesis
      using take_bytes(2) [of bs] byte_at_pos [of bs 2] r(1) s(1) three(5,6) by (simp add: q(2))
  next
    case four
    define q where "q = ?b 0 - 0xF0"
    have q: "q < 5" "?b 0 = 0xF0 + q"
      using four(1,2) by (auto simp: q_def)
    have "cont_byte (?b 1)"
      using four(3) by (auto simp: second_of_4_def cont_byte_def split: if_splits)
    then obtain r where r: "?b 1 = 0x80 + r" "r < 64" by (rule cont_byte_bits)
    obtain s where s: "?b 2 = 0x80 + s" "s < 64"
      using four(4) by (rule cont_byte_bits)
    obtain t where t: "?b 3 = 0x80 + t" "t < 64"
      using four(5) by (rule cont_byte_bits)
    have "1 \<le> q \<or> 16 \<le> r" "q < 4 \<or> r < 16"
      using four(3) q r by (auto simp: second_of_4_def cont_byte_def split: if_splits)
    from encode_char_four [OF q(1) r(2) s(2) t(2) this] show ?thesis
      using take_bytes(3) [of bs] byte_at_pos [of bs 3] r(1) s(1) t(1) four(6,7) by (simp add: q(2))
  qed
qed

lemma utf8_next_Some:
  assumes "utf8_next bs = (Some c, n)" "bs \<noteq> []"
  shows "is_scalar c" "encode_char c = take n bs" "n \<le> length bs"
  using utf8_next_shape [OF assms] by simp_all

section \<open>Reading byte sequences\<close>

definition replacement_char :: nat where
  "replacement_char = 0xFFFD"

function decode_lossy :: "bytes \<Rightarrow> nat list" where
  "decode_lossy bs =
     (if bs = [] then []
      else case utf8_next bs of
        (Some c, n) \<Rightarrow> c # decode_lossy (drop n bs)
      | (None, n) \<Rightarrow> replacement_char # decode_lossy (drop n bs))"
  by pat_completeness auto
termination
  by (relation "measure length")
    (auto intro!: diff_less dest: arg_cong [where f = snd] simp: utf8_next_pos
      simp del: utf8_next_def)

declare decode_lossy.simps [simp del]

text \<open>\<open>String::from_utf8_lossy\<close>, and \<open>str::from_utf8\<close> with the characters of the result.\<close>

definition encode_chars :: "nat list \<Rightarrow> bytes" where
  "encode_chars cs = concat (map encode_char cs)"

definition from_utf8_lossy :: "bytes \<Rightarrow> string" where
  "from_utf8_lossy bs = encode_chars (decode_lossy bs)"

definition utf8_valid :: "bytes \<Rightarrow> bool" where
  "utf8_valid bs \<longleftrightarrow> from_utf8_lossy bs = bs"

definition from_utf8 :: "bytes \<Rightarrow> string option" where
  "from_utf8 bs = (if utf8_valid bs then Some bs else None)"

text \<open>\<open>char::is_control\<close>: the category Cc.\<close>

definition is_control :: "nat \<Rightarrow> bool" where
  "is_control c \<longleftrightarrow> c < 0x20 \<or> 0x7F \<le> c \<and> c < 0xA0"

lemma is_scalar_replacement [simp]: "is_scalar replacement_char"
  by (simp add: is_scalar_def replacement_char_def)

lemma decode_lossy_Nil [simp]: "decode_lossy [] = []"
  by (simp add: decode_lossy.simps)

lemma encode_chars_simps [simp]:
  "encode_chars [] = []"
  "encode_chars (c # cs) = encode_char c @ encode_chars cs"
  by (simp_all add: encode_chars_def)

lemma encode_chars_append [simp]: "encode_chars (cs @ ds) = encode_chars cs @ encode_chars ds"
  by (simp add: encode_chars_def)

lemma decode_lossy_encode_char [simp]:
  "is_scalar c \<Longrightarrow> decode_lossy (encode_char c @ bs) = c # decode_lossy bs"
  by (subst decode_lossy.simps) (simp add: utf8_next_encode)

lemma decode_lossy_encode: "list_all is_scalar cs \<Longrightarrow> decode_lossy (encode_chars cs) = cs"
  by (induction cs) simp_all

lemma decode_lossy_encode_append:
  "list_all is_scalar cs \<Longrightarrow> decode_lossy (encode_chars cs @ bs) = cs @ decode_lossy bs"
  by (induction cs) simp_all

lemma decode_lossy_scalars: "list_all is_scalar (decode_lossy bs)"
proof (induction bs rule: decode_lossy.induct)
  case (1 bs)
  show ?case
  proof (cases "bs = []")
    case True
    then show ?thesis by simp
  next
    case False
    obtain r n where rn: "utf8_next bs = (r, n)"
      by fastforce
    show ?thesis
    proof (cases r)
      case None
      then show ?thesis
        using "1.IH"(1) [OF False rn [symmetric] None] False rn
        by (subst decode_lossy.simps) simp
    next
      case (Some c)
      then show ?thesis
        using "1.IH"(2) [OF False rn [symmetric] Some] False rn utf8_next_Some(1) [of bs c n]
        by (subst decode_lossy.simps) simp
    qed
  qed
qed

text \<open>The lossy reading is well formed, and it is the bytes themselves exactly on encoded text.\<close>

lemma utf8_valid_encode: "list_all is_scalar cs \<Longrightarrow> utf8_valid (encode_chars cs)"
  by (simp add: utf8_valid_def from_utf8_lossy_def decode_lossy_encode)

lemma utf8_valid_lossy: "utf8_valid (from_utf8_lossy bs)"
  unfolding from_utf8_lossy_def by (rule utf8_valid_encode [OF decode_lossy_scalars])

lemma utf8_valid_iff: "utf8_valid bs \<longleftrightarrow> (\<exists>cs. list_all is_scalar cs \<and> bs = encode_chars cs)"
proof
  assume "utf8_valid bs"
  then have "bs = encode_chars (decode_lossy bs)"
    by (simp add: utf8_valid_def from_utf8_lossy_def)
  then show "\<exists>cs. list_all is_scalar cs \<and> bs = encode_chars cs"
    using decode_lossy_scalars by blast
qed (auto simp: utf8_valid_encode)

lemma from_utf8_lossy_valid: "utf8_valid bs \<Longrightarrow> from_utf8_lossy bs = bs"
  by (simp add: utf8_valid_def)

text \<open>Every byte of a multi-byte character is outside ASCII.\<close>

definition ascii_byte :: "byte \<Rightarrow> bool" where
  "ascii_byte b \<longleftrightarrow> of_char b < (0x80 :: nat)"

lemma encode_char_ascii: "c < 0x80 \<Longrightarrow> encode_char c = [char_of c]"
  by (simp add: encode_char_def)

lemma encode_char_byte [simp]: "ascii_byte b \<Longrightarrow> encode_char (of_char b) = [b]"
  by (simp add: encode_char_def ascii_byte_def)

lemma ascii_byte_char_of: "n < 256 \<Longrightarrow> ascii_byte (char_of n) \<longleftrightarrow> n < 128" for n :: nat
  by (simp add: ascii_byte_def)

lemma encode_char_not_ascii:
  assumes "is_scalar c" "0x80 \<le> c" "b \<in> set (encode_char c)"
  shows "\<not> ascii_byte b"
proof -
  have "c \<le> 0x10FFFF"
    using assms(1) by (auto simp: is_scalar_def)
  have low: "x mod 64 < 128" for x :: nat
    by (rule less_trans [of _ 64]) simp_all
  consider "c < 0x800" | "0x800 \<le> c" "c < 0x10000" | "0x10000 \<le> c"
    by linarith
  then show ?thesis
  proof cases
    case 1
    then have "c div 64 < 32"
      by (intro less_mult_imp_div_less) simp
    with 1 assms(2,3) low show ?thesis
      by (auto simp: encode_char_def ascii_byte_char_of)
  next
    case 2
    then have "c div 64 div 64 < 16"
      by (intro less_mult_imp_div_less) simp
    with 2 assms(2,3) low show ?thesis
      by (auto simp: encode_char_def ascii_byte_char_of)
  next
    case 3
    have "c div 64 div 64 div 64 < 8"
      using \<open>c \<le> 0x10FFFF\<close> by (intro less_mult_imp_div_less) simp
    with 3 assms(2,3) low show ?thesis
      by (auto simp: encode_char_def ascii_byte_char_of)
  qed
qed

lemma ascii_scalar [simp]: "ascii_byte b \<Longrightarrow> is_scalar (of_char b)"
  by (simp add: ascii_byte_def is_scalar_def)

lemma encode_chars_ascii:
  "list_all ascii_byte s \<Longrightarrow> encode_chars (map of_char s) = s"
  by (induction s) simp_all

lemma decode_lossy_ascii: "list_all ascii_byte s \<Longrightarrow> decode_lossy s = map of_char s"
  using decode_lossy_encode [of "map of_char s"] encode_chars_ascii [of s]
  by (simp add: list.pred_map list_all_length)

lemma utf8_valid_ascii: "list_all ascii_byte s \<Longrightarrow> utf8_valid s"
  by (simp add: utf8_valid_def from_utf8_lossy_def decode_lossy_ascii encode_chars_ascii)

text \<open>An ASCII byte of encoded text is one of its characters.\<close>

lemma encode_chars_ascii_byte:
  assumes "list_all is_scalar cs" "b \<in> set (encode_chars cs)" "ascii_byte b"
  shows "of_char b \<in> set cs"
proof -
  obtain c where c: "c \<in> set cs" "b \<in> set (encode_char c)"
    using assms(2) by (auto simp: encode_chars_def)
  then have "is_scalar c"
    using assms(1) by (auto simp: list_all_iff)
  then have "c < 0x80"
    using encode_char_not_ascii [of c b] c(2) assms(3) by (meson not_less)
  then have "b = char_of c"
    using c(2) by (simp add: encode_char_ascii)
  with \<open>c < 0x80\<close> c(1) show ?thesis by simp
qed

end
