(* ===== verification/Byte_Scan.thy ===== *)
theory Byte_Scan
  imports Interop_Prelude
begin

text \<open>
  The interface between a reply parser and the loop that runs it over a received byte stream.
  The crates \<open>da1\<close>, \<open>geometry\<close> and \<open>kgp\<close> each contain the loop: at an offset, a complete
  reply is recorded and the loop goes on after it, otherwise one byte is skipped.  The locale
  \<open>scanner\<close> takes the parser, the loop and the laws that the parser promises (a reply starts
  where it was parsed and its end lies after that and inside the stream), and proves what the
  loop yields.  The state \<open>'s\<close> is what the loop threads besides the offset (the sequence
  number in \<open>kgp\<close>, nothing elsewhere).  \<open>stable_scanner\<close> adds the laws under which a reply,
  once read, stays read when more bytes arrive.
\<close>

locale scanner =
  fixes parse_at :: "bytes \<Rightarrow> nat \<Rightarrow> 's \<Rightarrow> ('r \<times> nat) option"
    and start_of :: "'r \<Rightarrow> nat"
    and bump :: "'s \<Rightarrow> 's"
    and scan :: "bytes \<Rightarrow> nat \<Rightarrow> 's \<Rightarrow> 'r list"
  assumes progress: "parse_at inp off s = Some (r, nxt) \<Longrightarrow> off < nxt"
    and bounded: "parse_at inp off s = Some (r, nxt) \<Longrightarrow> nxt \<le> length inp"
    and starts: "parse_at inp off s = Some (r, nxt) \<Longrightarrow> start_of r = off"
    and scan_step: "scan inp off s =
      (if off < length inp then
         (case parse_at inp off s of
            Some (r, nxt) \<Rightarrow> r # scan inp nxt (bump s)
          | None \<Rightarrow> scan inp (Suc off) s)
       else [])"
begin

lemma scan_end: "length inp \<le> off \<Longrightarrow> scan inp off s = []"
  by (subst scan_step) simp

lemma scan_hit:
  "parse_at inp off s = Some (r, nxt) \<Longrightarrow> scan inp off s = r # scan inp nxt (bump s)"
  using progress bounded by (subst scan_step) fastforce

lemma scan_miss: "parse_at inp off s = None \<Longrightarrow> scan inp off s = scan inp (Suc off) s"
  by (cases "off < length inp") (simp_all add: scan_step [of inp off s] scan_end)

lemma scan_induct [case_names past hit miss]:
  assumes "\<And>off s. length inp \<le> off \<Longrightarrow> P off s"
    and "\<And>off s r nxt. off < length inp \<Longrightarrow> parse_at inp off s = Some (r, nxt) \<Longrightarrow>
      off < nxt \<Longrightarrow> nxt \<le> length inp \<Longrightarrow> start_of r = off \<Longrightarrow> P nxt (bump s) \<Longrightarrow> P off s"
    and "\<And>off s. off < length inp \<Longrightarrow> parse_at inp off s = None \<Longrightarrow> P (Suc off) s \<Longrightarrow> P off s"
  shows "P off s"
proof (induction "length inp - off" arbitrary: off s rule: less_induct)
  case (less off s)
  show ?case
  proof (cases "off < length inp")
    case False
    then show ?thesis using assms(1) by simp
  next
    case True
    show ?thesis
    proof (cases "parse_at inp off s")
      case None
      then show ?thesis
        using True less.hyps [of "Suc off" s] assms(3) [of off s] by simp
    next
      case (Some p)
      then obtain r nxt where p: "parse_at inp off s = Some (r, nxt)"
        by (cases p) auto
      then have "P nxt (bump s)"
        using True progress [OF p] by (intro less.hyps) simp
      then show ?thesis
        using True p progress [OF p] bounded [OF p] starts [OF p] assms(2) [of off s r nxt] by blast
    qed
  qed
qed

text \<open>Every recorded reply is a parse at its own offset, in the state of its position.\<close>

lemma scan_nth:
  "i < length (scan inp off s) \<Longrightarrow>
     \<exists>nxt. parse_at inp (start_of (scan inp off s ! i)) ((bump ^^ i) s)
       = Some (scan inp off s ! i, nxt)"
proof (induction off s arbitrary: i rule: scan_induct [of inp])
  case (hit off s r nxt)
  show ?case
  proof (cases i)
    case 0
    with hit show ?thesis by (auto simp: scan_hit)
  next
    case (Suc k)
    with hit show ?thesis by (simp add: scan_hit funpow_swap1)
  qed
qed (simp_all add: scan_end scan_miss)

lemma scan_sound:
  "r \<in> set (scan inp off s) \<Longrightarrow> \<exists>s' nxt. parse_at inp (start_of r) s' = Some (r, nxt)"
  using scan_nth by (metis in_set_conv_nth)

lemma scan_from: "r \<in> set (scan inp off s) \<Longrightarrow> off \<le> start_of r"
  by (induction off s rule: scan_induct [of inp]) (auto simp: scan_end scan_hit scan_miss)

text \<open>Replies come in stream order and do not overlap.\<close>

lemma scan_ordered: "sorted_wrt (\<lambda>a b. start_of a < start_of b) (scan inp off s)"
proof (induction off s rule: scan_induct [of inp])
  case (hit off s r nxt)
  then show ?case by (auto simp: scan_hit dest: scan_from)
qed (simp_all add: scan_end scan_miss)

lemma scan_distinct: "distinct (map start_of (scan inp off s))"
  using scan_ordered [of inp off s] by (metis (no_types) strict_sorted_iff sorted_wrt_map)

lemma scan_disjoint:
  assumes indep: "\<And>off s s' r r' n n'. parse_at inp off s = Some (r, n) \<Longrightarrow>
    parse_at inp off s' = Some (r', n') \<Longrightarrow> n = n'"
  shows "sorted_wrt (\<lambda>a b. \<forall>x n. parse_at inp (start_of a) t = Some (x, n) \<longrightarrow> n \<le> start_of b)
    (scan inp off s)"
proof (induction off s rule: scan_induct [of inp])
  case (hit off s r nxt)
  have "\<forall>b\<in>set (scan inp nxt (bump s)).
      \<forall>x n. parse_at inp (start_of r) t = Some (x, n) \<longrightarrow> n \<le> start_of b"
  proof (intro ballI allI impI)
    fix b x n
    assume "b \<in> set (scan inp nxt (bump s))" and "parse_at inp (start_of r) t = Some (x, n)"
    then show "n \<le> start_of b"
      using indep hit(2,5) scan_from by metis
  qed
  with hit show ?case by (simp add: scan_hit)
qed (simp_all add: scan_end scan_miss)

text \<open>
  No complete reply is lost: an offset where a reply parses is the start of a recorded reply,
  or lies inside one.
\<close>

lemma scan_complete:
  assumes "parse_at inp k t = Some (q, m)" "off \<le> k"
    and indep: "\<And>off s s'. parse_at inp off s = None \<longleftrightarrow> parse_at inp off s' = None"
  shows "\<exists>r\<in>set (scan inp off s). \<exists>s' nxt.
    parse_at inp (start_of r) s' = Some (r, nxt) \<and> start_of r \<le> k \<and> k < nxt"
  using assms(2)
proof (induction off s rule: scan_induct [of inp])
  case (past off s)
  then show ?case
    using progress [OF assms(1)] bounded [OF assms(1)] by simp
next
  case (hit off s r nxt)
  show ?case
  proof (cases "nxt \<le> k")
    case True
    with hit show ?thesis by (auto simp: scan_hit)
  next
    case False
    with hit show ?thesis by (auto simp: scan_hit intro!: exI [of _ s])
  qed
next
  case (miss off s)
  then have "off \<noteq> k"
    using assms(1) indep [of off s t] by auto
  with miss show ?case by (auto simp: scan_miss)
qed

lemma scan_nonempty_iff:
  assumes "\<And>off s s'. parse_at inp off s = None \<longleftrightarrow> parse_at inp off s' = None"
  shows "scan inp 0 s \<noteq> [] \<longleftrightarrow> (\<exists>k p. parse_at inp k s = Some p)"
proof
  assume "scan inp 0 s \<noteq> []"
  then obtain r where "r \<in> set (scan inp 0 s)"
    using list.set_intros(1) by (metis neq_Nil_conv)
  then show "\<exists>k p. parse_at inp k s = Some p"
    using scan_sound assms by (metis option.exhaust)
next
  assume "\<exists>k p. parse_at inp k s = Some p"
  then obtain k q m where "parse_at inp k s = Some (q, m)"
    by (metis surj_pair)
  then show "scan inp 0 s \<noteq> []"
    using scan_complete [OF _ _ assms, of k s q m 0 s] by fastforce
qed

text \<open>A stretch in which no reply starts is skipped.\<close>

lemma scan_skip:
  "off \<le> k \<Longrightarrow> (\<And>i s. off \<le> i \<Longrightarrow> i < k \<Longrightarrow> parse_at inp i s = None) \<Longrightarrow>
     scan inp off s = scan inp k s"
proof (induction "k - off" arbitrary: off)
  case 0
  then show ?case by simp
next
  case (Suc n)
  then have "parse_at inp off s = None"
    by simp
  then have "scan inp off s = scan inp (Suc off) s"
    by (rule scan_miss)
  also have "\<dots> = scan inp k s"
    using Suc by (intro Suc.hyps) auto
  finally show ?case .
qed

end

locale stable_scanner = scanner +
  assumes extend: "parse_at inp off s = Some p \<Longrightarrow> parse_at (inp @ ys) off s = Some p"
    and pending: "parse_at inp off s = None \<Longrightarrow> parse_at (inp @ ys) off s \<noteq> None \<Longrightarrow>
      off \<le> k \<Longrightarrow> parse_at inp k t = None"
begin

lemma scan_pending: "(\<And>k t. off \<le> k \<Longrightarrow> parse_at inp k t = None) \<Longrightarrow> scan inp off s = []"
  using scan_skip [of off "max off (length inp)" inp s] by (simp add: scan_end)

text \<open>Bytes that arrive later only append replies.\<close>

lemma scan_extend: "prefix (scan inp off s) (scan (inp @ ys) off s)"
proof (induction off s rule: scan_induct [of inp])
  case (past off s)
  then show ?case by (simp add: scan_end)
next
  case (hit off s r nxt)
  then show ?case
    by (simp add: scan_hit [OF hit(2)] scan_hit [OF extend [OF hit(2)]])
next
  case (miss off s)
  show ?case
  proof (cases "parse_at (inp @ ys) off s")
    case None
    with miss show ?thesis by (simp add: scan_miss)
  next
    case (Some p)
    then have "scan inp off s = []"
      using miss(2) pending [of inp off s ys] by (intro scan_pending) simp
    then show ?thesis by simp
  qed
qed

end

end
