(* ===== verification/Da1_Attributes.thy ===== *)
theory Da1_Attributes
  imports Core_Contracts Utf8_Text Byte_Scan
begin

text \<open>
  Crate \<open>terminal-interop-da1\<close>: the primary device attributes query, the parser of one private
  DA1 reply at an offset, the loop over a byte stream, and the wire event of a reply.  The
  Base64 encoder is the argument \<open>enc\<close>.
\<close>

section \<open>Data and operations\<close>

record da1_response =
  da1_offset :: nat
  da1_end_offset :: nat
  da1_parameters :: "u16 list"
  da1_parameter_text :: string
  da1_raw_base64 :: string

definition device_level :: "da1_response \<Rightarrow> u16 option" where
  "device_level r = get_at (da1_parameters r) 0"

definition advertises :: "da1_response \<Rightarrow> u16 \<Rightarrow> bool" where
  "advertises r extension =
     (case get_from (da1_parameters r) 1 of None \<Rightarrow> False | Some vals \<Rightarrow> extension \<in> set vals)"

definition da1_protocol_id :: protocol_id where
  "da1_protocol_id =
     \<lparr>protocol_namespace = ''org.ecma'', protocol_name = ''ansi-dec-primary-device-attributes'',
      protocol_revision = ''csi-c-da1-v1''\<rparr>"

definition da1_wire_event :: "da1_response \<Rightarrow> u32 \<Rightarrow> wire_event_role \<Rightarrow> wire_event" where
  "da1_wire_event r seq role =
     (let fields = [''parameters'' \<mapsto> da1_parameter_text r];
          fields = (case device_level r of None \<Rightarrow> fields
            | Some level \<Rightarrow> fields(''device_level'' \<mapsto> dec_string (unat level)));
          tail = (case get_from (da1_parameters r) 1 of None \<Rightarrow> [] | Some vals \<Rightarrow> vals);
          extensions = join_with '','' (map (\<lambda>v. dec_string (unat v)) tail)
      in \<lparr>event_sequence = seq, event_role = role, event_protocol = Some da1_protocol_id,
          event_correlation = None, event_status = None,
          event_fields = fields(''extensions'' \<mapsto> extensions),
          event_raw_base64 = da1_raw_base64 r\<rparr>)"

definition da1_build_query :: bytes where
  "da1_build_query = ESC # ''[c''"

text \<open>The \<open>while let\<close> loop over the parameter bytes: the offset where it breaks or the input
  ends, nothing where it returns.\<close>

definition is_parameter_byte :: "byte \<Rightarrow> bool" where
  "is_parameter_byte b \<longleftrightarrow> is_digit b \<or> b = CHR '';''"

function parameters_end :: "bytes \<Rightarrow> nat \<Rightarrow> nat option" where
  "parameters_end input endpos =
     (case get_at input endpos of
        None \<Rightarrow> Some endpos
      | Some b \<Rightarrow>
          if is_parameter_byte b then parameters_end input (endpos + 1)
          else if b = CHR ''c'' then Some endpos
          else None)"
  by pat_completeness auto
termination
  by (relation "measure (\<lambda>(input, endpos). length input - endpos)") (auto simp: slice_simps)

declare parameters_end.simps [simp del]

definition parse_parameters :: "string \<Rightarrow> u16 list option" where
  "parse_parameters body =
     those (map parse_word (filter (\<lambda>v. v \<noteq> []) (split_on (CHR '';'') body)))"

definition parse_response_at :: "(bytes \<Rightarrow> string) \<Rightarrow> bytes \<Rightarrow> nat \<Rightarrow> da1_response option" where
  "parse_response_at enc input offset =
     (let prefix_end = offset + 3 in
      case get_range input offset prefix_end of
        None \<Rightarrow> None
      | Some pre \<Rightarrow>
          if pre \<noteq> ESC # ''[?'' then None
          else case parameters_end input prefix_end of
            None \<Rightarrow> None
          | Some endpos \<Rightarrow>
              if get_at input endpos \<noteq> Some (CHR ''c'') then None
              else case Option.bind (get_range input prefix_end endpos) from_utf8 of
                None \<Rightarrow> None
              | Some body \<Rightarrow>
                  (case parse_parameters body of
                     None \<Rightarrow> None
                   | Some parameters \<Rightarrow>
                       if parameters = [] then None
                       else case get_range input offset (endpos + 1) of
                         None \<Rightarrow> None
                       | Some raw \<Rightarrow> Some
                           \<lparr>da1_offset = offset, da1_end_offset = endpos + 1,
                            da1_parameters = parameters, da1_parameter_text = CHR ''?'' # body,
                            da1_raw_base64 = enc raw\<rparr>))"

section \<open>What a reply is\<close>

text \<open>
  The specification: \<open>body\<close> is a list of \<open>;\<close>-separated decimal numbers of 16 bits, some of
  which may be missing, with at least one present.
\<close>

definition da1_body :: "string \<Rightarrow> u16 list \<Rightarrow> bool" where
  "da1_body body ps \<longleftrightarrow>
     list_all is_parameter_byte body \<and> parse_parameters body = Some ps \<and> ps \<noteq> []"

definition da1_reply :: "string \<Rightarrow> bytes" where
  "da1_reply body = ESC # ''[?'' @ body @ ''c''"

definition render_parameters :: "u16 list \<Rightarrow> string" where
  "render_parameters ps = join_with '';'' (map (\<lambda>v. dec_string (unat v)) ps)"

lemma digit_ascii: "is_digit b \<Longrightarrow> ascii_byte b"
  by (simp add: is_digit_def ascii_byte_def less_eq_char_def)

lemma parameter_byte_ascii: "is_parameter_byte b \<Longrightarrow> ascii_byte b"
  by (auto simp: is_parameter_byte_def ascii_byte_def is_digit_def less_eq_char_def)

lemma parameter_bytes_valid: "list_all is_parameter_byte s \<Longrightarrow> utf8_valid s"
  by (rule utf8_valid_ascii) (auto simp: list_all_iff parameter_byte_ascii)

lemma not_parameter_byte [simp]: "\<not> is_parameter_byte (CHR ''c'')" "\<not> is_parameter_byte ESC"
  by (simp_all add: is_parameter_byte_def)

lemma parameters_end_body:
  "list_all is_parameter_byte body \<Longrightarrow>
     parameters_end (pre @ body @ CHR ''c'' # post) (length pre) = Some (length pre + length body)"
proof (induction body arbitrary: pre)
  case Nil
  then show ?case
    by (subst parameters_end.simps) (simp add: get_at_def)
next
  case (Cons b body)
  then show ?case
    using Cons.IH [of "pre @ [b]"] by (subst parameters_end.simps) (simp add: get_at_def)
qed

lemma parameters_end_Some:
  "parameters_end input i = Some e \<Longrightarrow> i \<le> length input \<Longrightarrow>
     i \<le> e \<and> e \<le> length input \<and> list_all is_parameter_byte (take (e - i) (drop i input)) \<and>
     (e < length input \<longrightarrow> input ! e = CHR ''c'')"
proof (induction input i rule: parameters_end.induct)
  case (1 input i)
  show ?case
  proof (cases "get_at input i")
    case None
    with "1.prems" show ?thesis
      by (subst (asm) parameters_end.simps) (auto simp: get_at_def split: if_splits)
  next
    case (Some b)
    then have i: "i < length input" "input ! i = b"
      by (simp_all add: slice_simps)
    show ?thesis
    proof (cases "is_parameter_byte b")
      case True
      then have "parameters_end input (i + 1) = Some e"
        using "1.prems" Some by (subst (asm) parameters_end.simps) simp
      then have *: "i + 1 \<le> e" "e \<le> length input"
        "list_all is_parameter_byte (take (e - (i + 1)) (drop (i + 1) input))"
        "e < length input \<longrightarrow> input ! e = CHR ''c''"
        using "1.IH" [OF Some True] i by auto
      have "take (e - i) (drop i input) = b # take (e - (i + 1)) (drop (i + 1) input)"
        using * i by (simp add: Cons_nth_drop_Suc [symmetric] Suc_diff_Suc take_Cons')
      with * True show ?thesis by simp
    next
      case False
      with "1.prems" Some i show ?thesis
        by (subst (asm) parameters_end.simps) (auto split: if_splits)
    qed
  qed
qed

lemma parse_response_at_reply:
  "da1_body body ps \<Longrightarrow>
     parse_response_at enc (pre @ da1_reply body @ post) (length pre) = Some
       \<lparr>da1_offset = length pre, da1_end_offset = length pre + length (da1_reply body),
        da1_parameters = ps, da1_parameter_text = CHR ''?'' # body,
        da1_raw_base64 = enc (da1_reply body)\<rparr>"
  using parameters_end_body [of body "pre @ ESC # ''[?''" post]
  by (simp add: da1_body_def da1_reply_def parse_response_at_def Let_def eval_nat_numeral get_range_def get_at_def nth_append
      from_utf8_def parameter_bytes_valid)

lemma parse_response_at_Some:
  assumes "parse_response_at enc input offset = Some r"
  obtains pre body post where "input = pre @ da1_reply body @ post" "offset = length pre"
    "da1_body body (da1_parameters r)"
proof -
  obtain e body ps where pre: "get_range input offset (offset + 3) = Some (ESC # ''[?'')"
    and e: "parameters_end input (offset + 3) = Some e" "get_at input e = Some (CHR ''c'')"
    and body: "get_range input (offset + 3) e = Some body"
    and ps: "parse_parameters body = Some ps" "ps \<noteq> []" "da1_parameters r = ps"
    using assms
    by (auto simp: parse_response_at_def Let_def from_utf8_def
        split: option.splits if_splits bind_splits)
  from pre have le: "offset + 3 \<le> length input" and
    first: "take 3 (drop offset input) = ESC # ''[?''"
    by (simp_all add: slice_simps)
  have params: "list_all is_parameter_byte body" and e': "offset + 3 \<le> e" "e < length input"
    "input ! e = CHR ''c''"
    using parameters_end_Some [OF e(1) le] body e(2) by (auto simp: slice_simps)
  have "drop offset input = take 3 (drop offset input) @ drop (offset + 3) input"
    by (metis add.commute append_take_drop_id drop_drop)
  also have "drop (offset + 3) input = body @ drop e input"
    using body e' by (simp add: slice_simps)
      (metis append_take_drop_id drop_drop le_add_diff_inverse2)
  also have "drop e input = CHR ''c'' # drop (Suc e) input"
    using e' by (metis Cons_nth_drop_Suc)
  finally have "drop offset input = da1_reply body @ drop (Suc e) input"
    by (simp add: first da1_reply_def)
  then have "input = take offset input @ da1_reply body @ drop (Suc e) input"
    by (metis append_take_drop_id)
  moreover have "offset = length (take offset input)"
    using le by simp
  ultimately show ?thesis
    using that ps params by (simp add: da1_body_def)
qed

lemma parse_response_at_eq:
  assumes "parse_response_at enc input offset = Some r"
  obtains pre body post where "input = pre @ da1_reply body @ post" "offset = length pre"
    "da1_body body (da1_parameters r)"
    "r = \<lparr>da1_offset = length pre, da1_end_offset = length pre + length (da1_reply body),
        da1_parameters = da1_parameters r, da1_parameter_text = CHR ''?'' # body,
        da1_raw_base64 = enc (da1_reply body)\<rparr>"
proof -
  obtain pre body post where *: "input = pre @ da1_reply body @ post" "offset = length pre"
    "da1_body body (da1_parameters r)"
    by (rule parse_response_at_Some [OF assms])
  then show ?thesis
    using that parse_response_at_reply [OF *(3), of enc pre post] assms by simp
qed

lemma length_da1_reply [simp]: "length (da1_reply body) = length body + 4"
  by (simp add: da1_reply_def)

lemma parse_response_at_offsets:
  assumes "parse_response_at enc input offset = Some r"
  shows "da1_offset r = offset" "offset < da1_end_offset r" "da1_end_offset r \<le> length input"
proof -
  obtain pre body post where *: "input = pre @ da1_reply body @ post" "offset = length pre"
    "r = \<lparr>da1_offset = length pre, da1_end_offset = length pre + length (da1_reply body),
        da1_parameters = da1_parameters r, da1_parameter_text = CHR ''?'' # body,
        da1_raw_base64 = enc (da1_reply body)\<rparr>"
    by (rule parse_response_at_eq [OF assms])
  show "da1_offset r = offset" "offset < da1_end_offset r" "da1_end_offset r \<le> length input"
    by (subst *(3), simp add: *(1,2))+
qed

section \<open>The loop over a byte stream\<close>

text \<open>The \<open>while\<close> loop of \<open>parse_responses\<close> from an offset; the vector of responses is the
  result.\<close>

function parse_responses_from :: "(bytes \<Rightarrow> string) \<Rightarrow> bytes \<Rightarrow> nat \<Rightarrow> da1_response list" where
  "parse_responses_from enc input offset =
     (if offset < length input then
        (case parse_response_at enc input offset of
           Some response \<Rightarrow>
             response # parse_responses_from enc input (da1_end_offset response)
         | None \<Rightarrow> parse_responses_from enc input (offset + 1))
      else [])"
  by pat_completeness auto
termination
  by (relation "measure (\<lambda>(enc, input, offset). length input - offset)")
    (auto dest: parse_response_at_offsets)

declare parse_responses_from.simps [simp del]

definition parse_responses :: "(bytes \<Rightarrow> string) \<Rightarrow> bytes \<Rightarrow> da1_response list" where
  "parse_responses enc input = parse_responses_from enc input 0"

text \<open>The parser in the shape of the scanner interface, which has no further state here.\<close>

definition da1_parse_step ::
  "(bytes \<Rightarrow> string) \<Rightarrow> bytes \<Rightarrow> nat \<Rightarrow> unit \<Rightarrow> (da1_response \<times> nat) option" where
  "da1_parse_step enc input offset s =
     map_option (\<lambda>r. (r, da1_end_offset r)) (parse_response_at enc input offset)"

lemma da1_parse_step_Some_iff [simp]:
  "da1_parse_step enc input offset s = Some (r, nxt) \<longleftrightarrow>
     parse_response_at enc input offset = Some r \<and> nxt = da1_end_offset r"
  by (auto simp: da1_parse_step_def)

lemma da1_parse_step_None_iff [simp]:
  "da1_parse_step enc input offset s = None \<longleftrightarrow> parse_response_at enc input offset = None"
  by (simp add: da1_parse_step_def)

lemma parse_response_at_None_no_c:
  "CHR ''c'' \<notin> set (drop offset input) \<Longrightarrow> parse_response_at enc input offset = None"
  by (rule ccontr)
    (auto simp: da1_reply_def elim!: parse_response_at_Some)

lemma parse_response_at_None_no_ESC:
  "ESC \<notin> set (drop offset input) \<Longrightarrow> parse_response_at enc input offset = None"
  by (rule ccontr) (auto simp: da1_reply_def elim!: parse_response_at_Some)

lemma parse_response_at_starts_ESC:
  "parse_response_at enc input offset = Some r \<Longrightarrow> offset < length input \<and> input ! offset = ESC"
  by (auto simp: da1_reply_def nth_append elim!: parse_response_at_Some)

lemma parse_response_at_extend:
  "parse_response_at enc input offset = Some r \<Longrightarrow>
     parse_response_at enc (input @ ys) offset = Some r"
proof (erule parse_response_at_eq)
  fix pre body post
  assume "input = pre @ da1_reply body @ post" "offset = length pre"
    "da1_body body (da1_parameters r)"
    and r: "r = \<lparr>da1_offset = length pre, da1_end_offset = length pre + length (da1_reply body),
        da1_parameters = da1_parameters r, da1_parameter_text = CHR ''?'' # body,
        da1_raw_base64 = enc (da1_reply body)\<rparr>"
  then have "parse_response_at enc (input @ ys) offset =
      Some \<lparr>da1_offset = length pre, da1_end_offset = length pre + length (da1_reply body),
        da1_parameters = da1_parameters r, da1_parameter_text = CHR ''?'' # body,
        da1_raw_base64 = enc (da1_reply body)\<rparr>"
    using parse_response_at_reply [of body "da1_parameters r" enc pre "post @ ys"] by simp
  then show ?thesis
    by (simp only: r [symmetric])
qed

text \<open>
  Where more bytes turn a failure at an offset into a reply, the input ended inside that reply,
  so no later offset holds one.
\<close>

lemma parse_response_at_pending:
  assumes none: "parse_response_at enc input offset = None"
    and extended: "parse_response_at enc (input @ ys) offset \<noteq> None"
    and "offset \<le> k"
  shows "parse_response_at enc input k = None"
proof (rule parse_response_at_None_no_c)
  obtain r where "parse_response_at enc (input @ ys) offset = Some r"
    using extended by blast
  then obtain pre body post where *: "input @ ys = pre @ da1_reply body @ post"
    "offset = length pre" and body: "da1_body body (da1_parameters r)"
    by (rule parse_response_at_Some)
  have short: "length input < length pre + length (da1_reply body)"
  proof (rule ccontr)
    assume "\<not> length input < length pre + length (da1_reply body)"
    then have "length (pre @ da1_reply body) \<le> length input"
      by simp
    moreover have "input @ ys = (pre @ da1_reply body) @ post"
      using * by simp
    ultimately obtain post' where "input = (pre @ da1_reply body) @ post'"
      using append_front by metis
    then show False
      using none parse_response_at_reply [OF body, of enc pre post'] * by simp
  qed
  show "CHR ''c'' \<notin> set (drop k input)"
  proof (cases "length pre \<le> length input")
    case True
    have "drop (length pre) (input @ ys) = drop (length pre) input @ ys"
      using True by simp
    then have "(ESC # ''[?'' @ body) @ CHR ''c'' # post = drop (length pre) input @ ys"
      using * by (simp add: da1_reply_def)
    moreover have "length (drop (length pre) input) \<le> length (ESC # ''[?'' @ body)"
      using short by simp
    ultimately have "prefix (drop (length pre) input) (ESC # ''[?'' @ body)"
      by (rule append_front) (rule prefixI)
    then have "set (drop (length pre) input) \<subseteq> set (ESC # ''[?'' @ body)"
      by (rule set_mono_prefix)
    moreover have "CHR ''c'' \<notin> set body"
      using body by (auto simp: da1_body_def list_all_iff)
    moreover have "set (drop k input) \<subseteq> set (drop (length pre) input)"
      using assms(3) * by (simp add: set_drop_subset_set_drop)
    ultimately show ?thesis by auto
  next
    case False
    then show ?thesis using * assms(3) by simp
  qed
qed

interpretation da1_scan: stable_scanner "da1_parse_step enc" da1_offset id
  "\<lambda>input offset s. parse_responses_from enc input offset" for enc
proof unfold_locales
  fix input offset s ys p k t
  show "parse_responses_from enc input offset =
      (if offset < length input then
         case da1_parse_step enc input offset s of
           None \<Rightarrow> parse_responses_from enc input (Suc offset)
         | Some (r, nxt) \<Rightarrow> r # parse_responses_from enc input nxt
       else [])"
    by (subst parse_responses_from.simps) (simp add: da1_parse_step_def split: option.splits)
  show "da1_parse_step enc input offset s = Some p \<Longrightarrow>
      da1_parse_step enc (input @ ys) offset s = Some p"
    by (cases p) (simp add: parse_response_at_extend)
  show "da1_parse_step enc input offset s = None \<Longrightarrow>
      da1_parse_step enc (input @ ys) offset s \<noteq> None \<Longrightarrow> offset \<le> k \<Longrightarrow>
      da1_parse_step enc input k t = None"
    using parse_response_at_pending [of enc input offset ys k] by simp
qed (auto dest: parse_response_at_offsets)

lemma parse_responses_sound:
  "r \<in> set (parse_responses enc input) \<Longrightarrow> parse_response_at enc input (da1_offset r) = Some r"
  using da1_scan.scan_sound [of r enc input 0] by (auto simp: parse_responses_def)

lemma parse_responses_disjoint:
  "sorted_wrt (\<lambda>a b. da1_end_offset a \<le> da1_offset b) (parse_responses enc input)"
proof -
  have "sorted_wrt (\<lambda>a b. \<forall>x n. da1_parse_step enc input (da1_offset a) () = Some (x, n) \<longrightarrow>
      n \<le> da1_offset b) (parse_responses enc input)"
    unfolding parse_responses_def by (rule da1_scan.scan_disjoint) simp
  then show ?thesis
    by (rule sorted_wrt_mono_rel [rotated]) (simp add: parse_responses_sound)
qed

lemma parse_responses_complete:
  assumes "parse_response_at enc input k = Some q"
  shows "\<exists>r\<in>set (parse_responses enc input). da1_offset r \<le> k \<and> k < da1_end_offset r"
proof -
  obtain r where "r \<in> set (parse_responses enc input)" "da1_offset r \<le> k" "k < da1_end_offset r"
    using da1_scan.scan_complete [of enc input k "()" q "da1_end_offset q" 0] assms
    by (auto simp: parse_responses_def)
  then show ?thesis by blast
qed

lemma parse_responses_extend:
  "prefix (parse_responses enc input) (parse_responses enc (input @ ys))"
  using da1_scan.scan_extend [of enc input 0 ys] by (simp add: parse_responses_def)

lemma parse_responses_nonempty_iff:
  "parse_responses enc input \<noteq> [] \<longleftrightarrow> (\<exists>k r. parse_response_at enc input k = Some r)"
  using da1_scan.scan_nonempty_iff [of enc input "()"] by (auto simp: parse_responses_def)

lemma parse_responses_no_ESC: "ESC \<notin> set input \<Longrightarrow> parse_responses enc input = []"
  using parse_responses_nonempty_iff [of enc input] parse_response_at_starts_ESC
  by (metis nth_mem)

lemma da1_wire_event_simps [simp]:
  "event_sequence (da1_wire_event r seq role) = seq"
  "event_role (da1_wire_event r seq role) = role"
  "event_raw_base64 (da1_wire_event r seq role) = da1_raw_base64 r"
  by (simp_all add: da1_wire_event_def Let_def)

lemma da1_raw:
  assumes "parse_response_at enc input offset = Some r"
  shows "\<exists>raw. get_range input offset (da1_end_offset r) = Some raw \<and> da1_raw_base64 r = enc raw"
proof -
  obtain pre body post where *: "input = pre @ da1_reply body @ post" "offset = length pre"
    "r = \<lparr>da1_offset = length pre, da1_end_offset = length pre + length (da1_reply body),
        da1_parameters = da1_parameters r, da1_parameter_text = CHR ''?'' # body,
        da1_raw_base64 = enc (da1_reply body)\<rparr>"
    by (rule parse_response_at_eq [OF assms])
  have "da1_raw_base64 r = enc (da1_reply body)"
    "da1_end_offset r = length pre + length (da1_reply body)"
    by (subst *(3), simp)+
  then show ?thesis
    using *(1,2) get_range_mid [of pre "da1_reply body" post] by simp
qed

section \<open>Rendering\<close>

lemma render_parameters_bytes: "list_all is_parameter_byte (render_parameters ps)"
proof -
  have "list_all is_parameter_byte (join_with '';'' ss)" if "\<forall>s\<in>set ss. list_all is_parameter_byte s"
    for ss
    using that by (induction "'';''" ss rule: join_with.induct) (auto simp: is_parameter_byte_def)
  moreover have "list_all is_parameter_byte (dec_string n)" for n
    by (auto simp: list_all_iff is_parameter_byte_def dest: dec_string_digits)
  ultimately show ?thesis
    by (simp add: render_parameters_def)
qed

lemma those_map_Some: "\<forall>x\<in>set xs. f x = Some (g x) \<Longrightarrow> those (map f xs) = Some (map g xs)"
  by (induction xs) simp_all

lemma parse_render_parameters: "ps \<noteq> [] \<Longrightarrow> parse_parameters (render_parameters ps) = Some ps"
proof -
  assume "ps \<noteq> []"
  have "CHR '';'' \<notin> set (dec_string n)" for n
    by (rule dec_string_no_syntax) simp
  with \<open>ps \<noteq> []\<close> have "split_on (CHR '';'') (render_parameters ps) = map (\<lambda>v. dec_string (unat v)) ps"
    unfolding render_parameters_def by (intro split_on_join) auto
  then show ?thesis
    using those_map_Some [of ps "\<lambda>v. parse_word (dec_string (unat v))" "\<lambda>v. v"]
    by (simp add: parse_parameters_def comp_def filter_True)
qed

lemma da1_body_render: "ps \<noteq> [] \<Longrightarrow> da1_body (render_parameters ps) ps"
  by (simp add: da1_body_def render_parameters_bytes parse_render_parameters)

text \<open>A stream of replies with other bytes before, between and after them.\<close>

definition da1_segment :: "u16 list \<times> bytes \<Rightarrow> bytes" where
  "da1_segment seg = da1_reply (render_parameters (fst seg)) @ snd seg"

definition da1_stream :: "bytes \<Rightarrow> (u16 list \<times> bytes) list \<Rightarrow> bytes" where
  "da1_stream noise segs = noise @ concat (map da1_segment segs)"

lemma parse_responses_from_noise:
  assumes "ESC \<notin> set noise"
  shows "parse_responses_from enc (pre @ noise @ rest) (length pre) =
    parse_responses_from enc (pre @ noise @ rest) (length pre + length noise)"
proof (rule da1_scan.scan_skip)
  fix i and s :: unit
  assume i: "length pre \<le> i" "i < length pre + length noise"
  then have "i - length pre < length noise"
    by linarith
  then have "(pre @ noise @ rest) ! i \<in> set noise"
    using i by (simp add: nth_append)
  with assms have "(pre @ noise @ rest) ! i \<noteq> ESC"
    by auto
  then show "da1_parse_step enc (pre @ noise @ rest) i s = None"
    using parse_response_at_starts_ESC [of enc "pre @ noise @ rest" i] by fastforce
qed simp

lemma parse_responses_from_stream:
  "ESC \<notin> set noise \<Longrightarrow> list_all (\<lambda>seg. fst seg \<noteq> [] \<and> ESC \<notin> set (snd seg)) segs \<Longrightarrow>
     map da1_parameters (parse_responses_from enc (pre @ da1_stream noise segs) (length pre)) =
       map fst segs"
proof (induction segs arbitrary: pre noise)
  case Nil
  then show ?case
    using parse_responses_from_noise [of noise enc pre "[]"]
    by (simp add: da1_stream_def da1_scan.scan_end)
next
  case (Cons seg segs)
  let ?reply = "da1_reply (render_parameters (fst seg))"
  let ?rest = "da1_stream (snd seg) segs"
  let ?input = "pre @ da1_stream noise (seg # segs)"
  have input: "?input = pre @ noise @ ?reply @ ?rest"
    by (simp add: da1_stream_def da1_segment_def)
  have "parse_response_at enc ((pre @ noise) @ ?reply @ ?rest) (length (pre @ noise)) = Some
      \<lparr>da1_offset = length (pre @ noise), da1_end_offset = length (pre @ noise) + length ?reply,
       da1_parameters = fst seg, da1_parameter_text = CHR ''?'' # render_parameters (fst seg),
       da1_raw_base64 = enc ?reply\<rparr>"
    using Cons.prems by (intro parse_response_at_reply da1_body_render) simp
  then have "da1_parse_step enc ?input (length pre + length noise) () = Some
      (\<lparr>da1_offset = length (pre @ noise), da1_end_offset = length (pre @ noise) + length ?reply,
       da1_parameters = fst seg, da1_parameter_text = CHR ''?'' # render_parameters (fst seg),
       da1_raw_base64 = enc ?reply\<rparr>, length (pre @ noise @ ?reply))"
    by (simp add: input)
  from da1_scan.scan_hit [OF this] parse_responses_from_noise [of noise enc pre "?reply @ ?rest"]
    Cons.prems(1) Cons.IH [of "snd seg" "pre @ noise @ ?reply"] Cons.prems(2)
  show ?case
    by (simp add: input)
qed

lemma da1_stream_roundtrip_aux:
  assumes "ESC \<notin> set noise"
    and "list_all (\<lambda>seg. fst seg \<noteq> [] \<and> ESC \<notin> set (snd seg)) segs"
  shows "map da1_parameters (parse_responses enc (da1_stream noise segs)) = map fst segs"
  using parse_responses_from_stream [OF assms, of enc "[]"] by (simp add: parse_responses_def)

section \<open>Properties\<close>

text \<open>A DA1 response parses at an offset exactly when the input holds there the text
  \<open>ESC [ ? body c\<close> whose body is a list of 16-bit numbers separated by semicolons with at least
  one number; the response then has the exact offsets, parameters and bytes.\<close>

theorem da1_parse_exact:
  "parse_response_at enc input offset = Some r \<longleftrightarrow>
     (\<exists>pre body post ps. input = pre @ da1_reply body @ post \<and> offset = length pre \<and>
        da1_body body ps \<and>
        r = \<lparr>da1_offset = length pre, da1_end_offset = length pre + length (da1_reply body),
             da1_parameters = ps, da1_parameter_text = CHR ''?'' # body,
             da1_raw_base64 = enc (da1_reply body)\<rparr>)"
  by (rule iffI, erule parse_response_at_eq, blast) (auto simp: parse_response_at_reply
      simp del: length_da1_reply)

text \<open>C32: The loop over a byte stream misses no response and reports none twice: the responses are
  parses of the input at their own offsets, in stream order and without overlap, every offset
  at which a response parses lies in a reported one, and bytes that arrive later only append
  responses.\<close>

theorem da1_scan_exact:
  "list_all (\<lambda>r. parse_response_at enc input (da1_offset r) = Some r) (parse_responses enc input)
   \<and> sorted_wrt (\<lambda>a b. da1_end_offset a \<le> da1_offset b) (parse_responses enc input)
   \<and> (parse_response_at enc input k = Some q \<longrightarrow>
        (\<exists>r\<in>set (parse_responses enc input). da1_offset r \<le> k \<and> k < da1_end_offset r))
   \<and> prefix (parse_responses enc input) (parse_responses enc (input @ ys))"
  using parse_responses_complete
  by (auto simp: list_all_iff parse_responses_sound parse_responses_disjoint
      parse_responses_extend)

text \<open>Responses rendered into a stream with arbitrary ESC-free noise around them are read back
  with their parameters, in order.\<close>

theorem da1_stream_roundtrip:
  assumes "ESC \<notin> set noise"
    and "list_all (\<lambda>seg. fst seg \<noteq> [] \<and> ESC \<notin> set (snd seg)) segs"
  shows "map da1_parameters (parse_responses enc (da1_stream noise segs)) = map fst segs"
  using assms by (rule da1_stream_roundtrip_aux)

text \<open>The wire event of a response carries its number, role and bytes, the device level and
  the extensions as decimal text; \<open>advertises\<close> asks for an extension, never for the level.\<close>

theorem da1_event_fields:
  assumes "da1_parameters r = level # extensions"
  shows "event_fields (da1_wire_event r seq role) =
      [''parameters'' \<mapsto> da1_parameter_text r, ''device_level'' \<mapsto> dec_string (unat level),
       ''extensions'' \<mapsto> join_with '','' (map (\<lambda>v. dec_string (unat v)) extensions)]
    \<and> event_sequence (da1_wire_event r seq role) = seq
    \<and> event_role (da1_wire_event r seq role) = role
    \<and> event_raw_base64 (da1_wire_event r seq role) = da1_raw_base64 r
    \<and> (advertises r e \<longleftrightarrow> e \<in> set extensions)"
  using assms
  by (auto simp: da1_wire_event_def device_level_def advertises_def get_at_def get_from_def)

theorem da1_event_fields_witness:
  "event_fields (da1_wire_event \<lparr>da1_offset = 0, da1_end_offset = 8, da1_parameters = [64, 4],
     da1_parameter_text = ''?64;4'', da1_raw_base64 = ''Gw==''\<rparr> 3 BarrierReply) ''extensions''
   = Some ''4''"
  using da1_event_fields [of "\<lparr>da1_offset = 0, da1_end_offset = 8, da1_parameters = [64, 4],
     da1_parameter_text = ''?64;4'', da1_raw_base64 = ''Gw==''\<rparr>" 64 "[4]" 3 BarrierReply 4]
  by (simp add: eval_simps)

theorem da1_stream_roundtrip_witness:
  "map da1_parameters (parse_responses std_encode (da1_stream ''log'' [([62, 4], ''c''), ([1], [])]))
     = [[62, 4], [1]]"
  using da1_stream_roundtrip [of "''log''" "[([62, 4], ''c''), ([1], [])]" std_encode] by simp

theorem da1_scan_exact_witness:
  "\<exists>r\<in>set (parse_responses std_encode (''x'' @ da1_reply ''1;2'')). da1_offset r \<le> 1"
proof -
  have "da1_body ''1;2'' [1, 2]"
    by (simp add: da1_body_def is_parameter_byte_def parse_parameters_def eval_simps)
  from parse_response_at_reply [OF this, of std_encode "''x''" "[]"]
  show ?thesis
    using da1_scan_exact [of std_encode "''x'' @ da1_reply ''1;2''" 1] by auto
qed

end
