(* ===== verification/Window_Geometry.thy ===== *)
theory Window_Geometry
  imports Base64_Interface Utf8_Text Byte_Scan "HOL-Library.Monad_Syntax"
begin

text \<open>
  Crate \<open>terminal-interop-geometry\<close>: the window-area inquiries in pixels (CSI 14 t) and in
  cells (CSI 18 t), the parsers of one reply and their loops over a byte stream.  The source
  writes the two parsers out separately, and so does the model; the proofs about both rest on
  the reading of a reply \<open>CSI d ; a ; b t\<close> that they have in common.
\<close>

section \<open>Data and operations\<close>

record window_pixels =
  pixels_offset :: nat
  pixels_end_offset :: nat
  pixels_width :: u32
  pixels_height :: u32
  pixels_raw_base64 :: string

record window_cells =
  cells_offset :: nat
  cells_end_offset :: nat
  cells_columns :: u16
  cells_rows :: u16
  cells_raw_base64 :: string

definition build_window_pixels_query :: bytes where
  "build_window_pixels_query = ESC # ''[14t''"

definition build_geometry_query :: bytes where
  "build_geometry_query = ESC # ''[14t'' @ ESC # ''[18t''"

definition parse_window_pixels_at ::
  "(bytes \<Rightarrow> string) \<Rightarrow> bytes \<Rightarrow> nat \<Rightarrow> window_pixels option" where
  "parse_window_pixels_at enc input offset = do {
     let prefix_end = offset + 3;
     pre \<leftarrow> get_range input offset prefix_end;
     if pre \<noteq> ESC # ''[4'' then None else do {
       let body_start = prefix_end + 1;
       if get_at input prefix_end \<noteq> Some (CHR '';'') then None else do {
         rest \<leftarrow> get_from input body_start;
         relative_end \<leftarrow> position (\<lambda>b. b = CHR ''t'') rest;
         let endpos = body_start + relative_end;
         bs \<leftarrow> get_range input body_start endpos;
         body \<leftarrow> from_utf8 bs;
         (height, width) \<leftarrow> split_once (CHR '';'') body;
         if height = [] \<or> width = [] \<or> CHR '';'' \<in> set width then None else do {
           h \<leftarrow> parse_word height;
           w \<leftarrow> parse_word width;
           if h = 0 \<or> w = 0 then None else do {
             let end_offset = endpos + 1;
             raw \<leftarrow> get_range input offset end_offset;
             Some \<lparr>pixels_offset = offset, pixels_end_offset = end_offset, pixels_width = w,
                   pixels_height = h, pixels_raw_base64 = enc raw\<rparr>
           }
         }
       }
     }
   }"

definition parse_window_cells_at ::
  "(bytes \<Rightarrow> string) \<Rightarrow> bytes \<Rightarrow> nat \<Rightarrow> window_cells option" where
  "parse_window_cells_at enc input offset = do {
     let prefix_end = offset + 3;
     pre \<leftarrow> get_range input offset prefix_end;
     if pre \<noteq> ESC # ''[8'' then None else do {
       let body_start = prefix_end + 1;
       if get_at input prefix_end \<noteq> Some (CHR '';'') then None else do {
         rest \<leftarrow> get_from input body_start;
         relative_end \<leftarrow> position (\<lambda>b. b = CHR ''t'') rest;
         let endpos = body_start + relative_end;
         bs \<leftarrow> get_range input body_start endpos;
         body \<leftarrow> from_utf8 bs;
         (rows, columns) \<leftarrow> split_once (CHR '';'') body;
         if rows = [] \<or> columns = [] \<or> CHR '';'' \<in> set columns then None else do {
           r \<leftarrow> parse_word rows;
           c \<leftarrow> parse_word columns;
           if r = 0 \<or> c = 0 then None else do {
             let end_offset = endpos + 1;
             raw \<leftarrow> get_range input offset end_offset;
             Some \<lparr>cells_offset = offset, cells_end_offset = end_offset, cells_columns = c,
                   cells_rows = r, cells_raw_base64 = enc raw\<rparr>
           }
         }
       }
     }
   }"

section \<open>The reading both parsers share\<close>

text \<open>The text \<open>CSI d ; a ; b t\<close>, and when \<open>a\<close> and \<open>b\<close> are its two fields.\<close>

definition pair_text :: "byte \<Rightarrow> string \<Rightarrow> string \<Rightarrow> bytes" where
  "pair_text d a b = [ESC, CHR ''['', d, CHR '';''] @ a @ '';'' @ b @ ''t''"

definition pair_fields :: "string \<Rightarrow> string \<Rightarrow> bool" where
  "pair_fields a b \<longleftrightarrow>
     a \<noteq> [] \<and> b \<noteq> [] \<and> CHR ''t'' \<notin> set a \<and> CHR ''t'' \<notin> set b \<and> CHR '';'' \<notin> set a \<and>
     CHR '';'' \<notin> set b \<and> utf8_valid (a @ '';'' @ b)"

definition nonzero_pair :: "string \<Rightarrow> string \<Rightarrow> ('a::len word \<times> 'a word) option" where
  "nonzero_pair a b = do {
     v \<leftarrow> parse_word a;
     w \<leftarrow> parse_word b;
     if v = 0 \<or> w = 0 then None else Some (v, w)
   }"

definition parse_pair_at ::
  "byte \<Rightarrow> bytes \<Rightarrow> nat \<Rightarrow> ('a::len word \<times> 'a word \<times> nat) option" where
  "parse_pair_at d input offset = do {
     pre \<leftarrow> get_range input offset (offset + 3);
     if pre \<noteq> [ESC, CHR ''['', d] \<or> get_at input (offset + 3) \<noteq> Some (CHR '';'') then None else do {
       rest \<leftarrow> get_from input (offset + 4);
       rel \<leftarrow> position (\<lambda>b. b = CHR ''t'') rest;
       bs \<leftarrow> get_range input (offset + 4) (offset + 4 + rel);
       body \<leftarrow> from_utf8 bs;
       (a, b) \<leftarrow> split_once (CHR '';'') body;
       if a = [] \<or> b = [] \<or> CHR '';'' \<in> set b then None
       else map_option (\<lambda>(v, w). (v, w, offset + 4 + rel + 1)) (nonzero_pair a b)
     }
   }"

lemma length_pair_text [simp]: "length (pair_text d a b) = length a + length b + 6"
  by (simp add: pair_text_def)

lemma parse_pair_at_text:
  assumes "pair_fields a b" "nonzero_pair a b = Some (v, w)"
  shows "parse_pair_at d (pre @ pair_text d a b @ post) (length pre) =
    Some (v, w, length pre + length (pair_text d a b))"
proof -
  let ?input = "pre @ pair_text d a b @ post"
  have "position (\<lambda>x. x = CHR ''t'') ((a @ '';'' @ b) @ CHR ''t'' # post) = Some (length (a @ '';'' @ b))"
    using assms(1) by (intro position_at_sep) (auto simp: pair_fields_def)
  moreover have "get_from ?input (length pre + 4) = Some ((a @ '';'' @ b) @ CHR ''t'' # post)"
    by (simp add: slice_simps pair_text_def)
  moreover have "get_range ?input (length pre + 4) (length pre + 4 + length (a @ '';'' @ b)) =
      Some (a @ '';'' @ b)"
    by (simp add: slice_simps pair_text_def)
  moreover have "get_range ?input (length pre) (length pre + 3) = Some [ESC, CHR ''['', d]"
    "get_at ?input (length pre + 3) = Some (CHR '';'')"
    by (simp_all add: slice_simps pair_text_def nth_append)
  moreover have "split_once (CHR '';'') (a @ '';'' @ b) = Some (a, b)"
    using assms(1) by (simp add: pair_fields_def split_once_append)
  ultimately show ?thesis
    using assms by (simp add: parse_pair_at_def pair_fields_def from_utf8_def)
qed

lemma parse_pair_at_Some:
  assumes "parse_pair_at d input offset = Some (v, w, e)"
  obtains pre a b post where "input = pre @ pair_text d a b @ post" "offset = length pre"
    "pair_fields a b" "nonzero_pair a b = Some (v, w)" "e = length pre + length (pair_text d a b)"
proof -
  obtain rest rel body a b where front: "get_range input offset (offset + 3) = Some [ESC, CHR ''['', d]"
      "get_at input (offset + 3) = Some (CHR '';'')"
    and rest: "get_from input (offset + 4) = Some rest"
      "position (\<lambda>b. b = CHR ''t'') rest = Some rel"
    and body: "get_range input (offset + 4) (offset + 4 + rel) = Some body" "utf8_valid body"
    and ab: "split_once (CHR '';'') body = Some (a, b)" "a \<noteq> []" "b \<noteq> []" "CHR '';'' \<notin> set b"
      "nonzero_pair a b = Some (v, w)" "e = offset + 4 + rel + 1"
    using assms
    by (auto simp: parse_pair_at_def from_utf8_def split: option.splits if_splits bind_splits)
  have rel: "rel < length rest" "rest ! rel = CHR ''t''" "\<forall>j<rel. rest ! j \<noteq> CHR ''t''"
    using rest(2) by (simp_all add: position_Some_iff)
  have body': "body = take rel rest" "length body = rel"
    using body(1) rest(1) rel(1) by (auto simp: slice_simps)
  then have no_t: "CHR ''t'' \<notin> set body"
    using rel(3) rel(1) by (auto simp: in_set_conv_nth)
  have "body = a @ '';'' @ b" "CHR '';'' \<notin> set a"
    using ab(1) by (simp_all add: split_once_Some_iff)
  then have fields: "pair_fields a b"
    using ab no_t body(2) by (auto simp: pair_fields_def)
  have "drop offset input = take 3 (drop offset input) @ drop (offset + 3) input"
    by (metis add.commute append_take_drop_id drop_drop)
  also have "take 3 (drop offset input) = [ESC, CHR ''['', d]"
    using front(1) by (simp add: slice_simps)
  also have "drop (offset + 3) input = CHR '';'' # drop (offset + 4) input"
    using front(2) by (simp add: slice_simps Cons_nth_drop_Suc [symmetric] eval_nat_numeral)
  also have "drop (offset + 4) input = rest"
    using rest(1) by (simp add: slice_simps)
  also have "rest = body @ CHR ''t'' # drop (Suc rel) rest"
    using rel(1,2) body' by (metis id_take_nth_drop)
  finally have cut: "drop offset input = pair_text d a b @ drop (Suc rel) rest"
    using \<open>body = a @ '';'' @ b\<close> by (simp add: pair_text_def)
  have "offset \<le> length input"
    using front(1) by (simp add: slice_simps)
  then have "offset = length (take offset input)"
    by simp
  moreover have "input = take offset input @ pair_text d a b @ drop (Suc rel) rest"
    using cut by (metis append_take_drop_id)
  moreover have "e = offset + length (pair_text d a b)"
    using ab(6) body'(2) \<open>body = a @ '';'' @ b\<close> by simp
  ultimately show ?thesis
    using that fields ab(5) by metis
qed

lemma parse_pair_at_extend:
  "parse_pair_at d input offset = Some p \<Longrightarrow> parse_pair_at d (input @ ys) offset = Some p"
proof -
  assume "parse_pair_at d input offset = Some p"
  then obtain v w e where "parse_pair_at d input offset = Some (v, w, e)" and p: "p = (v, w, e)"
    by (cases p) auto
  then obtain pre a b post where "input = pre @ pair_text d a b @ post" "offset = length pre"
    "pair_fields a b" "nonzero_pair a b = Some (v, w)" "e = length pre + length (pair_text d a b)"
    by (elim parse_pair_at_Some)
  then show ?thesis
    using parse_pair_at_text [of a b v w d pre "post @ ys"] p by simp
qed

lemma parse_pair_at_None_no_t:
  "CHR ''t'' \<notin> set (drop (offset + 4) input) \<Longrightarrow> parse_pair_at d input offset = None"
  by (rule ccontr) (auto simp: pair_text_def elim!: parse_pair_at_Some)

lemma parse_pair_at_starts_ESC:
  "parse_pair_at d input offset = Some p \<Longrightarrow> offset < length input \<and> input ! offset = ESC"
  by (cases p) (auto simp: pair_text_def nth_append elim!: parse_pair_at_Some)

lemma parse_pair_at_pending:
  assumes none: "parse_pair_at d input offset = (None :: ('a::len word \<times> 'a word \<times> nat) option)"
    and extended: "parse_pair_at d (input @ ys) offset \<noteq> (None :: ('a word \<times> 'a word \<times> nat) option)"
    and "offset \<le> k"
  shows "parse_pair_at d' input k = None"
proof (rule parse_pair_at_None_no_t)
  obtain v w e where "parse_pair_at d (input @ ys) offset = Some (v :: 'a word, w, e)"
    using extended by fastforce
  then obtain pre a b post where *: "input @ ys = pre @ pair_text d a b @ post"
    "offset = length pre" "pair_fields a b" "nonzero_pair a b = Some (v, w)"
    by (rule parse_pair_at_Some)
  have short: "length input < length (pre @ pair_text d a b)"
  proof (rule ccontr)
    assume "\<not> length input < length (pre @ pair_text d a b)"
    moreover have "input @ ys = (pre @ pair_text d a b) @ post"
      using * by simp
    ultimately obtain post' where "input = (pre @ pair_text d a b) @ post'"
      using append_front by (metis not_less)
    then show False
      using none parse_pair_at_text [OF *(3,4), of d pre post'] * by simp
  qed
  let ?head = "pre @ [ESC, CHR ''['', d, CHR '';'']" and ?body = "a @ '';'' @ b"
  have "(?head @ ?body) @ CHR ''t'' # post = input @ ys"
    using * by (simp add: pair_text_def)
  moreover have "length input \<le> length (?head @ ?body)"
    using short by simp
  ultimately obtain zs where "?head @ ?body = input @ zs"
    by (rule append_front)
  then have "drop (length ?head) (input @ zs) = ?body"
    by (metis append_eq_conv_conj)
  moreover have "length ?head = length pre + 4"
    by simp
  ultimately have "drop (length pre + 4) input @ drop (length pre + 4 - length input) zs = ?body"
    by (simp only: drop_append)
  then have "set (drop (length pre + 4) input) \<subseteq> set ?body"
    by (metis Un_upper1 set_append)
  moreover have "CHR ''t'' \<notin> set ?body"
    using *(3) by (auto simp: pair_fields_def)
  moreover have "set (drop (k + 4) input) \<subseteq> set (drop (length pre + 4) input)"
    using assms(3) * by (simp add: set_drop_subset_set_drop)
  ultimately show "CHR ''t'' \<notin> set (drop (k + 4) input)"
    by blast
qed

text \<open>The bytes of a reply lie inside the input.\<close>

lemma raw_range:
  "get_from input (offset + 4) = Some rest \<Longrightarrow> position q rest = Some rel \<Longrightarrow>
     get_range input offset (5 + (offset + rel)) = Some (take (5 + rel) (drop offset input))"
  by (auto simp: slice_simps position_Some_iff)

lemma map_option_bind: "map_option f (Option.bind m g) = Option.bind m (\<lambda>x. map_option f (g x))"
  by (cases m) simp_all

lemma body_start_eq: "offset + 3 + 1 = offset + (4 :: nat)"
  by simp

lemma if_or_None: "(if b then None else if c then None else m) = (if b \<or> c then None else m)"
  by simp

lemma map_option_if:
  "map_option f (if b then None else m) = (if b then None else map_option f m)"
  by simp

section \<open>Window pixels\<close>

lemma parse_window_pixels_at_eq:
  "parse_window_pixels_at enc input offset =
     map_option (\<lambda>(h, w, e).
       \<lparr>pixels_offset = offset, pixels_end_offset = e, pixels_width = w, pixels_height = h,
        pixels_raw_base64 = enc (take (e - offset) (drop offset input))\<rparr>)
       (parse_pair_at (CHR ''4'') input offset)"
  unfolding parse_window_pixels_at_def parse_pair_at_def nonzero_pair_def Let_def body_start_eq
    if_or_None map_option_bind map_option_if case_prod_unfold
  by (intro Option.bind_cong if_cong refl) (simp add: raw_range map_option_bind map_option_if)

lemma parse_window_pixels_at_text:
  assumes "pair_fields a b" "nonzero_pair a b = Some (v, w)"
  shows "parse_window_pixels_at enc (pre @ pair_text (CHR ''4'') a b @ post) (length pre) = Some
     \<lparr>pixels_offset = length pre, pixels_end_offset = length pre + length (pair_text (CHR ''4'') a b),
        pixels_width = w, pixels_height = v, pixels_raw_base64 = enc (pair_text (CHR ''4'') a b)\<rparr>"
  using parse_pair_at_text [OF assms, of "CHR ''4''" pre post] by (simp add: parse_window_pixels_at_eq)

lemma parse_window_pixels_at_Some:
  assumes "parse_window_pixels_at enc input offset = Some r"
  obtains pre a b post v w where "input = pre @ pair_text (CHR ''4'') a b @ post"
    "offset = length pre" "pair_fields a b" "nonzero_pair a b = Some (v, w)"
    "r = \<lparr>pixels_offset = length pre, pixels_end_offset = length pre + length (pair_text (CHR ''4'') a b),
        pixels_width = w, pixels_height = v, pixels_raw_base64 = enc (pair_text (CHR ''4'') a b)\<rparr>"
proof -
  obtain v w e where "parse_pair_at (CHR ''4'') input offset = Some (v :: u32, w, e)"
    using assms by (auto simp: parse_window_pixels_at_eq)
  then obtain pre a b post where *: "input = pre @ pair_text (CHR ''4'') a b @ post"
    "offset = length pre" "pair_fields a b" "nonzero_pair a b = Some (v, w)"
    by (rule parse_pair_at_Some)
  then show ?thesis
    using that parse_window_pixels_at_text [OF *(3,4), of enc pre post] assms by simp
qed

lemma parse_window_pixels_at_offsets:
  assumes "parse_window_pixels_at enc input offset = Some r"
  shows "pixels_offset r = offset" "offset < pixels_end_offset r" "pixels_end_offset r \<le> length input"
  using assms by (auto elim!: parse_window_pixels_at_Some)

text \<open>The \<open>while\<close> loop of \<open>parse_window_pixels\<close> from an offset.\<close>

function parse_window_pixels_from :: "(bytes \<Rightarrow> string) \<Rightarrow> bytes \<Rightarrow> nat \<Rightarrow> window_pixels list" where
  "parse_window_pixels_from enc input offset =
     (if offset < length input then
        (case parse_window_pixels_at enc input offset of
           Some response \<Rightarrow>
             response # parse_window_pixels_from enc input (pixels_end_offset response)
         | None \<Rightarrow> parse_window_pixels_from enc input (offset + 1))
      else [])"
  by pat_completeness auto
termination
  by (relation "measure (\<lambda>(enc, input, offset). length input - offset)")
    (auto dest: parse_window_pixels_at_offsets)

declare parse_window_pixels_from.simps [simp del]

definition parse_window_pixels :: "(bytes \<Rightarrow> string) \<Rightarrow> bytes \<Rightarrow> window_pixels list" where
  "parse_window_pixels enc input = parse_window_pixels_from enc input 0"

definition pixels_step ::
  "(bytes \<Rightarrow> string) \<Rightarrow> bytes \<Rightarrow> nat \<Rightarrow> unit \<Rightarrow> (window_pixels \<times> nat) option" where
  "pixels_step enc input offset s =
     map_option (\<lambda>r. (r, pixels_end_offset r)) (parse_window_pixels_at enc input offset)"

lemma pixels_step_iff [simp]:
  "pixels_step enc input offset s = Some (r, nxt) \<longleftrightarrow>
     parse_window_pixels_at enc input offset = Some r \<and> nxt = pixels_end_offset r"
  "pixels_step enc input offset s = None \<longleftrightarrow> parse_window_pixels_at enc input offset = None"
  by (auto simp: pixels_step_def)

lemma parse_window_pixels_at_extend:
  "parse_window_pixels_at enc input offset = Some r \<Longrightarrow>
     parse_window_pixels_at enc (input @ ys) offset = Some r"
  using parse_window_pixels_at_text [of _ _ _ _ enc _ "_ @ ys"] by (auto elim!: parse_window_pixels_at_Some)

interpretation pixels_scan: stable_scanner "pixels_step enc" pixels_offset id
  "\<lambda>input offset s. parse_window_pixels_from enc input offset" for enc
proof unfold_locales
  fix input offset s ys p k t
  show "parse_window_pixels_from enc input offset =
      (if offset < length input then
         case pixels_step enc input offset s of
           None \<Rightarrow> parse_window_pixels_from enc input (Suc offset)
         | Some (r, nxt) \<Rightarrow> r # parse_window_pixels_from enc input nxt
       else [])"
    by (subst parse_window_pixels_from.simps) (simp add: pixels_step_def split: option.splits)
  show "pixels_step enc input offset s = Some p \<Longrightarrow> pixels_step enc (input @ ys) offset s = Some p"
    by (cases p) (simp add: parse_window_pixels_at_extend)
  show "pixels_step enc input offset s = None \<Longrightarrow> pixels_step enc (input @ ys) offset s \<noteq> None \<Longrightarrow>
      offset \<le> k \<Longrightarrow> pixels_step enc input k t = None"
    using parse_pair_at_pending [of "CHR ''4''" input offset ys k "CHR ''4''", where 'a = 32 and 'b = 32]
    by (simp add: parse_window_pixels_at_eq)
qed (auto dest: parse_window_pixels_at_offsets)

lemma parse_window_pixels_sound:
  "r \<in> set (parse_window_pixels enc input) \<Longrightarrow> parse_window_pixels_at enc input (pixels_offset r) = Some r"
  using pixels_scan.scan_sound [of r enc input 0] by (auto simp: parse_window_pixels_def)

lemma parse_window_pixels_disjoint:
  "sorted_wrt (\<lambda>a b. pixels_end_offset a \<le> pixels_offset b) (parse_window_pixels enc input)"
proof -
  have "sorted_wrt (\<lambda>a b. \<forall>x n. pixels_step enc input (pixels_offset a) () = Some (x, n) \<longrightarrow>
      n \<le> pixels_offset b) (parse_window_pixels enc input)"
    unfolding parse_window_pixels_def by (rule pixels_scan.scan_disjoint) simp
  then show ?thesis
    by (rule sorted_wrt_mono_rel [rotated]) (simp add: parse_window_pixels_sound)
qed

lemma parse_window_pixels_complete:
  "parse_window_pixels_at enc input k = Some q \<Longrightarrow>
     \<exists>r\<in>set (parse_window_pixels enc input). pixels_offset r \<le> k \<and> k < pixels_end_offset r"
  using pixels_scan.scan_complete [of enc input k "()" q "pixels_end_offset q" 0]
  by (auto simp: parse_window_pixels_def)

lemma parse_window_pixels_extend: "prefix (parse_window_pixels enc input) (parse_window_pixels enc (input @ ys))"
  using pixels_scan.scan_extend [of enc input 0 ys] by (simp add: parse_window_pixels_def)

lemma parse_window_pixels_nonzero:
  "r \<in> set (parse_window_pixels enc input) \<Longrightarrow> pixels_width r \<noteq> 0 \<and> pixels_height r \<noteq> 0"
  by (auto dest!: parse_window_pixels_sound elim!: parse_window_pixels_at_Some
      simp: nonzero_pair_def split: bind_splits if_splits)

section \<open>Window cells\<close>

lemma parse_window_cells_at_eq:
  "parse_window_cells_at enc input offset =
     map_option (\<lambda>(r, c, e).
       \<lparr>cells_offset = offset, cells_end_offset = e, cells_columns = c, cells_rows = r,
        cells_raw_base64 = enc (take (e - offset) (drop offset input))\<rparr>)
       (parse_pair_at (CHR ''8'') input offset)"
  unfolding parse_window_cells_at_def parse_pair_at_def nonzero_pair_def Let_def body_start_eq
    if_or_None map_option_bind map_option_if case_prod_unfold
  by (intro Option.bind_cong if_cong refl) (simp add: raw_range map_option_bind map_option_if)

lemma parse_window_cells_at_text:
  assumes "pair_fields a b" "nonzero_pair a b = Some (v, w)"
  shows "parse_window_cells_at enc (pre @ pair_text (CHR ''8'') a b @ post) (length pre) = Some
     \<lparr>cells_offset = length pre, cells_end_offset = length pre + length (pair_text (CHR ''8'') a b),
        cells_columns = w, cells_rows = v, cells_raw_base64 = enc (pair_text (CHR ''8'') a b)\<rparr>"
  using parse_pair_at_text [OF assms, of "CHR ''8''" pre post] by (simp add: parse_window_cells_at_eq)

lemma parse_window_cells_at_Some:
  assumes "parse_window_cells_at enc input offset = Some r"
  obtains pre a b post v w where "input = pre @ pair_text (CHR ''8'') a b @ post"
    "offset = length pre" "pair_fields a b" "nonzero_pair a b = Some (v, w)"
    "r = \<lparr>cells_offset = length pre, cells_end_offset = length pre + length (pair_text (CHR ''8'') a b),
        cells_columns = w, cells_rows = v, cells_raw_base64 = enc (pair_text (CHR ''8'') a b)\<rparr>"
proof -
  obtain v w e where "parse_pair_at (CHR ''8'') input offset = Some (v :: u16, w, e)"
    using assms by (auto simp: parse_window_cells_at_eq)
  then obtain pre a b post where *: "input = pre @ pair_text (CHR ''8'') a b @ post"
    "offset = length pre" "pair_fields a b" "nonzero_pair a b = Some (v, w)"
    by (rule parse_pair_at_Some)
  then show ?thesis
    using that parse_window_cells_at_text [OF *(3,4), of enc pre post] assms by simp
qed

lemma parse_window_cells_at_offsets:
  assumes "parse_window_cells_at enc input offset = Some r"
  shows "cells_offset r = offset" "offset < cells_end_offset r" "cells_end_offset r \<le> length input"
  using assms by (auto elim!: parse_window_cells_at_Some)

text \<open>The \<open>while\<close> loop of \<open>parse_window_cells\<close> from an offset.\<close>

function parse_window_cells_from :: "(bytes \<Rightarrow> string) \<Rightarrow> bytes \<Rightarrow> nat \<Rightarrow> window_cells list" where
  "parse_window_cells_from enc input offset =
     (if offset < length input then
        (case parse_window_cells_at enc input offset of
           Some response \<Rightarrow>
             response # parse_window_cells_from enc input (cells_end_offset response)
         | None \<Rightarrow> parse_window_cells_from enc input (offset + 1))
      else [])"
  by pat_completeness auto
termination
  by (relation "measure (\<lambda>(enc, input, offset). length input - offset)")
    (auto dest: parse_window_cells_at_offsets)

declare parse_window_cells_from.simps [simp del]

definition parse_window_cells :: "(bytes \<Rightarrow> string) \<Rightarrow> bytes \<Rightarrow> window_cells list" where
  "parse_window_cells enc input = parse_window_cells_from enc input 0"

definition cells_step ::
  "(bytes \<Rightarrow> string) \<Rightarrow> bytes \<Rightarrow> nat \<Rightarrow> unit \<Rightarrow> (window_cells \<times> nat) option" where
  "cells_step enc input offset s =
     map_option (\<lambda>r. (r, cells_end_offset r)) (parse_window_cells_at enc input offset)"

lemma cells_step_iff [simp]:
  "cells_step enc input offset s = Some (r, nxt) \<longleftrightarrow>
     parse_window_cells_at enc input offset = Some r \<and> nxt = cells_end_offset r"
  "cells_step enc input offset s = None \<longleftrightarrow> parse_window_cells_at enc input offset = None"
  by (auto simp: cells_step_def)

lemma parse_window_cells_at_extend:
  "parse_window_cells_at enc input offset = Some r \<Longrightarrow>
     parse_window_cells_at enc (input @ ys) offset = Some r"
  using parse_window_cells_at_text [of _ _ _ _ enc _ "_ @ ys"] by (auto elim!: parse_window_cells_at_Some)

interpretation cells_scan: stable_scanner "cells_step enc" cells_offset id
  "\<lambda>input offset s. parse_window_cells_from enc input offset" for enc
proof unfold_locales
  fix input offset s ys p k t
  show "parse_window_cells_from enc input offset =
      (if offset < length input then
         case cells_step enc input offset s of
           None \<Rightarrow> parse_window_cells_from enc input (Suc offset)
         | Some (r, nxt) \<Rightarrow> r # parse_window_cells_from enc input nxt
       else [])"
    by (subst parse_window_cells_from.simps) (simp add: cells_step_def split: option.splits)
  show "cells_step enc input offset s = Some p \<Longrightarrow> cells_step enc (input @ ys) offset s = Some p"
    by (cases p) (simp add: parse_window_cells_at_extend)
  show "cells_step enc input offset s = None \<Longrightarrow> cells_step enc (input @ ys) offset s \<noteq> None \<Longrightarrow>
      offset \<le> k \<Longrightarrow> cells_step enc input k t = None"
    using parse_pair_at_pending [of "CHR ''8''" input offset ys k "CHR ''8''", where 'a = 16 and 'b = 16]
    by (simp add: parse_window_cells_at_eq)
qed (auto dest: parse_window_cells_at_offsets)

lemma parse_window_cells_sound:
  "r \<in> set (parse_window_cells enc input) \<Longrightarrow> parse_window_cells_at enc input (cells_offset r) = Some r"
  using cells_scan.scan_sound [of r enc input 0] by (auto simp: parse_window_cells_def)

lemma parse_window_cells_disjoint:
  "sorted_wrt (\<lambda>a b. cells_end_offset a \<le> cells_offset b) (parse_window_cells enc input)"
proof -
  have "sorted_wrt (\<lambda>a b. \<forall>x n. cells_step enc input (cells_offset a) () = Some (x, n) \<longrightarrow>
      n \<le> cells_offset b) (parse_window_cells enc input)"
    unfolding parse_window_cells_def by (rule cells_scan.scan_disjoint) simp
  then show ?thesis
    by (rule sorted_wrt_mono_rel [rotated]) (simp add: parse_window_cells_sound)
qed

lemma parse_window_cells_complete:
  "parse_window_cells_at enc input k = Some q \<Longrightarrow>
     \<exists>r\<in>set (parse_window_cells enc input). cells_offset r \<le> k \<and> k < cells_end_offset r"
  using cells_scan.scan_complete [of enc input k "()" q "cells_end_offset q" 0]
  by (auto simp: parse_window_cells_def)

lemma parse_window_cells_extend: "prefix (parse_window_cells enc input) (parse_window_cells enc (input @ ys))"
  using cells_scan.scan_extend [of enc input 0 ys] by (simp add: parse_window_cells_def)

lemma parse_window_cells_nonzero:
  "r \<in> set (parse_window_cells enc input) \<Longrightarrow> cells_columns r \<noteq> 0 \<and> cells_rows r \<noteq> 0"
  by (auto dest!: parse_window_cells_sound elim!: parse_window_cells_at_Some
      simp: nonzero_pair_def split: bind_splits if_splits)

section \<open>Rendering\<close>

lemma dec_fields: "pair_fields (dec_string m) (dec_string n)"
proof -
  have "list_all ascii_byte (dec_string m @ '';'' @ dec_string n)"
    by (auto simp: list_all_iff ascii_byte_def is_digit_def less_eq_char_def
        dest!: dec_string_digits)
  then show ?thesis
    by (simp add: pair_fields_def dec_string_no_syntax utf8_valid_ascii)
qed

lemma nonzero_dec:
  "v \<noteq> 0 \<Longrightarrow> w \<noteq> 0 \<Longrightarrow>
     nonzero_pair (dec_string (unat v)) (dec_string (unat w)) = Some (v, w)"
  by (simp add: nonzero_pair_def)

definition pixels_reply :: "u32 \<Rightarrow> u32 \<Rightarrow> bytes" where
  "pixels_reply height width =
     pair_text (CHR ''4'') (dec_string (unat height)) (dec_string (unat width))"

definition cells_reply :: "u16 \<Rightarrow> u16 \<Rightarrow> bytes" where
  "cells_reply rows columns =
     pair_text (CHR ''8'') (dec_string (unat rows)) (dec_string (unat columns))"

lemma reply_ESC:
  assumes "i < length (pair_text d (dec_string m) (dec_string n))"
    and "pair_text d (dec_string m) (dec_string n) ! i = ESC" "d \<noteq> ESC"
  shows "i = 0"
proof (cases i)
  case (Suc j)
  let ?rest = "[CHR ''['', d, CHR '';''] @ dec_string m @ '';'' @ dec_string n @ ''t''"
  have "pair_text d (dec_string m) (dec_string n) = ESC # ?rest"
    by (simp add: pair_text_def)
  then have "ESC \<in> set ?rest"
    using assms(1,2) Suc by (metis Suc_less_eq length_Cons nth_Cons_Suc nth_mem)
  then show ?thesis
    using assms(3) dec_string_no_syntax [of ESC] by auto
qed simp

lemma parse_pair_at_marks:
  "parse_pair_at d input offset = Some p \<Longrightarrow>
     input ! offset = ESC \<and> input ! (offset + 2) = d \<and> offset + 2 < length input"
  by (cases p) (auto simp: pair_text_def nth_append elim!: parse_pair_at_Some)

lemma parse_pair_at_other:
  assumes "length pre \<le> i" "i < length (pre @ pair_text d (dec_string m) (dec_string n))"
    and "d \<noteq> d'" "d \<noteq> ESC"
  shows "parse_pair_at d' (pre @ pair_text d (dec_string m) (dec_string n) @ post) i =
    (None :: ('a::len word \<times> 'a word \<times> nat) option)"
proof (rule ccontr)
  let ?reply = "pair_text d (dec_string m) (dec_string n)"
  assume "parse_pair_at d' (pre @ ?reply @ post) i \<noteq>
    (None :: ('a word \<times> 'a word \<times> nat) option)"
  then obtain p :: "'a word \<times> 'a word \<times> nat"
    where "parse_pair_at d' (pre @ ?reply @ post) i = Some p"
    by blast
  note marks = parse_pair_at_marks [OF this]
  obtain j where j: "i = length pre + j"
    using assms(1) le_Suc_ex by blast
  then have lt: "j < length ?reply"
    using assms(2) by simp
  then have "?reply ! j = ESC"
    using marks j by (simp add: nth_append)
  then have "j = 0"
    using lt assms(4) by (intro reply_ESC [of _ d m n])
  then show False
    using marks j assms(3) by (simp add: nth_append pair_text_def)
qed

section \<open>Properties\<close>

text \<open>A window-area report parses at an offset exactly when the input holds there
  \<open>ESC [ 4 ; height ; width t\<close> with two nonzero 32-bit numbers, and the result has the exact
  offsets and bytes.  The first field is the height.\<close>

theorem window_pixels_exact:
  "parse_window_pixels_at enc input offset = Some r \<longleftrightarrow>
     (\<exists>pre a b post h w. input = pre @ pair_text (CHR ''4'') a b @ post \<and> offset = length pre \<and>
        pair_fields a b \<and> parse_word a = Some h \<and> parse_word b = Some w \<and> h \<noteq> 0 \<and> w \<noteq> 0 \<and>
        r = \<lparr>pixels_offset = length pre,
             pixels_end_offset = length pre + length (pair_text (CHR ''4'') a b),
             pixels_width = w, pixels_height = h,
             pixels_raw_base64 = enc (pair_text (CHR ''4'') a b)\<rparr>)"
  (is "?lhs \<longleftrightarrow> ?rhs")
proof
  assume ?lhs
  then obtain pre a b post v w where *: "input = pre @ pair_text (CHR ''4'') a b @ post"
    "offset = length pre" "pair_fields a b" "nonzero_pair a b = Some (v, w)"
    "r = \<lparr>pixels_offset = length pre,
          pixels_end_offset = length pre + length (pair_text (CHR ''4'') a b),
          pixels_width = w, pixels_height = v,
          pixels_raw_base64 = enc (pair_text (CHR ''4'') a b)\<rparr>"
    by (rule parse_window_pixels_at_Some)
  moreover have "parse_word a = Some v" "parse_word b = Some w" "v \<noteq> 0" "w \<noteq> 0"
    using *(4) by (auto simp: nonzero_pair_def split: bind_splits if_splits)
  ultimately show ?rhs by blast
next
  assume ?rhs
  then show ?lhs
    by (auto simp: nonzero_pair_def parse_window_pixels_at_text simp del: length_pair_text)
qed

text \<open>The loop for cell reports misses none and reports none twice; its results are nonzero
  and bytes that arrive later only append to them.\<close>

theorem window_cells_scan:
  "list_all (\<lambda>r. parse_window_cells_at enc input (cells_offset r) = Some r \<and>
       cells_columns r \<noteq> 0 \<and> cells_rows r \<noteq> 0) (parse_window_cells enc input)
   \<and> sorted_wrt (\<lambda>a b. cells_end_offset a \<le> cells_offset b) (parse_window_cells enc input)
   \<and> (parse_window_cells_at enc input k = Some q \<longrightarrow>
        (\<exists>r\<in>set (parse_window_cells enc input). cells_offset r \<le> k \<and> k < cells_end_offset r))
   \<and> prefix (parse_window_cells enc input) (parse_window_cells enc (input @ ys))"
  using parse_window_cells_complete parse_window_cells_nonzero
  by (auto simp: list_all_iff parse_window_cells_sound parse_window_cells_disjoint
      parse_window_cells_extend)

theorem window_cells_scan_witness:
  "\<exists>r\<in>set (parse_window_cells std_encode (''ab'' @ cells_reply 24 80)). cells_offset r \<le> 2"
proof -
  have "\<exists>q. parse_window_cells_at std_encode (''ab'' @ cells_reply 24 80 @ []) (length ''ab'')
      = Some q"
    unfolding cells_reply_def
    by (rule exI, rule parse_window_cells_at_text [OF dec_fields nonzero_dec]) simp_all
  then obtain q where
    "parse_window_cells_at std_encode (''ab'' @ cells_reply 24 80) (length ''ab'') = Some q"
    by auto
  with window_cells_scan [of std_encode "''ab'' @ cells_reply 24 80" "length ''ab''" q]
  obtain r where "r \<in> set (parse_window_cells std_encode (''ab'' @ cells_reply 24 80))"
    "cells_offset r \<le> length ''ab''"
    by blast
  then show ?thesis by (intro bexI [of _ r]) auto
qed

text \<open>The replies to the paired geometry inquiry, received one after the other, give exactly
  the reported pixels and the reported cells, whichever numbers were reported.\<close>

theorem geometry_roundtrip:
  assumes "height \<noteq> 0" "width \<noteq> 0" "rows \<noteq> 0" "columns \<noteq> 0"
  shows "map (\<lambda>p. (pixels_width p, pixels_height p))
      (parse_window_pixels enc (pixels_reply height width @ cells_reply rows columns))
      = [(width, height)]
    \<and> map (\<lambda>p. (cells_columns p, cells_rows p))
      (parse_window_cells enc (pixels_reply height width @ cells_reply rows columns))
      = [(columns, rows)]"
proof
  let ?p = "pixels_reply height width" and ?c = "cells_reply rows columns"
  let ?input = "?p @ ?c"
  let ?pr = "\<lparr>pixels_offset = 0, pixels_end_offset = length ?p, pixels_width = width,
       pixels_height = height, pixels_raw_base64 = enc ?p\<rparr>"
  let ?cr = "\<lparr>cells_offset = length ?p, cells_end_offset = length ?input, cells_columns = columns,
       cells_rows = rows, cells_raw_base64 = enc ?c\<rparr>"
  have "parse_window_pixels_at enc ([] @ ?p @ ?c) (length []) = Some ?pr"
    using parse_window_pixels_at_text [OF dec_fields nonzero_dec [OF assms(1,2)], of enc "[]" ?c]
    by (simp add: pixels_reply_def)
  then have "pixels_step enc ?input 0 () = Some (?pr, length ?p)"
    by simp
  note p = pixels_scan.scan_hit [OF this]
  have "parse_window_pixels_from enc ?input (length ?p) =
      parse_window_pixels_from enc ?input (length ?input)"
    using parse_pair_at_other [of ?p _ "CHR ''8''" _ _ "CHR ''4''" "[]"]
    by (intro pixels_scan.scan_skip) (auto simp: cells_reply_def parse_window_pixels_at_eq)
  then show "map (\<lambda>p. (pixels_width p, pixels_height p)) (parse_window_pixels enc ?input)
      = [(width, height)]"
    using p by (simp add: parse_window_pixels_def pixels_scan.scan_end)
  have "parse_window_cells_at enc (?p @ ?c @ []) (length ?p) = Some ?cr"
    using parse_window_cells_at_text [OF dec_fields nonzero_dec [OF assms(3,4)], of enc ?p "[]"]
    by (simp add: cells_reply_def)
  then have "cells_step enc ?input (length ?p) () = Some (?cr, length ?input)"
    by simp
  note c = cells_scan.scan_hit [OF this]
  have "parse_window_cells_from enc ?input 0 = parse_window_cells_from enc ?input (length ?p)"
    using parse_pair_at_other [of "[]" _ "CHR ''4''" _ _ "CHR ''8''" ?c]
    by (intro cells_scan.scan_skip) (auto simp: pixels_reply_def parse_window_cells_at_eq)
  then show "map (\<lambda>p. (cells_columns p, cells_rows p)) (parse_window_cells enc ?input)
      = [(columns, rows)]"
    using c by (simp add: parse_window_cells_def cells_scan.scan_end)
qed

theorem geometry_roundtrip_witness:
  "map (\<lambda>p. (pixels_width p, pixels_height p))
     (parse_window_pixels std_encode (pixels_reply 600 800 @ cells_reply 24 80)) = [(800, 600)]"
  using geometry_roundtrip [of 600 800 24 80 std_encode] by simp

end
