(* ===== verification/Tmux_Transport.thy ===== *)
theory Tmux_Transport
  imports Core_Contracts
begin

text \<open>
  Crate \<open>terminal-interop-tmux\<close>: the DCS passthrough frame and the readiness query.  tmux reads
  the frame as \<open>unwrap_passthrough\<close> does: it undoubles ESC bytes and ends at the first ESC that
  is followed by a backslash.  The crate version, set by the build, is the argument \<open>ver\<close>.
\<close>

definition tmux_adapter_identity :: "string \<Rightarrow> adapter_identity" where
  "tmux_adapter_identity ver =
     \<lparr>adapter_name = ''tmux-dcs-passthrough'', adapter_version = ver\<rparr>"

text \<open>The \<open>for\<close> loop over the payload.\<close>

fun double_escapes :: "bytes \<Rightarrow> bytes" where
  "double_escapes [] = []"
| "double_escapes (b # bs) = (if b = ESC then [ESC] else []) @ b # double_escapes bs"

definition wrap_passthrough :: "bytes \<Rightarrow> bytes" where
  "wrap_passthrough payload = (ESC # ''Ptmux;'') @ double_escapes payload @ ST"

definition build_readiness_query :: bytes where
  "build_readiness_query = wrap_passthrough (ESC # ''[c'')"

section \<open>The receiving side\<close>

text \<open>The payload of a frame and the bytes after it; nothing when an ESC is neither doubled nor
  starts the terminator.\<close>

fun undouble :: "bytes \<Rightarrow> (bytes \<times> bytes) option" where
  "undouble [] = None"
| "undouble [b] = None"
| "undouble (b # c # bs) =
     (if b \<noteq> ESC then map_option (\<lambda>(p, r). (b # p, r)) (undouble (c # bs))
      else if c = ESC then map_option (\<lambda>(p, r). (ESC # p, r)) (undouble bs)
      else if c = CHR 0x5C then Some ([], bs)
      else None)"

definition unwrap_passthrough :: "bytes \<Rightarrow> (bytes \<times> bytes) option" where
  "unwrap_passthrough bs = Option.bind (strip_prefix (ESC # ''Ptmux;'') bs) undouble"

lemma undouble_double: "undouble (double_escapes p @ ST @ rest) = Some (p, rest)"
proof (induction p)
  case Nil
  then show ?case by (simp add: ST_def)
next
  case (Cons b p)
  then show ?case
    by (cases "double_escapes p @ ST @ rest") (auto simp: ST_def)
qed

lemma undouble_Some:
  "undouble bs = Some (p, rest) \<Longrightarrow> bs = double_escapes p @ ST @ rest"
  by (induction bs arbitrary: p rest rule: undouble.induct) (auto simp: ST_def split: if_splits)

lemma length_double_escapes: "length (double_escapes p) = length p + count_list p ESC"
  by (induction p) auto

section \<open>Properties\<close>

text \<open>A passthrough frame carries its payload exactly: the receiver recovers the payload and
  the bytes after the frame, and whatever frame it accepts is the wrapping of what it recovers.\<close>

theorem passthrough_roundtrip:
  "unwrap_passthrough bs = Some (payload, rest) \<longleftrightarrow> bs = wrap_passthrough payload @ rest"
proof
  assume "unwrap_passthrough bs = Some (payload, rest)"
  then show "bs = wrap_passthrough payload @ rest"
    by (auto simp: unwrap_passthrough_def wrap_passthrough_def strip_prefix_Some_iff
        dest!: undouble_Some split: bind_splits)
next
  assume "bs = wrap_passthrough payload @ rest"
  then show "unwrap_passthrough bs = Some (payload, rest)"
    using undouble_double [of payload rest] strip_prefix_append [of "ESC # ''Ptmux;''"]
    by (simp add: unwrap_passthrough_def wrap_passthrough_def)
qed

text \<open>The frame adds nine bytes and one for each ESC of the payload, never less than the
  capacity the code reserves, and the readiness query is the wrapped DA1 query.\<close>

theorem passthrough_length:
  "length (wrap_passthrough payload) = length payload + count_list payload ESC + 9
   \<and> build_readiness_query =
      [ESC] @ ''Ptmux;'' @ [ESC, ESC] @ ''[c'' @ [ESC, CHR 0x5C]"
  by (simp add: wrap_passthrough_def length_double_escapes build_readiness_query_def ST_def)

end
