(* ===== verification/Probe_Contract.thy ===== *)
theory Probe_Contract
  imports Core_Contracts
begin

text \<open>
  The contract between the probe adapters and the receipts built from their results.  An adapter
  reads the received bytes into events; it promises that events are numbered by position and
  that each event carries the encoding of a piece of the received bytes.  From the two laws every
  exchange built with the adapter's events passes the structural validation of the core crate.
\<close>

locale probe_adapter =
  fixes enc :: "bytes \<Rightarrow> string" and observe :: "bytes \<Rightarrow> wire_event list"
  assumes numbered: "events_canonical 0 (observe response)"
    and quoted: "e \<in> set (observe response) \<Longrightarrow>
      \<exists>i j raw. get_range response i j = Some raw \<and> event_raw_base64 e = enc raw"
begin

lemma exchange_well_formed:
  assumes "\<And>bs. dec (enc bs) = Some bs"
    and "logical_request_base64 ex = enc logical" "wire_request_base64 ex = enc wire"
    and "response_base64 ex = enc response" "exchange_events ex = observe response"
  shows "exchange_well_formed dec ex"
proof -
  have "dec (event_raw_base64 e) \<noteq> None" if "e \<in> set (observe response)" for e
    using quoted [OF that] assms(1) by auto
  with assms numbered show ?thesis
    by (simp add: exchange_well_formed_def)
qed

text \<open>Decoding an event of a received exchange gives bytes that were received.\<close>

lemma event_decodes:
  assumes "\<And>bs. dec (enc bs) = Some bs" "e \<in> set (observe response)"
  shows "\<exists>raw. dec (event_raw_base64 e) = Some raw \<and> sublist raw response"
proof -
  obtain i j raw where raw: "get_range response i j = Some raw" "event_raw_base64 e = enc raw"
    using quoted [OF assms(2)] by blast
  then have "raw = take (j - i) (drop i response)"
    by (simp add: slice_simps)
  then have "sublist raw response"
    unfolding sublist_def by (metis append_take_drop_id)
  with raw assms(1) show ?thesis by auto
qed

end

end
