(* ===== verification/Kgp_Adapter.thy ===== *)
theory Kgp_Adapter
  imports Da1_Attributes Probe_Contract
begin

text \<open>
  Crate \<open>terminal-interop-kgp\<close>: the Kitty Graphics Protocol query with its DA1 barrier, the PNG
  transmission and deletion commands, the parser of the reply stream and the assessment of a
  query.  \<open>enc\<close> is the Base64 encoder and \<open>ver\<close> the crate version.
\<close>

section \<open>Commands\<close>

datatype probe_build_error = ZeroCorrelationId

datatype display_build_error = EmptyPayload | ZeroPlacement | ZeroImageNumber

record png_display_options =
  image_number :: u32
  display_columns :: u16
  display_rows :: u16

definition kgp_protocol_id :: protocol_id where
  "kgp_protocol_id =
     \<lparr>protocol_namespace = ''org.kitty'', protocol_name = ''terminal-graphics-protocol'',
      protocol_revision = ''query-direct-rgb-v1''\<rparr>"

definition kgp_capability_id :: capability_id where
  "kgp_capability_id =
     \<lparr>capability_protocol = kgp_protocol_id, capability_name = ''direct-rgb-query''\<rparr>"

definition kgp_adapter_identity :: "string \<Rightarrow> adapter_identity" where
  "kgp_adapter_identity ver =
     \<lparr>adapter_name = ''terminal-interop-kgp'', adapter_version = ver\<rparr>"

definition kgp_build_query :: "u32 \<Rightarrow> probe_build_error + bytes" where
  "kgp_build_query correlation_id =
     (if correlation_id = 0 then Inl ZeroCorrelationId
      else Inr ((ESC # ''_Gi='' @ dec_string (unat correlation_id)
        @ '',s=1,v=1,a=q,t=d,f=24;AAAA'' @ ST) @ (ESC # ''[c'')))"

text \<open>The control text of the chunk with a given index, and the \<open>for\<close> loop over the chunks.\<close>

definition png_chunk_prefix :: "png_display_options \<Rightarrow> nat \<Rightarrow> nat \<Rightarrow> bytes" where
  "png_chunk_prefix options index more_chunks =
     (if index = 0 then
        ESC # ''_Ga=T,f=100,I='' @ dec_string (unat (image_number options))
          @ '',c='' @ dec_string (unat (display_columns options))
          @ '',r='' @ dec_string (unat (display_rows options))
          @ '',C=1,N=1,q=2,m='' @ dec_string more_chunks @ '';''
      else ESC # ''_Gm='' @ dec_string more_chunks @ '',q=2;'')"

fun png_chunks :: "png_display_options \<Rightarrow> nat \<Rightarrow> nat \<Rightarrow> bytes list \<Rightarrow> bytes" where
  "png_chunks options count index [] = []"
| "png_chunks options count index (chunk # rest) =
     (let more_chunks = of_bool (index + 1 < count) in
      png_chunk_prefix options index more_chunks @ chunk @ ST
        @ png_chunks options count (index + 1) rest)"

definition encode_png_display ::
  "(bytes \<Rightarrow> string) \<Rightarrow> bytes \<Rightarrow> png_display_options \<Rightarrow> display_build_error + bytes" where
  "encode_png_display enc png options =
     (if png = [] then Inl EmptyPayload
      else if display_columns options = 0 \<or> display_rows options = 0 then Inl ZeroPlacement
      else if image_number options = 0 then Inl ZeroImageNumber
      else let cs = chunks 4096 (enc png) in
        Inr (png_chunks options (length cs) 0 cs))"

definition delete_image_number :: "u32 \<Rightarrow> bytes" where
  "delete_image_number n = ESC # ''_Ga=d,d=N,I='' @ dec_string (unat n) @ '',q=2'' @ ST"

section \<open>The reply stream\<close>

record observed_event =
  observed_offset :: nat
  observed_wire :: wire_event

text \<open>\<open>windows(2).position(|w| w == ST)\<close>.\<close>

fun windows_position :: "bytes \<Rightarrow> nat option" where
  "windows_position [] = None"
| "windows_position [b] = None"
| "windows_position (b # c # bs) =
     (if [b, c] = ST then Some 0 else map_option Suc (windows_position (c # bs)))"

definition find_st :: "bytes \<Rightarrow> nat \<Rightarrow> nat option" where
  "find_st input start =
     Option.bind (get_from input start) (\<lambda>rest. map_option ((+) start) (windows_position rest))"

text \<open>Collecting into the ordered map inserts from left to right, so a later key wins.\<close>

definition control_field :: "string \<Rightarrow> (string \<times> string) option" where
  "control_field field =
     (case split_once (CHR ''='') field of
        None \<Rightarrow> None
      | Some (key, val) \<Rightarrow> if key = [] then None else Some (key, val))"

definition parse_control_fields :: "bytes \<Rightarrow> string \<rightharpoonup> string" where
  "parse_control_fields control =
     foldl (\<lambda>m (key, val). m(key \<mapsto> val)) Map.empty
       (List.map_filter control_field (split_on (CHR '','') (from_utf8_lossy control)))"

definition split_status :: "bytes \<Rightarrow> bytes \<times> string option" where
  "split_status body =
     (case position (\<lambda>b. b = CHR '';'') body of
        None \<Rightarrow> (body, None)
      | Some separator \<Rightarrow>
          (take separator body, Some (from_utf8_lossy (drop (separator + 1) body))))"

definition parse_apc_event ::
  "(bytes \<Rightarrow> string) \<Rightarrow> bytes \<Rightarrow> nat \<Rightarrow> u32 \<Rightarrow> (observed_event \<times> nat) option" where
  "parse_apc_event enc input offset seq =
     (let prefix_end = offset + 3 in
      case get_range input offset prefix_end of
        None \<Rightarrow> None
      | Some pre \<Rightarrow>
          if pre \<noteq> ESC # ''_G'' then None
          else case find_st input prefix_end of
            None \<Rightarrow> None
          | Some endpos \<Rightarrow>
              (case get_range input prefix_end endpos of
                 None \<Rightarrow> None
               | Some body \<Rightarrow>
                   (let (control, status) = split_status body;
                        fields = parse_control_fields control;
                        correlation_id =
                          (Option.bind (fields ''i'') parse_word :: u32 option);
                        raw_end = endpos + length ST
                    in case get_range input offset raw_end of
                         None \<Rightarrow> None
                       | Some raw \<Rightarrow> Some
                           (\<lparr>observed_offset = offset,
                             observed_wire =
                               \<lparr>event_sequence = seq, event_role = CapabilityReply,
                                event_protocol = Some kgp_protocol_id,
                                event_correlation =
                                  map_option (\<lambda>v. dec_string (unat v)) correlation_id,
                                event_status = status, event_fields = fields,
                                event_raw_base64 = enc raw\<rparr>\<rparr>, raw_end))))"

definition parse_da1_event ::
  "(bytes \<Rightarrow> string) \<Rightarrow> bytes \<Rightarrow> nat \<Rightarrow> u32 \<Rightarrow> (observed_event \<times> nat) option" where
  "parse_da1_event enc input offset seq =
     (case parse_response_at enc input offset of
        None \<Rightarrow> None
      | Some response \<Rightarrow> Some
          (\<lparr>observed_offset = offset,
            observed_wire = da1_wire_event response seq BarrierReply\<rparr>, da1_end_offset response))"

section \<open>Assessment\<close>

definition kgp_assertion :: "string \<Rightarrow> assertion_outcome \<Rightarrow> string \<Rightarrow> assertion_result" where
  "kgp_assertion ident out det =
     \<lparr>assertion_id = ident, assertion_outcome = out, assertion_detail = det\<rparr>"

definition assess_matching_reply ::
  "observed_event \<Rightarrow> observed_event option \<Rightarrow> u32 \<Rightarrow> assessment" where
  "assess_matching_reply reply barrier correlation_id =
     (let status_ok = (event_status (observed_wire reply) = Some ''OK'');
          ordered = (case barrier of None \<Rightarrow> True
            | Some b \<Rightarrow> observed_offset reply < observed_offset b);
          barrier_outcome = (if barrier \<noteq> None then Pass else OutcomeUnknown);
          assertions =
            [kgp_assertion ''kgp.query.correlated-reply'' Pass
               (''received reply for image id '' @ dec_string (unat correlation_id)),
             kgp_assertion ''kgp.query.reply-before-da1-barrier''
               (if barrier = None then OutcomeUnknown else if ordered then Pass else Fail)
               (if barrier = None then ''DA1 barrier was not observed''
                else if ordered then ''KGP reply preceded the DA1 barrier''
                else ''KGP reply arrived after the DA1 barrier''),
             kgp_assertion ''kgp.query.direct-rgb-load''
               (if status_ok then Pass else Fail)
               (case event_status (observed_wire reply) of
                  None \<Rightarrow> ''KGP reply did not contain a status''
                | Some status \<Rightarrow> ''KGP status was '' @ status),
             kgp_assertion ''kgp.query.da1-barrier'' barrier_outcome
               (if barrier \<noteq> None then ''DA1 barrier reply was observed''
                else ''DA1 barrier reply was not observed'')];
          conf = (if barrier = None then Inconclusive
            else if status_ok \<and> ordered then Conformant else Nonconformant)
      in \<lparr>assessed_availability = Available, assessed_conformance = conf,
          assessed_assertions = assertions\<rparr>)"

text \<open>The \<open>{:?}\<close> rendering of the correlation of an event, which the parser builds from decimal
  digits, so that nothing in it is escaped.\<close>

definition debug_correlation :: "string option \<Rightarrow> string" where
  "debug_correlation c =
     (case c of None \<Rightarrow> ''None'' | Some s \<Rightarrow> ''Some('' @ [CHR 0x22] @ s @ [CHR 0x22] @ '')'')"

definition assess_unmatched_reply ::
  "observed_event \<Rightarrow> observed_event option \<Rightarrow> u32 \<Rightarrow> assessment" where
  "assess_unmatched_reply unmatched barrier correlation_id =
     \<lparr>assessed_availability = Available, assessed_conformance = Nonconformant,
      assessed_assertions =
        [kgp_assertion ''kgp.query.correlated-reply'' Fail
           (''received KGP reply for '' @ debug_correlation (event_correlation (observed_wire unmatched))
              @ '', expected '' @ dec_string (unat correlation_id)),
         kgp_assertion ''kgp.query.da1-barrier''
           (if barrier \<noteq> None then Pass else OutcomeUnknown)
           ''barrier state retained independently of the malformed correlation'']\<rparr>"

definition assess_unavailable :: assessment where
  "assess_unavailable =
     \<lparr>assessed_availability = Unavailable, assessed_conformance = ConformanceNotApplicable,
      assessed_assertions =
        [kgp_assertion ''kgp.query.correlated-reply'' OutcomeNotApplicable
           ''DA1 barrier arrived without a KGP reply'',
         kgp_assertion ''kgp.query.da1-barrier'' Pass
           ''DA1 barrier established the end of the ordered query window'']\<rparr>"

definition assess_unknown :: assessment where
  "assess_unknown =
     \<lparr>assessed_availability = AvailabilityUnknown, assessed_conformance = Inconclusive,
      assessed_assertions =
        [kgp_assertion ''kgp.query.correlated-reply'' OutcomeUnknown
           ''no correlated KGP reply was observed'',
         kgp_assertion ''kgp.query.da1-barrier'' OutcomeUnknown
           ''no DA1 barrier reply was observed'']\<rparr>"

definition is_capability_reply :: "observed_event \<Rightarrow> bool" where
  "is_capability_reply e \<longleftrightarrow> event_role (observed_wire e) = CapabilityReply"

definition is_barrier_reply :: "observed_event \<Rightarrow> bool" where
  "is_barrier_reply e \<longleftrightarrow> event_role (observed_wire e) = BarrierReply"

definition correlates :: "u32 \<Rightarrow> observed_event \<Rightarrow> bool" where
  "correlates correlation_id e \<longleftrightarrow>
     event_correlation (observed_wire e) = Some (dec_string (unat correlation_id))"

definition kgp_assess :: "observed_event list \<Rightarrow> u32 \<Rightarrow> assessment" where
  "kgp_assess events correlation_id =
     (let kgp_events = filter is_capability_reply events;
          matching = find (correlates correlation_id) kgp_events;
          barrier = find is_barrier_reply events
      in case matching of
           Some reply \<Rightarrow> assess_matching_reply reply barrier correlation_id
         | None \<Rightarrow>
             (case kgp_events of
                unmatched # _ \<Rightarrow> assess_unmatched_reply unmatched barrier correlation_id
              | [] \<Rightarrow> if barrier \<noteq> None then assess_unavailable else assess_unknown))"

section \<open>What a reply is\<close>

text \<open>The text of a graphics command, and the event that the parser makes of it.\<close>

definition apc_text :: "bytes \<Rightarrow> bytes" where
  "apc_text body = ESC # ''_G'' @ body @ ST"

definition apc_event :: "(bytes \<Rightarrow> string) \<Rightarrow> u32 \<Rightarrow> bytes \<Rightarrow> wire_event" where
  "apc_event enc seq body =
     \<lparr>event_sequence = seq, event_role = CapabilityReply,
      event_protocol = Some kgp_protocol_id,
      event_correlation = map_option (\<lambda>v :: u32. dec_string (unat v))
        (Option.bind (parse_control_fields (fst (split_status body)) ''i'') parse_word),
      event_status = snd (split_status body),
      event_fields = parse_control_fields (fst (split_status body)),
      event_raw_base64 = enc (apc_text body)\<rparr>"

lemma length_apc_text [simp]: "length (apc_text body) = length body + 5"
  by (simp add: apc_text_def)

lemma windows_position_Some:
  "windows_position bs = Some n \<Longrightarrow>
     \<exists>post. bs = take n bs @ ST @ post \<and> n \<le> length bs \<and> windows_position (take n bs) = None"
proof (induction bs arbitrary: n rule: windows_position.induct)
  case (3 b c bs)
  show ?case
  proof (cases "[b, c] = ST")
    case True
    with 3 show ?thesis by (auto simp: ST_def)
  next
    case False
    with "3.prems" obtain k where k: "windows_position (c # bs) = Some k" "n = Suc k"
      by auto
    with "3.IH" [OF False k(1)] False show ?thesis
      by (cases k) (auto simp: ST_def)
  qed
qed simp_all

lemma windows_position_body:
  "windows_position body = None \<Longrightarrow> windows_position (body @ ST @ post) = Some (length body)"
  by (induction body rule: windows_position.induct) (auto simp: ST_def split: if_splits)

lemma find_st_text:
  "windows_position body = None \<Longrightarrow>
     find_st (pre @ body @ ST @ post) (length pre) = Some (length pre + length body)"
  by (simp add: find_st_def get_from_def windows_position_body)

lemma parse_apc_event_text:
  assumes "windows_position body = None"
  shows "parse_apc_event enc (pre @ apc_text body @ post) (length pre) seq =
    Some (\<lparr>observed_offset = length pre, observed_wire = apc_event enc seq body\<rparr>,
      length pre + length (apc_text body))"
proof -
  let ?input = "pre @ apc_text body @ post"
  have range: "get_range ?input (length pre) (length pre + 3) = Some (ESC # ''_G'')"
    by (simp add: get_range_def apc_text_def)
  have st: "find_st ?input (length pre + 3) = Some (length pre + 3 + length body)"
    using find_st_text [OF assms, of "pre @ ESC # ''_G''" post] by (simp add: apc_text_def eval_nat_numeral)
  have body: "get_range ?input (length pre + 3) (length pre + 3 + length body) = Some body"
    using get_range_mid [of "pre @ ESC # ''_G''" body "ST @ post"]
    by (simp add: apc_text_def eval_nat_numeral)
  have raw: "get_range ?input (length pre) (length pre + 3 + length body + length ST) =
      Some (apc_text body)"
    using get_range_mid [of pre "apc_text body" post] by (simp add: add.commute add.left_commute)
  have "parse_apc_event enc ?input (length pre) seq =
      Some (\<lparr>observed_offset = length pre, observed_wire = apc_event enc seq body\<rparr>,
        length pre + 3 + length body + length ST)"
    by (simp only: parse_apc_event_def Let_def range st body raw option.case split_beta
        apc_event_def simp_thms if_False if_True)
  then show ?thesis
    by simp
qed

lemma parse_apc_event_Some:
  assumes "parse_apc_event enc input offset seq = Some (e, nxt)"
  obtains pre body post where "input = pre @ apc_text body @ post" "offset = length pre"
    "windows_position body = None" "nxt = length pre + length (apc_text body)"
    "e = \<lparr>observed_offset = length pre, observed_wire = apc_event enc seq body\<rparr>"
proof -
  obtain endpos where range: "get_range input offset (offset + 3) = Some (ESC # ''_G'')"
    and st: "find_st input (offset + 3) = Some endpos"
    using assms by (auto simp: parse_apc_event_def Let_def split: option.splits if_splits)
  obtain rest n where rest: "get_from input (offset + 3) = Some rest"
    and n: "windows_position rest = Some n"
    using st by (auto simp: find_st_def split: bind_splits)
  obtain post where post: "rest = take n rest @ ST @ post" "windows_position (take n rest) = None"
    using windows_position_Some [OF n] by blast
  have "drop offset input = take 3 (drop offset input) @ drop (offset + 3) input"
    by (metis add.commute append_take_drop_id drop_drop)
  also have "\<dots> = (ESC # ''_G'') @ take n rest @ ST @ post"
    using range rest post(1) by (simp add: slice_simps)
  finally have "input = take offset input @ apc_text (take n rest) @ post"
    by (metis append.assoc append_Cons append_take_drop_id apc_text_def)
  moreover have "offset = length (take offset input)"
    using range by (simp add: slice_simps)
  ultimately show ?thesis
    using that [of "take offset input" "take n rest" post] post(2) assms
      parse_apc_event_text [OF post(2), of enc "take offset input" post seq]
    by (metis option.inject prod.inject)
qed

lemma parse_da1_event_Some:
  assumes "parse_da1_event enc input offset seq = Some (e, nxt)"
  obtains r where "parse_response_at enc input offset = Some r" "nxt = da1_end_offset r"
    "e = \<lparr>observed_offset = offset, observed_wire = da1_wire_event r seq BarrierReply\<rparr>"
  using assms that by (auto simp: parse_da1_event_def split: option.splits)

lemma parse_event_bounds:
  "parse_apc_event enc input offset seq = Some (e, nxt) \<Longrightarrow>
     offset < nxt \<and> nxt \<le> length input \<and> observed_offset e = offset"
  "parse_da1_event enc input offset seq = Some (e, nxt) \<Longrightarrow>
     offset < nxt \<and> nxt \<le> length input \<and> observed_offset e = offset"
  by (auto elim!: parse_apc_event_Some) (auto elim!: parse_da1_event_Some
      dest: parse_response_at_offsets)

text \<open>The two parsers start at different bytes, so their order in the loop does not matter.\<close>

lemma parse_events_exclusive:
  "parse_apc_event enc input offset seq = Some p \<Longrightarrow> parse_da1_event enc input offset seq = None"
proof (rule ccontr)
  assume "parse_apc_event enc input offset seq = Some p"
    and "parse_da1_event enc input offset seq \<noteq> None"
  then obtain r e nxt where r: "parse_response_at enc input offset = Some r"
    and "parse_apc_event enc input offset seq = Some (e, nxt)"
    by (cases p) (auto simp: parse_da1_event_def split: option.splits)
  then have "input ! (offset + 1) = CHR ''_''"
    by (auto elim!: parse_apc_event_Some simp: apc_text_def nth_append)
  moreover have "input ! (offset + 1) = CHR ''[''"
    using r by (auto elim!: parse_response_at_Some simp: da1_reply_def nth_append)
  ultimately show False by simp
qed

section \<open>The loop over the reply stream\<close>

function kgp_observe :: "(bytes \<Rightarrow> string) \<Rightarrow> bytes \<Rightarrow> nat \<Rightarrow> u32 \<Rightarrow> observed_event list" where
  "kgp_observe enc input offset seq =
     (if offset < length input then
        (case parse_apc_event enc input offset seq of
           Some (event, nxt) \<Rightarrow> event # kgp_observe enc input nxt (sat_add seq 1)
         | None \<Rightarrow>
             (case parse_da1_event enc input offset seq of
                Some (event, nxt) \<Rightarrow> event # kgp_observe enc input nxt (sat_add seq 1)
              | None \<Rightarrow> kgp_observe enc input (offset + 1) seq))
      else [])"
  by pat_completeness auto
termination
  by (relation "measure (\<lambda>(enc, input, offset, seq). length input - offset)")
    (auto dest: parse_event_bounds)

declare kgp_observe.simps [simp del]

record kgp_exchange =
  kgp_events :: "wire_event list"
  kgp_assessment :: assessment
  correlated_reply_seen :: bool
  barrier_seen :: bool

definition kgp_parse_exchange :: "(bytes \<Rightarrow> string) \<Rightarrow> bytes \<Rightarrow> u32 \<Rightarrow> kgp_exchange" where
  "kgp_parse_exchange enc input correlation_id =
     (let observed = kgp_observe enc input 0 0 in
      \<lparr>kgp_events = map observed_wire observed,
       kgp_assessment = kgp_assess observed correlation_id,
       correlated_reply_seen =
         list_ex (\<lambda>e. is_capability_reply e \<and> correlates correlation_id e) observed,
       barrier_seen = list_ex is_barrier_reply observed\<rparr>)"

definition kgp_step ::
  "(bytes \<Rightarrow> string) \<Rightarrow> bytes \<Rightarrow> nat \<Rightarrow> u32 \<Rightarrow> (observed_event \<times> nat) option" where
  "kgp_step enc input offset seq =
     (case parse_apc_event enc input offset seq of
        Some p \<Rightarrow> Some p
      | None \<Rightarrow> parse_da1_event enc input offset seq)"

lemma kgp_step_cases:
  assumes "kgp_step enc input offset seq = Some (e, nxt)"
  obtains (apc) "parse_apc_event enc input offset seq = Some (e, nxt)"
    | (da1) "parse_da1_event enc input offset seq = Some (e, nxt)"
  using assms by (auto simp: kgp_step_def split: option.splits)

lemma parse_apc_event_indep:
  "parse_apc_event enc input offset s = None \<longleftrightarrow> parse_apc_event enc input offset s' = None"
  by (simp add: parse_apc_event_def Let_def split: option.split prod.split)

lemma kgp_step_indep: "kgp_step enc input offset s = None \<longleftrightarrow> kgp_step enc input offset s' = None"
  using parse_apc_event_indep [of enc input offset s s']
  by (auto simp: kgp_step_def parse_da1_event_def split: option.splits)

interpretation kgp_scan: scanner "kgp_step enc" observed_offset "\<lambda>s. sat_add s 1"
  "kgp_observe enc" for enc
proof unfold_locales
  fix input offset and s :: u32
  show "kgp_observe enc input offset s =
      (if offset < length input then
         case kgp_step enc input offset s of
           None \<Rightarrow> kgp_observe enc input (Suc offset) s
         | Some (r, nxt) \<Rightarrow> r # kgp_observe enc input nxt (sat_add s 1)
       else [])"
    by (subst kgp_observe.simps) (simp add: kgp_step_def split: option.splits prod.splits)
qed (auto elim!: kgp_step_cases dest: parse_event_bounds)

section \<open>What the loop observes\<close>

definition kgp_observed :: "(bytes \<Rightarrow> string) \<Rightarrow> bytes \<Rightarrow> observed_event list" where
  "kgp_observed enc input = kgp_observe enc input 0 0"

lemma apc_event_simps [simp]:
  "event_sequence (apc_event enc seq body) = seq"
  "event_role (apc_event enc seq body) = CapabilityReply"
  "event_raw_base64 (apc_event enc seq body) = enc (apc_text body)"
  by (simp_all add: apc_event_def)

lemma kgp_step_event:
  assumes "kgp_step enc input offset seq = Some (e, nxt)"
  shows "event_sequence (observed_wire e) = seq \<and> observed_offset e = offset \<and>
    (is_capability_reply e \<or> is_barrier_reply e) \<and>
    (\<exists>raw. get_range input offset nxt = Some raw \<and> event_raw_base64 (observed_wire e) = enc raw)"
  using assms
proof (cases rule: kgp_step_cases)
  case apc
  then show ?thesis
  proof (rule parse_apc_event_Some)
    fix pre body post
    assume "input = pre @ apc_text body @ post" "offset = length pre"
      "nxt = length pre + length (apc_text body)"
      "e = \<lparr>observed_offset = length pre, observed_wire = apc_event enc seq body\<rparr>"
    then show ?thesis
      using get_range_mid [of pre "apc_text body" post] by (simp add: is_capability_reply_def)
  qed
next
  case da1
  then obtain r where "parse_response_at enc input offset = Some r" "nxt = da1_end_offset r"
    "e = \<lparr>observed_offset = offset, observed_wire = da1_wire_event r seq BarrierReply\<rparr>"
    by (rule parse_da1_event_Some)
  then show ?thesis
    using da1_raw [of enc input offset r] by (simp add: is_barrier_reply_def)
qed

lemma bump_funpow: "((\<lambda>s. sat_add s 1) ^^ i) (0 :: u32) = u32_of_usize i"
  by (induction i) (simp_all add: sat_add_u32_of_usize)

lemma kgp_observed_nth:
  assumes "i < length (kgp_observed enc input)"
  obtains nxt where "kgp_step enc input (observed_offset (kgp_observed enc input ! i))
    (u32_of_usize i) = Some (kgp_observed enc input ! i, nxt)"
  using kgp_scan.scan_nth [of i enc input 0 0] assms bump_funpow [of i]
  by (auto simp: kgp_observed_def)

lemma kgp_observed_event:
  assumes "e \<in> set (kgp_observed enc input)"
  shows "is_capability_reply e \<or> is_barrier_reply e"
    "\<exists>j raw. get_range input (observed_offset e) j = Some raw \<and>
      event_raw_base64 (observed_wire e) = enc raw"
proof -
  obtain i where i: "i < length (kgp_observed enc input)" "e = kgp_observed enc input ! i"
    using assms by (metis in_set_conv_nth)
  obtain nxt where "kgp_step enc input (observed_offset e) (u32_of_usize i) = Some (e, nxt)"
    using kgp_observed_nth [OF i(1)] i(2) by blast
  from kgp_step_event [OF this] show "is_capability_reply e \<or> is_barrier_reply e"
    "\<exists>j raw. get_range input (observed_offset e) j = Some raw \<and>
      event_raw_base64 (observed_wire e) = enc raw"
    by blast+
qed

lemma kgp_observed_ordered:
  "sorted_wrt (\<lambda>a b. observed_offset a < observed_offset b) (kgp_observed enc input)"
  unfolding kgp_observed_def by (rule kgp_scan.scan_ordered)

lemma kgp_exchange_observed:
  "kgp_events (kgp_parse_exchange enc input cid) = map observed_wire (kgp_observed enc input)"
  "kgp_assessment (kgp_parse_exchange enc input cid) = kgp_assess (kgp_observed enc input) cid"
  "correlated_reply_seen (kgp_parse_exchange enc input cid) \<longleftrightarrow>
     list_ex (\<lambda>e. is_capability_reply e \<and> correlates cid e) (kgp_observed enc input)"
  "barrier_seen (kgp_parse_exchange enc input cid) \<longleftrightarrow>
     list_ex is_barrier_reply (kgp_observed enc input)"
  by (simp_all add: kgp_parse_exchange_def kgp_observed_def Let_def)

interpretation kgp_probe: probe_adapter enc
  "\<lambda>response. kgp_events (kgp_parse_exchange enc response cid)" for enc cid
proof unfold_locales
  fix response e
  show "events_canonical 0 (kgp_events (kgp_parse_exchange enc response cid))"
    unfolding events_canonical_def kgp_exchange_observed
    by (auto elim!: kgp_observed_nth [of _ enc response] dest: kgp_step_event)
  show "e \<in> set (kgp_events (kgp_parse_exchange enc response cid)) \<Longrightarrow>
      \<exists>i j raw. get_range response i j = Some raw \<and> event_raw_base64 e = enc raw"
    unfolding kgp_exchange_observed by (auto dest!: kgp_observed_event(2))
qed

section \<open>The assessment\<close>

lemma find_filter: "find P (filter Q xs) = find (\<lambda>x. Q x \<and> P x) xs"
  by (induction xs) auto

lemma find_Some_split:
  "find P xs = Some x \<longleftrightarrow> (\<exists>ys zs. xs = ys @ x # zs \<and> P x \<and> list_all (\<lambda>y. \<not> P y) ys)"
proof (induction xs)
  case (Cons a xs)
  show ?case
  proof (cases "P a")
    case True
    then show ?thesis by (auto simp: Cons_eq_append_conv)
  next
    case False
    then have "(\<exists>ys zs. a # xs = ys @ x # zs \<and> P x \<and> list_all (\<lambda>y. \<not> P y) ys) \<longleftrightarrow>
        (\<exists>ys zs. a # xs = (a # ys) @ x # zs \<and> P x \<and> list_all (\<lambda>y. \<not> P y) (a # ys))"
      by (metis append_eq_Cons_conv list.inject list.pred_inject(2))
    with False Cons show ?thesis by simp
  qed
qed simp

lemma find_None_list_ex: "find P xs = None \<longleftrightarrow> \<not> list_ex P xs"
  by (induction xs) auto

lemma assess_matching_simps [simp]:
  "assessed_availability (assess_matching_reply reply barrier cid) = Available"
  "assessed_conformance (assess_matching_reply reply barrier cid) = Conformant \<longleftrightarrow>
     (\<exists>b. barrier = Some b \<and> observed_offset reply < observed_offset b) \<and>
     event_status (observed_wire reply) = Some ''OK''"
proof -
  show "assessed_availability (assess_matching_reply reply barrier cid) = Available"
    by (simp only: assess_matching_reply_def Let_def assessment.select_convs)
  have "assessed_conformance (assess_matching_reply reply barrier cid) =
      (if barrier = None then Inconclusive
       else if event_status (observed_wire reply) = Some ''OK'' \<and> (case barrier of None \<Rightarrow> True
         | Some b \<Rightarrow> observed_offset reply < observed_offset b) then Conformant else Nonconformant)"
    by (simp only: assess_matching_reply_def Let_def assessment.select_convs)
  then show "assessed_conformance (assess_matching_reply reply barrier cid) = Conformant \<longleftrightarrow>
     (\<exists>b. barrier = Some b \<and> observed_offset reply < observed_offset b) \<and>
     event_status (observed_wire reply) = Some ''OK''"
    by (auto split: option.splits)
qed

lemma assess_other_simps [simp]:
  "assessed_availability (assess_unmatched_reply reply barrier cid) = Available"
  "assessed_conformance (assess_unmatched_reply reply barrier cid) = Nonconformant"
  "assessed_availability assess_unavailable = Unavailable"
  "assessed_conformance assess_unavailable = ConformanceNotApplicable"
  "assessed_availability assess_unknown = AvailabilityUnknown"
  "assessed_conformance assess_unknown = Inconclusive"
  by (simp_all add: assess_unmatched_reply_def assess_unavailable_def assess_unknown_def)

lemma kgp_assess_availability:
  "assessed_availability (kgp_assess events cid) =
     (if list_ex is_capability_reply events then Available
      else if list_ex is_barrier_reply events then Unavailable
      else AvailabilityUnknown)"
proof (cases "filter is_capability_reply events")
  case Nil
  then have "\<not> list_ex is_capability_reply events"
    by (auto simp: filter_empty_conv list_ex_iff)
  with Nil show ?thesis
    using find_None_list_ex [of is_barrier_reply events] by (simp add: kgp_assess_def Let_def)
next
  case (Cons e es)
  then have "list_ex is_capability_reply events"
    by (auto simp: list_ex_iff filter_eq_Cons_iff)
  with Cons show ?thesis
    by (auto simp: kgp_assess_def Let_def split: option.split)
qed

lemma kgp_assess_conformant:
  "assessed_conformance (kgp_assess events cid) = Conformant \<longleftrightarrow>
     (\<exists>reply barrier. find (\<lambda>e. is_capability_reply e \<and> correlates cid e) events = Some reply \<and>
        find is_barrier_reply events = Some barrier \<and>
        event_status (observed_wire reply) = Some ''OK'' \<and>
        observed_offset reply < observed_offset barrier)"
  by (auto simp: kgp_assess_def Let_def find_filter split: option.split list.split)

text \<open>On an ordered list of events the comparison of offsets is the order of the list.\<close>

lemma barrier_after_reply:
  assumes "sorted_wrt (\<lambda>a b. observed_offset a < observed_offset b) (before @ reply # after)"
    and "find is_barrier_reply (before @ reply # after) = Some barrier"
    and "observed_offset reply < observed_offset barrier" "\<not> is_barrier_reply reply"
  shows "list_all (\<lambda>e. \<not> is_barrier_reply e) before \<and> list_ex is_barrier_reply after"
proof -
  have "find is_barrier_reply before = None"
  proof (rule ccontr)
    assume "find is_barrier_reply before \<noteq> None"
    then obtain b where b: "find is_barrier_reply before = Some b" by blast
    then have "b \<in> set before"
      by (auto simp: find_Some_split)
    moreover have "find is_barrier_reply (before @ xs) = Some b" for xs
      using b by (induction before) (auto split: if_splits)
    then have "b = barrier"
      using assms(2) by simp
    ultimately show False
      using assms(1,3) by (auto simp: sorted_wrt_append)
  qed
  then have none: "list_all (\<lambda>e. \<not> is_barrier_reply e) before"
    by (simp add: find_None_iff list_all_iff)
  then have "find is_barrier_reply (before @ xs) = find is_barrier_reply xs" for xs
    by (induction before) auto
  then have "find is_barrier_reply after = Some barrier"
    using assms(2,4) by simp
  then have "list_ex is_barrier_reply after"
    by (auto simp: find_Some_split)
  with none show ?thesis by simp
qed

lemma conformant_order:
  assumes "sorted_wrt (\<lambda>a b. observed_offset a < observed_offset b) events"
    and roles: "\<And>e. is_barrier_reply e \<Longrightarrow> \<not> is_capability_reply e"
  shows "assessed_conformance (kgp_assess events cid) = Conformant \<longleftrightarrow>
     (\<exists>before reply after. events = before @ reply # after \<and>
        is_capability_reply reply \<and> correlates cid reply \<and>
        event_status (observed_wire reply) = Some ''OK'' \<and>
        list_all (\<lambda>e. \<not> is_barrier_reply e \<and> \<not> (is_capability_reply e \<and> correlates cid e)) before \<and>
        list_ex is_barrier_reply after)"
  (is "?lhs \<longleftrightarrow> ?rhs")
proof
  assume ?lhs
  then obtain reply barrier where reply: "find (\<lambda>e. is_capability_reply e \<and> correlates cid e) events = Some reply"
    and bar: "find is_barrier_reply events = Some barrier"
    and ok: "event_status (observed_wire reply) = Some ''OK''"
    and lt: "observed_offset reply < observed_offset barrier"
    by (auto simp: kgp_assess_conformant)
  obtain before after where *: "events = before @ reply # after"
    "is_capability_reply reply \<and> correlates cid reply"
    "list_all (\<lambda>e. \<not> (is_capability_reply e \<and> correlates cid e)) before"
    using reply by (auto simp: find_Some_split)
  have "list_all (\<lambda>e. \<not> is_barrier_reply e) before \<and> list_ex is_barrier_reply after"
    by (rule barrier_after_reply [OF assms(1) [unfolded *(1)] bar [unfolded *(1)] lt]) (use *(2) roles in blast)
  then show ?rhs
    using * ok by (intro exI [of _ before] exI [of _ reply] exI [of _ after]) (simp add: list_all_iff)
next
  assume ?rhs
  then obtain before reply after where *: "events = before @ reply # after"
    "is_capability_reply reply" "correlates cid reply"
    "event_status (observed_wire reply) = Some ''OK''"
    "list_all (\<lambda>e. \<not> is_barrier_reply e \<and> \<not> (is_capability_reply e \<and> correlates cid e)) before"
    "list_ex is_barrier_reply after"
    by blast
  have "find (\<lambda>e. is_capability_reply e \<and> correlates cid e) events = Some reply"
    using *(1,2,3,5) by (auto simp: find_Some_split list_all_iff)
  moreover obtain barrier where bar: "find is_barrier_reply after = Some barrier"
    using *(6) find_None_list_ex [of is_barrier_reply after] by fastforce
  moreover have "find is_barrier_reply events = find is_barrier_reply after"
  proof -
    have "\<not> is_barrier_reply reply"
      using *(2) roles by blast
    with *(5) have "find is_barrier_reply (before @ reply # after) = find is_barrier_reply after"
      by (induction before) auto
    then show ?thesis by (simp add: *(1))
  qed
  moreover have "barrier \<in> set after"
    using bar by (auto simp: find_Some_split)
  then have "observed_offset reply < observed_offset barrier"
    using assms(1) by (auto simp: *(1) sorted_wrt_append)
  ultimately show ?lhs
    using *(4) by (auto simp: kgp_assess_conformant)
qed

section \<open>Control fields\<close>

text \<open>Control text is a comma-separated list of assignments.\<close>

definition render_fields :: "(string \<times> string) list \<Rightarrow> string" where
  "render_fields kvs = join_with '','' (map (\<lambda>(k, v). k @ ''='' @ v) kvs)"

definition plain_text :: "string \<Rightarrow> bool" where
  "plain_text s \<longleftrightarrow> list_all ascii_byte s \<and> CHR '','' \<notin> set s \<and> CHR '';'' \<notin> set s \<and> ESC \<notin> set s"

definition plain_field :: "string \<times> string \<Rightarrow> bool" where
  "plain_field kv \<longleftrightarrow> plain_text (fst kv) \<and> plain_text (snd kv) \<and> fst kv \<noteq> [] \<and>
     CHR ''='' \<notin> set (fst kv)"

lemma join_with_set: "set (join_with sep ss) \<subseteq> set sep \<union> (\<Union>s\<in>set ss. set s)"
  by (induction sep ss rule: join_with.induct) auto

lemma render_fields_chars:
  assumes "list_all plain_field kvs"
  shows "list_all ascii_byte (render_fields kvs)" "CHR '';'' \<notin> set (render_fields kvs)"
    "ESC \<notin> set (render_fields kvs)"
proof -
  have *: "set (render_fields kvs) \<subseteq> {CHR '',''} \<union> (\<Union>kv\<in>set kvs. set (fst kv) \<union> {CHR ''=''} \<union> set (snd kv))"
    using join_with_set [of "'',''" "map (\<lambda>(k, v). k @ ''='' @ v) kvs"]
    by (fastforce simp: render_fields_def split_beta)
  have "ascii_byte c \<and> c \<noteq> CHR '';'' \<and> c \<noteq> ESC" if c: "c \<in> set (render_fields kvs)" for c
  proof -
    consider "c = CHR '',''" | kv where "kv \<in> set kvs" "c \<in> set (fst kv) \<or> c \<in> set (snd kv)"
      | "c = CHR ''=''"
      using subsetD [OF * c] by (auto split: if_splits)
    then show ?thesis
      using assms by cases (auto simp: list_all_iff plain_field_def plain_text_def ascii_byte_def)
  qed
  then show "list_all ascii_byte (render_fields kvs)" "CHR '';'' \<notin> set (render_fields kvs)"
    "ESC \<notin> set (render_fields kvs)"
    by (auto simp: list_all_iff)
qed

lemma control_field_render: "plain_field kv \<Longrightarrow> control_field (fst kv @ ''='' @ snd kv) = Some kv"
  by (cases kv) (simp add: control_field_def split_once_append plain_field_def)

lemma map_filter_Some: "\<forall>x\<in>set xs. f (g x) = Some x \<Longrightarrow> List.map_filter f (map g xs) = xs"
  by (induction xs) (simp_all add: List.map_filter_simps)

lemma parse_render_fields:
  assumes "list_all plain_field kvs" "kvs \<noteq> []"
  shows "parse_control_fields (render_fields kvs) =
    foldl (\<lambda>m (key, val). m(key \<mapsto> val)) Map.empty kvs"
proof -
  have "from_utf8_lossy (render_fields kvs) = render_fields kvs"
    using render_fields_chars(1) [OF assms(1)] by (intro from_utf8_lossy_valid utf8_valid_ascii)
  moreover have "split_on (CHR '','') (render_fields kvs) = map (\<lambda>(k, v). k @ ''='' @ v) kvs"
    unfolding render_fields_def using assms
    by (intro split_on_join) (auto simp: list_all_iff plain_field_def plain_text_def)
  moreover have "List.map_filter control_field (map (\<lambda>(k, v). k @ ''='' @ v) kvs) = kvs"
    using assms(1) control_field_render
    by (intro map_filter_Some) (auto simp: list_all_iff split_beta)
  ultimately show ?thesis
    by (simp add: parse_control_fields_def)
qed

lemma windows_position_no_ESC: "ESC \<notin> set s \<Longrightarrow> windows_position s = None"
  by (induction s rule: windows_position.induct) (auto simp: ST_def)

lemma split_status_render:
  assumes "CHR '';'' \<notin> set control"
  shows "split_status (control @ '';'' @ status) = (control, Some (from_utf8_lossy status))"
proof -
  have "position (\<lambda>b. b = CHR '';'') (control @ CHR '';'' # status) = Some (length control)"
    using assms by (intro position_at_sep) auto
  then show ?thesis
    by (simp add: split_status_def)
qed

section \<open>A receiver of graphics commands\<close>

text \<open>
  The terminal's side of the transmission: a sequence of commands \<open>ESC _ G control ; payload ST\<close>
  and nothing else.
\<close>

function receive_commands :: "bytes \<Rightarrow> ((string \<rightharpoonup> string) \<times> bytes) list option" where
  "receive_commands bs =
     (if bs = [] then Some []
      else case strip_prefix (ESC # ''_G'') bs of
        None \<Rightarrow> None
      | Some rest \<Rightarrow>
          (case windows_position rest of
             None \<Rightarrow> None
           | Some n \<Rightarrow>
               (case split_once (CHR '';'') (take n rest) of
                  None \<Rightarrow> None
                | Some (control, payload) \<Rightarrow>
                    map_option ((#) (parse_control_fields control, payload))
                      (receive_commands (drop (n + 2) rest)))))"
  by pat_completeness auto
termination
  by (relation "measure length") (auto simp: strip_prefix_Some_iff)

declare receive_commands.simps [simp del]

lemma receive_commands_Nil [simp]: "receive_commands [] = Some []"
  by (simp add: receive_commands.simps)

lemma receive_command:
  assumes "list_all plain_field kvs" "ESC \<notin> set payload"
  shows "receive_commands (apc_text (render_fields kvs @ '';'' @ payload) @ bs) =
    map_option ((#) (parse_control_fields (render_fields kvs), payload)) (receive_commands bs)"
proof -
  define body where "body = render_fields kvs @ '';'' @ payload"
  have "windows_position (body @ ST @ bs) = Some (length body)"
    using render_fields_chars(3) [OF assms(1)] assms(2)
    by (intro windows_position_body windows_position_no_ESC) (auto simp: body_def)
  moreover have "strip_prefix (ESC # ''_G'') (apc_text body @ bs) = Some (body @ ST @ bs)"
    using strip_prefix_append [of "ESC # ''_G''" "body @ ST @ bs"] by (simp add: apc_text_def)
  moreover have "split_once (CHR '';'') body = Some (render_fields kvs, payload)"
    using split_once_append [OF render_fields_chars(2) [OF assms(1)]] by (simp add: body_def)
  moreover have "apc_text body @ bs \<noteq> []"
    by (simp add: apc_text_def)
  ultimately have "receive_commands (apc_text body @ bs) =
      map_option ((#) (parse_control_fields (render_fields kvs), payload)) (receive_commands bs)"
    by (subst receive_commands.simps) (simp add: ST_def)
  then show ?thesis
    by (simp only: body_def)
qed

text \<open>The fields of the first chunk and of the later ones.\<close>

definition first_fields :: "png_display_options \<Rightarrow> nat \<Rightarrow> (string \<times> string) list" where
  "first_fields options more_chunks =
     [(''a'', ''T''), (''f'', ''100''), (''I'', dec_string (unat (image_number options))),
      (''c'', dec_string (unat (display_columns options))),
      (''r'', dec_string (unat (display_rows options))), (''C'', ''1''), (''N'', ''1''),
      (''q'', ''2''), (''m'', dec_string more_chunks)]"

definition later_fields :: "nat \<Rightarrow> (string \<times> string) list" where
  "later_fields more_chunks = [(''m'', dec_string more_chunks), (''q'', ''2'')]"

lemma dec_string_plain: "plain_text (dec_string n)"
  by (auto simp: plain_text_def list_all_iff dec_string_no_syntax
      dest: dec_string_digits intro: digit_ascii)

lemma plain_fields: "list_all plain_field (first_fields options n)" "list_all plain_field (later_fields n)"
  by (simp_all add: first_fields_def later_fields_def plain_field_def dec_string_plain)
    (simp_all add: plain_text_def ascii_byte_def)

lemma png_chunk_text:
  "png_chunk_prefix options index n @ chunk @ ST =
     apc_text (render_fields (if index = 0 then first_fields options n else later_fields n) @ '';'' @ chunk)"
  by (simp add: png_chunk_prefix_def apc_text_def render_fields_def first_fields_def
      later_fields_def)

definition chunk_fields :: "png_display_options \<Rightarrow> nat \<Rightarrow> nat \<Rightarrow> string \<rightharpoonup> string" where
  "chunk_fields options count index =
     parse_control_fields (render_fields (if index = 0 then first_fields options (of_bool (index + 1 < count))
       else later_fields (of_bool (index + 1 < count))))"

lemma dec_string_bit: "dec_string (of_bool b) = (if b then ''1'' else ''0'')"
  by (simp add: eval_simps)

lemma parse_chunk_fields:
  "parse_control_fields (render_fields (first_fields options n)) =
     foldl (\<lambda>m (key, val). m(key \<mapsto> val)) Map.empty (first_fields options n)"
  "parse_control_fields (render_fields (later_fields n)) =
     foldl (\<lambda>m (key, val). m(key \<mapsto> val)) Map.empty (later_fields n)"
  by (rule parse_render_fields [OF plain_fields(1)], simp add: first_fields_def)
    (rule parse_render_fields [OF plain_fields(2)], simp add: later_fields_def)

lemma chunk_fields_m:
  "chunk_fields options count i ''m'' = Some (if Suc i < count then ''1'' else ''0'')"
proof -
  have "parse_control_fields (render_fields (first_fields options n)) ''m'' = Some (dec_string n)"
    "parse_control_fields (render_fields (later_fields n)) ''m'' = Some (dec_string n)" for n
    unfolding parse_chunk_fields by (simp_all add: first_fields_def later_fields_def)
  then show ?thesis
    by (simp add: chunk_fields_def dec_string_bit del: of_bool_eq)
qed

lemma chunk_fields_first:
  "chunk_fields options count 0 ''I'' = Some (dec_string (unat (image_number options)))"
  "chunk_fields options count 0 ''c'' = Some (dec_string (unat (display_columns options)))"
  "chunk_fields options count 0 ''r'' = Some (dec_string (unat (display_rows options)))"
  unfolding chunk_fields_def if_P [OF refl] parse_chunk_fields by (simp_all add: first_fields_def)

lemma map_all_but_last:
  "map (\<lambda>i. if Suc i < Suc k then a else b) [0..<Suc k] = replicate k a @ [b]"
  by (intro nth_equalityI) (auto simp: nth_append less_Suc_eq simp del: upt_Suc)

lemma receive_png_chunks:
  "list_all (\<lambda>c. ESC \<notin> set c) cs \<Longrightarrow>
     receive_commands (png_chunks options count index cs) =
       Some (map (\<lambda>i. (chunk_fields options count (index + i), cs ! i)) [0..<length cs])"
proof (induction cs arbitrary: index)
  case Nil
  then show ?case by simp
next
  case (Cons c cs)
  have upt: "[0..<Suc (length cs)] = 0 # map Suc [0..<length cs]"
    by (simp add: upt_conv_Cons map_Suc_upt del: upt_Suc)
  have "png_chunks options count index (c # cs) =
      (png_chunk_prefix options index (of_bool (index + 1 < count)) @ c @ ST)
        @ png_chunks options count (index + 1) cs"
    by (simp add: Let_def)
  moreover have "list_all plain_field (if index = 0 then first_fields options n else later_fields n)" for n
    using plain_fields by simp
  ultimately have "receive_commands (png_chunks options count index (c # cs)) =
      map_option ((#) (chunk_fields options count index, c))
        (receive_commands (png_chunks options count (index + 1) cs))"
    using Cons.prems
    by (simp only: png_chunk_text receive_command chunk_fields_def list.pred_inject simp_thms)
  then show ?case
    using Cons.prems by (simp add: Cons.IH upt comp_def del: upt_Suc png_chunks.simps)
qed

section \<open>Reading a stream of replies\<close>

lemma kgp_step_ESC:
  assumes "kgp_step enc input offset s \<noteq> None"
  shows "offset < length input \<and> input ! offset = ESC"
proof -
  obtain e nxt where "kgp_step enc input offset s = Some (e, nxt)"
    using assms by auto
  then show ?thesis
  proof (cases rule: kgp_step_cases)
    case apc
    then show ?thesis
      by (auto elim!: parse_apc_event_Some simp: apc_text_def nth_append)
  next
    case da1
    then show ?thesis
      by (auto elim!: parse_da1_event_Some dest: parse_response_at_starts_ESC)
  qed
qed

lemma kgp_observe_noise:
  assumes "ESC \<notin> set noise"
  shows "kgp_observe enc (pre @ noise @ rest) (length pre) s =
    kgp_observe enc (pre @ noise @ rest) (length pre + length noise) s"
proof (rule kgp_scan.scan_skip)
  fix i s
  assume i: "length pre \<le> i" "i < length pre + length noise"
  then have "i - length pre < length noise"
    by linarith
  then have "(pre @ noise @ rest) ! i \<in> set noise"
    using i by (simp add: nth_append)
  with assms show "kgp_step enc (pre @ noise @ rest) i s = None"
    using kgp_step_ESC [of enc "pre @ noise @ rest" i s] by metis
qed simp

lemma kgp_observe_apc:
  assumes "windows_position body = None"
  shows "kgp_observe enc (pre @ apc_text body @ post) (length pre) s =
    \<lparr>observed_offset = length pre, observed_wire = apc_event enc s body\<rparr>
      # kgp_observe enc (pre @ apc_text body @ post) (length (pre @ apc_text body)) (sat_add s 1)"
  by (rule kgp_scan.scan_hit) (simp add: kgp_step_def parse_apc_event_text [OF assms])

definition da1_response_of :: "(bytes \<Rightarrow> string) \<Rightarrow> nat \<Rightarrow> u16 list \<Rightarrow> da1_response" where
  "da1_response_of enc offset ps =
     (let text = da1_reply (render_parameters ps) in
      \<lparr>da1_offset = offset, da1_end_offset = offset + length text, da1_parameters = ps,
       da1_parameter_text = CHR ''?'' # render_parameters ps, da1_raw_base64 = enc text\<rparr>)"

lemma kgp_observe_da1:
  fixes pre post :: bytes
  assumes "ps \<noteq> []"
  defines "text \<equiv> da1_reply (render_parameters ps)"
  shows "kgp_observe enc (pre @ text @ post) (length pre) s =
    \<lparr>observed_offset = length pre,
      observed_wire = da1_wire_event (da1_response_of enc (length pre) ps) s BarrierReply\<rparr>
      # kgp_observe enc (pre @ text @ post) (length (pre @ text)) (sat_add s 1)"
proof -
  have da1: "parse_response_at enc (pre @ text @ post) (length pre) =
      Some (da1_response_of enc (length pre) ps)"
    using parse_response_at_reply [OF da1_body_render [OF assms(1)], of enc pre post]
    by (simp add: text_def da1_response_of_def Let_def)
  have "parse_da1_event enc (pre @ text @ post) (length pre) s = Some
      (\<lparr>observed_offset = length pre,
        observed_wire = da1_wire_event (da1_response_of enc (length pre) ps) s BarrierReply\<rparr>,
       length (pre @ text))"
    by (simp add: parse_da1_event_def da1) (simp add: da1_response_of_def text_def Let_def)
  moreover from this have "parse_apc_event enc (pre @ text @ post) (length pre) s = None"
    using parse_events_exclusive by (metis option.distinct(1) option.exhaust)
  ultimately show ?thesis
    by (intro kgp_scan.scan_hit) (simp add: kgp_step_def)
qed

text \<open>The exchange of a conforming terminal: noise, the reply, noise, the barrier, noise.\<close>

definition kgp_reply_body :: "u32 \<Rightarrow> string \<Rightarrow> bytes" where
  "kgp_reply_body correlation_id status =
     render_fields [(''i'', dec_string (unat correlation_id))] @ '';'' @ status"

definition kgp_reply_stream :: "bytes \<Rightarrow> bytes \<Rightarrow> bytes \<Rightarrow> bytes \<Rightarrow> u16 list \<Rightarrow> bytes" where
  "kgp_reply_stream n0 n1 n2 body ps =
     n0 @ apc_text body @ n1 @ da1_reply (render_parameters ps) @ n2"

lemma kgp_observed_stream:
  assumes "ESC \<notin> set n0" "ESC \<notin> set n1" "ESC \<notin> set n2" "windows_position body = None" "ps \<noteq> []"
  shows "\<exists>off. kgp_observed enc (kgp_reply_stream n0 n1 n2 body ps) =
    [\<lparr>observed_offset = length n0, observed_wire = apc_event enc 0 body\<rparr>,
     \<lparr>observed_offset = off,
      observed_wire = da1_wire_event (da1_response_of enc off ps) 1 BarrierReply\<rparr>]"
proof -
  let ?da1 = "da1_reply (render_parameters ps)"
  let ?in = "kgp_reply_stream n0 n1 n2 body ps"
  have s: "sat_add 0 (1 :: u32) = 1"
    by (simp add: sat_add_def)
  have 1: "kgp_observe enc ?in 0 0 = kgp_observe enc ?in (length n0) 0"
    using kgp_observe_noise [OF assms(1), of enc "[]" "apc_text body @ n1 @ ?da1 @ n2" 0]
    by (simp add: kgp_reply_stream_def)
  have 2: "kgp_observe enc ?in (length n0) 0 =
      \<lparr>observed_offset = length n0, observed_wire = apc_event enc 0 body\<rparr>
        # kgp_observe enc ?in (length (n0 @ apc_text body)) 1"
    using kgp_observe_apc [OF assms(4), of enc n0 "n1 @ ?da1 @ n2" 0]
    by (simp add: kgp_reply_stream_def s)
  have 3: "kgp_observe enc ?in (length (n0 @ apc_text body)) 1 =
      kgp_observe enc ?in (length (n0 @ apc_text body @ n1)) 1"
    using kgp_observe_noise [OF assms(2), of enc "n0 @ apc_text body" "?da1 @ n2" 1]
    by (simp add: kgp_reply_stream_def add.assoc)
  have 4: "kgp_observe enc ?in (length (n0 @ apc_text body @ n1)) 1 =
      \<lparr>observed_offset = length (n0 @ apc_text body @ n1), observed_wire = da1_wire_event
        (da1_response_of enc (length (n0 @ apc_text body @ n1)) ps) 1 BarrierReply\<rparr>
        # kgp_observe enc ?in (length (n0 @ apc_text body @ n1 @ ?da1)) (sat_add 1 1)"
    using kgp_observe_da1 [OF assms(5), of enc "n0 @ apc_text body @ n1" n2 1]
    by (simp add: kgp_reply_stream_def)
  have 5: "kgp_observe enc ?in (length (n0 @ apc_text body @ n1 @ ?da1)) t = []" for t
    using kgp_observe_noise [OF assms(3), of enc "n0 @ apc_text body @ n1 @ ?da1" "[]" t]
    by (simp add: kgp_reply_stream_def add.assoc kgp_scan.scan_end)
  show ?thesis
    by (simp only: kgp_observed_def 1 2 3 4 5) blast
qed

lemma kgp_reply_event:
  assumes "list_all ascii_byte status" "ESC \<notin> set status"
  shows "windows_position (kgp_reply_body cid status) = None"
    "event_correlation (apc_event enc s (kgp_reply_body cid status)) = Some (dec_string (unat cid))"
    "event_status (apc_event enc s (kgp_reply_body cid status)) = Some status"
proof -
  have field: "list_all plain_field [(''i'', dec_string (unat cid))]"
    by (simp add: plain_field_def dec_string_plain) (simp add: plain_text_def ascii_byte_def)
  show "windows_position (kgp_reply_body cid status) = None"
    using render_fields_chars(3) [OF field] assms(2)
    by (intro windows_position_no_ESC) (simp add: kgp_reply_body_def)
  have split: "split_status (kgp_reply_body cid status) =
      (render_fields [(''i'', dec_string (unat cid))], Some (from_utf8_lossy status))"
    unfolding kgp_reply_body_def
    using render_fields_chars(2) [OF field] by (rule split_status_render)
  show "event_correlation (apc_event enc s (kgp_reply_body cid status)) = Some (dec_string (unat cid))"
    using parse_render_fields [OF field] by (simp add: apc_event_def split)
  show "event_status (apc_event enc s (kgp_reply_body cid status)) = Some status"
    using assms(1) by (simp add: apc_event_def split from_utf8_lossy_valid utf8_valid_ascii)
qed

text \<open>The exchange with a conforming terminal.\<close>

lemma kgp_ok_stream:
  assumes "ESC \<notin> set n0" "ESC \<notin> set n1" "ESC \<notin> set n2" "ps \<noteq> []"
  shows "let ex = kgp_parse_exchange enc
      (kgp_reply_stream n0 n1 n2 (kgp_reply_body cid ''OK'') ps) cid in
    map event_role (kgp_events ex) = [CapabilityReply, BarrierReply]
    \<and> map event_sequence (kgp_events ex) = [0, 1]
    \<and> assessed_availability (kgp_assessment ex) = Available
    \<and> assessed_conformance (kgp_assessment ex) = Conformant
    \<and> correlated_reply_seen ex \<and> barrier_seen ex"
proof -
  let ?in = "kgp_reply_stream n0 n1 n2 (kgp_reply_body cid ''OK'') ps"
  let ?reply = "\<lparr>observed_offset = length n0,
      observed_wire = apc_event enc 0 (kgp_reply_body cid ''OK'')\<rparr>"
  have ok: "list_all ascii_byte ''OK''" "ESC \<notin> set ''OK''"
    by (simp_all add: ascii_byte_def)
  obtain off where off: "kgp_observed enc ?in = [?reply, \<lparr>observed_offset = off,
      observed_wire = da1_wire_event (da1_response_of enc off ps) 1 BarrierReply\<rparr>]" (is "_ = [_, ?bar]")
    using kgp_observed_stream [OF assms(1-3) kgp_reply_event(1) [OF ok] assms(4)] by blast
  have reply: "is_capability_reply ?reply" "\<not> is_barrier_reply ?reply" "correlates cid ?reply"
    "event_status (observed_wire ?reply) = Some ''OK''"
    using kgp_reply_event(2,3) [OF ok, where cid = cid]
    by (simp_all add: is_capability_reply_def is_barrier_reply_def correlates_def)
  have bar: "is_barrier_reply ?bar" "\<not> is_capability_reply ?bar"
    by (simp_all add: is_capability_reply_def is_barrier_reply_def)
  have "observed_offset ?reply < observed_offset ?bar"
    using kgp_observed_ordered [of enc ?in] by (simp add: off)
  then have "assessed_conformance (kgp_assess [?reply, ?bar] cid) = Conformant"
    unfolding kgp_assess_conformant using reply bar
    by (simp del: observed_event.select_convs)
  then show ?thesis
    unfolding Let_def kgp_exchange_observed off kgp_assess_availability using reply bar by simp
qed

section \<open>Properties\<close>

text \<open>For every nonzero correlation the query is one graphics command, which a receiver reads
  as the one-pixel direct query with that image id, followed by the DA1 barrier query; zero is
  refused.\<close>

theorem kgp_query_readable:
  assumes "cid \<noteq> 0"
  shows "\<exists>cmd. kgp_build_query cid = Inr (cmd @ da1_build_query) \<and>
      receive_commands cmd = Some
        [([''i'' \<mapsto> dec_string (unat cid), ''s'' \<mapsto> ''1'', ''v'' \<mapsto> ''1'', ''a'' \<mapsto> ''q'',
           ''t'' \<mapsto> ''d'', ''f'' \<mapsto> ''24''], ''AAAA'')]
    \<and> kgp_build_query 0 = Inl ZeroCorrelationId"
proof (intro exI conjI)
  let ?kvs = "[(''i'', dec_string (unat cid)), (''s'', ''1''), (''v'', ''1''), (''a'', ''q''),
    (''t'', ''d''), (''f'', ''24'')]"
  let ?cmd = "apc_text (render_fields ?kvs @ '';'' @ ''AAAA'')"
  have fields: "list_all plain_field ?kvs"
    by (simp add: plain_field_def dec_string_plain) (simp add: plain_text_def ascii_byte_def)
  show "kgp_build_query cid = Inr (?cmd @ da1_build_query)"
    using assms by (simp add: kgp_build_query_def da1_build_query_def apc_text_def
        render_fields_def ST_def)
  show "receive_commands ?cmd = Some
        [([''i'' \<mapsto> dec_string (unat cid), ''s'' \<mapsto> ''1'', ''v'' \<mapsto> ''1'', ''a'' \<mapsto> ''q'',
           ''t'' \<mapsto> ''d'', ''f'' \<mapsto> ''24''], ''AAAA'')]"
    using receive_command [OF fields, of "''AAAA''" "[]"] parse_render_fields [OF fields]
    by simp
qed (simp add: kgp_build_query_def)

theorem kgp_query_readable_witness:
  "\<exists>cmd. kgp_build_query 31 = Inr (cmd @ da1_build_query)"
  using kgp_query_readable [of 31] by auto

text \<open>C1: A probe is judged conformant exactly when the first reply with its correlation has
  status \<open>OK\<close> and stands before every barrier reply, of which there is at least one.\<close>

theorem kgp_conformant_iff:
  "assessed_conformance (kgp_assessment (kgp_parse_exchange enc input cid)) = Conformant \<longleftrightarrow>
     (\<exists>before reply after. kgp_observed enc input = before @ reply # after \<and>
        is_capability_reply reply \<and> correlates cid reply \<and>
        event_status (observed_wire reply) = Some ''OK'' \<and>
        list_all (\<lambda>e. \<not> is_barrier_reply e \<and> \<not> (is_capability_reply e \<and> correlates cid e)) before \<and>
        list_ex is_barrier_reply after)"
  unfolding kgp_exchange_observed
  by (rule conformant_order [OF kgp_observed_ordered])
    (simp add: is_barrier_reply_def is_capability_reply_def)

text \<open>Silence is never read as absence: a probe is judged available exactly when a graphics
  reply was observed, unavailable exactly when the barrier was observed and no graphics reply
  was, and unknown exactly when nothing was observed.\<close>

theorem kgp_availability_iff:
  "(assessed_availability (kgp_assessment (kgp_parse_exchange enc input cid)) = Available \<longleftrightarrow>
      list_ex is_capability_reply (kgp_observed enc input))
   \<and> (assessed_availability (kgp_assessment (kgp_parse_exchange enc input cid)) = Unavailable \<longleftrightarrow>
      barrier_seen (kgp_parse_exchange enc input cid) \<and>
      \<not> list_ex is_capability_reply (kgp_observed enc input))
   \<and> (assessed_availability (kgp_assessment (kgp_parse_exchange enc input cid)) = AvailabilityUnknown \<longleftrightarrow>
      kgp_events (kgp_parse_exchange enc input cid) = [])"
proof -
  have "kgp_observed enc input = [] \<longleftrightarrow> \<not> list_ex is_capability_reply (kgp_observed enc input) \<and>
      \<not> list_ex is_barrier_reply (kgp_observed enc input)"
    using kgp_observed_event(1) [of _ enc input]
    by (cases "kgp_observed enc input") (auto simp: list_ex_iff)
  then show ?thesis
    by (auto simp: kgp_exchange_observed kgp_assess_availability)
qed

text \<open>A conforming terminal is recognised whatever it prints around its replies: the reply
  \<open>i=<id>;OK\<close> and a later DA1 report, with bytes free of ESC before, between and after them, give
  two events, an available and conformant assessment, and both stop conditions.\<close>

theorem kgp_ok_exchange:
  assumes "ESC \<notin> set n0" "ESC \<notin> set n1" "ESC \<notin> set n2" "ps \<noteq> []"
  shows "let ex = kgp_parse_exchange enc
      (kgp_reply_stream n0 n1 n2 (kgp_reply_body cid ''OK'') ps) cid in
    map event_role (kgp_events ex) = [CapabilityReply, BarrierReply]
    \<and> map event_sequence (kgp_events ex) = [0, 1]
    \<and> assessed_availability (kgp_assessment ex) = Available
    \<and> assessed_conformance (kgp_assessment ex) = Conformant
    \<and> correlated_reply_seen ex \<and> barrier_seen ex"
  using assms by (rule kgp_ok_stream)

theorem kgp_ok_exchange_witness:
  "assessed_conformance (kgp_assessment (kgp_parse_exchange std_encode
     (kgp_reply_stream ''ab'' [] ''c'' (kgp_reply_body 31 ''OK'') [62, 4]) 31)) = Conformant"
  using kgp_ok_exchange [of "''ab''" "[]" "''c''" "[62, 4]" std_encode 31] by (simp add: Let_def)

text \<open>C11: A PNG transmission is complete and in bounds: the receiver reads from it a sequence of
  commands whose payloads are nonempty, at most 4096 bytes long and together decode to the PNG
  bytes; every command but the last announces more, the last does not; and the first carries the
  image number and the placement.\<close>

theorem png_display_roundtrip:
  assumes "standard_engine enc dec" "png \<noteq> []" "display_columns options \<noteq> 0"
    and "display_rows options \<noteq> 0" "image_number options \<noteq> 0"
  shows "\<exists>out cmds. encode_png_display enc png options = Inr out \<and>
    receive_commands out = Some cmds \<and> cmds \<noteq> [] \<and>
    dec (concat (map snd cmds)) = Some png \<and>
    list_all (\<lambda>cmd. snd cmd \<noteq> [] \<and> length (snd cmd) \<le> 4096) cmds \<and>
    map (\<lambda>cmd. fst cmd ''m'') cmds = replicate (length cmds - 1) (Some ''1'') @ [Some ''0''] \<and>
    fst (hd cmds) ''I'' = Some (dec_string (unat (image_number options))) \<and>
    fst (hd cmds) ''c'' = Some (dec_string (unat (display_columns options))) \<and>
    fst (hd cmds) ''r'' = Some (dec_string (unat (display_rows options)))"
proof -
  define cs where "cs = chunks 4096 (enc png)"
  have cs: "cs \<noteq> []" "concat cs = enc png" "list_all (\<lambda>c. c \<noteq> [] \<and> length c \<le> 4096) cs"
    using assms(2) standard_engine.enc_eq_Nil_iff [OF assms(1)] chunks_bounds [of 4096 _ "enc png"]
    by (auto simp: cs_def chunks_eq_Nil_iff concat_chunks list_all_iff)
  obtain k where k: "length cs = Suc k"
    using cs(1) by (cases cs) auto
  define cmds where "cmds = map (\<lambda>i. (chunk_fields options (Suc k) i, cs ! i)) [0..<Suc k]"
  have "list_all (\<lambda>c. ESC \<notin> set c) cs"
    using standard_engine.enc_no_ESC [OF assms(1), of png]
    by (auto simp: list_all_iff cs(2) [symmetric])
  then have "receive_commands (png_chunks options (Suc k) 0 cs) = Some cmds"
    by (simp add: receive_png_chunks cmds_def k)
  moreover have "encode_png_display enc png options = Inr (png_chunks options (Suc k) 0 cs)"
    using assms(2-5) by (simp add: encode_png_display_def cs_def [symmetric] k)
  moreover have "map snd cmds = cs"
    unfolding cmds_def k [symmetric] by (simp add: comp_def map_nth)
  moreover from this have "list_all (\<lambda>cmd. snd cmd \<noteq> [] \<and> length (snd cmd) \<le> 4096) cmds"
    using cs(3) by (auto simp: list.pred_map comp_def)
  moreover have "map (\<lambda>cmd. fst cmd ''m'') cmds = replicate k (Some ''1'') @ [Some ''0'']"
    using map_all_but_last [of k "Some ''1''" "Some ''0''"]
    by (simp add: cmds_def comp_def chunk_fields_m if_distrib [of Some] del: upt_Suc)
  moreover have "hd cmds = (chunk_fields options (Suc k) 0, cs ! 0)" "length cmds = Suc k"
    unfolding cmds_def by (simp_all add: upt_conv_Cons del: upt_Suc)
  moreover have "dec (enc png) = Some png"
    using assms(1) by (simp add: standard_engine_def base64_engine.dec_enc)
  ultimately show ?thesis
    using cs(2) by (intro exI [of _ "png_chunks options (Suc k) 0 cs"] exI [of _ cmds])
      (auto simp: chunk_fields_first)
qed

theorem png_display_roundtrip_witness:
  "\<exists>out cmds. encode_png_display std_encode ''abc'' \<lparr>image_number = 7, display_columns = 2,
      display_rows = 1\<rparr> = Inr out \<and> receive_commands out = Some cmds \<and>
    std_decode (concat (map snd cmds)) = Some ''abc''"
  using png_display_roundtrip [OF rfc_standard.standard_engine_axioms, of "''abc''"
      "\<lparr>image_number = 7, display_columns = 2, display_rows = 1\<rparr>"]
  by auto

end
