(* ===== verification/Sixel_Adapter.thy ===== *)
theory Sixel_Adapter
  imports Da1_Attributes Probe_Contract
begin

text \<open>
  Crate \<open>terminal-interop-sixel\<close>: Sixel is discovered from the DA1 report, extension 4.  The
  encoder itself is the \<open>icy_sixel\<close> crate; \<open>encode_rgba\<close> takes it as the argument \<open>sixel_encode\<close>,
  and its default options as an argument.
\<close>

section \<open>Operations\<close>

definition SIXEL_DA1_EXTENSION :: u16 where
  "SIXEL_DA1_EXTENSION = 4"

record sixel_exchange =
  sixel_events :: "wire_event list"
  sixel_assessment :: assessment
  response_seen :: bool
  sixel_advertised :: bool

definition sixel_protocol_id :: protocol_id where
  "sixel_protocol_id =
     \<lparr>protocol_namespace = ''org.dec'', protocol_name = ''sixel-raster-graphics'',
      protocol_revision = ''da1-extension-4-v1''\<rparr>"

definition sixel_capability_id :: capability_id where
  "sixel_capability_id =
     \<lparr>capability_protocol = sixel_protocol_id, capability_name = ''raster-image-display''\<rparr>"

definition sixel_adapter_identity :: "string \<Rightarrow> adapter_identity" where
  "sixel_adapter_identity ver =
     \<lparr>adapter_name = ''terminal-interop-sixel'', adapter_version = ver\<rparr>"

definition sixel_build_query :: bytes where
  "sixel_build_query = da1_build_query"

definition sixel_assertion :: "string \<Rightarrow> assertion_outcome \<Rightarrow> string \<Rightarrow> assertion_result" where
  "sixel_assertion ident out det =
     \<lparr>assertion_id = ident, assertion_outcome = out, assertion_detail = det\<rparr>"

definition sixel_assess :: "bool \<Rightarrow> bool \<Rightarrow> assessment" where
  "sixel_assess advertised seen =
     (if advertised then
        \<lparr>assessed_availability = Available, assessed_conformance = Conformant,
         assessed_assertions =
           [sixel_assertion ''sixel.da1.response'' Pass
              ''a valid primary device attributes response was observed'',
            sixel_assertion ''sixel.da1.extension-4'' Pass
              ''the response advertised Sixel extension identifier 4'']\<rparr>
      else if seen then
        \<lparr>assessed_availability = Unavailable, assessed_conformance = ConformanceNotApplicable,
         assessed_assertions =
           [sixel_assertion ''sixel.da1.response'' Pass
              ''a valid primary device attributes response was observed'',
            sixel_assertion ''sixel.da1.extension-4'' OutcomeNotApplicable
              ''the response did not advertise Sixel extension identifier 4'']\<rparr>
      else
        \<lparr>assessed_availability = AvailabilityUnknown, assessed_conformance = Inconclusive,
         assessed_assertions =
           [sixel_assertion ''sixel.da1.response'' OutcomeUnknown
              ''no complete primary device attributes response was observed'',
            sixel_assertion ''sixel.da1.extension-4'' OutcomeUnknown
              ''Sixel advertisement cannot be evaluated without a DA1 response'']\<rparr>)"

text \<open>\<open>iter().enumerate().map(...)\<close> over the responses.\<close>

definition da1_events :: "wire_event_role \<Rightarrow> da1_response list \<Rightarrow> wire_event list" where
  "da1_events role responses =
     map (\<lambda>(index, r). da1_wire_event r (u32_of_usize index) role) (enumerate 0 responses)"

definition sixel_parse_exchange :: "(bytes \<Rightarrow> string) \<Rightarrow> bytes \<Rightarrow> sixel_exchange" where
  "sixel_parse_exchange enc input =
     (let responses = parse_responses enc input;
          seen = (responses \<noteq> []);
          advertised = list_ex (\<lambda>r. advertises r SIXEL_DA1_EXTENSION) responses
      in \<lparr>sixel_events = da1_events CapabilityReply responses,
          sixel_assessment = sixel_assess advertised seen,
          response_seen = seen, sixel_advertised = advertised\<rparr>)"

definition encode_rgba ::
  "(bytes \<Rightarrow> nat \<Rightarrow> nat \<Rightarrow> 'opts \<Rightarrow> 'err + string) \<Rightarrow> bytes \<Rightarrow> nat \<Rightarrow> nat \<Rightarrow> 'opts \<Rightarrow> 'err + bytes"
where
  "encode_rgba sixel_encode rgba width height options =
     try_bind (sixel_encode rgba width height options) Inr"

definition encode_rgba_default ::
  "(bytes \<Rightarrow> nat \<Rightarrow> nat \<Rightarrow> 'opts \<Rightarrow> 'err + string) \<Rightarrow> 'opts \<Rightarrow> bytes \<Rightarrow> nat \<Rightarrow> nat \<Rightarrow> 'err + bytes"
where
  "encode_rgba_default sixel_encode default_options rgba width height =
     encode_rgba sixel_encode rgba width height default_options"

section \<open>Lemmas\<close>

lemma length_da1_events [simp]: "length (da1_events role rs) = length rs"
  by (simp add: da1_events_def)

lemma da1_events_nth:
  "i < length rs \<Longrightarrow> da1_events role rs ! i = da1_wire_event (rs ! i) (u32_of_usize i) role"
  by (simp add: da1_events_def nth_enumerate_eq)

lemma da1_events_canonical: "events_canonical 0 (da1_events role rs)"
  by (simp add: events_canonical_def da1_events_nth)

lemma da1_events_quoted:
  assumes "e \<in> set (da1_events role (parse_responses enc input))"
  shows "\<exists>i j raw. get_range input i j = Some raw \<and> event_raw_base64 e = enc raw"
proof -
  obtain i where i: "i < length (parse_responses enc input)"
    "e = da1_wire_event (parse_responses enc input ! i) (u32_of_usize i) role"
    using assms by (auto simp: in_set_conv_nth da1_events_nth)
  then have "parse_response_at enc input (da1_offset (parse_responses enc input ! i)) =
      Some (parse_responses enc input ! i)"
    by (simp add: parse_responses_sound)
  from da1_raw [OF this] i(2) show ?thesis by auto
qed

interpretation sixel_probe: probe_adapter enc
  "\<lambda>response. sixel_events (sixel_parse_exchange enc response)" for enc
  by unfold_locales (simp_all add: sixel_parse_exchange_def Let_def da1_events_canonical
      da1_events_quoted)

lemma sixel_assess_simps [simp]:
  "assessed_availability (sixel_assess advertised seen) =
     (if advertised then Available else if seen then Unavailable else AvailabilityUnknown)"
  "assessed_conformance (sixel_assess advertised seen) =
     (if advertised then Conformant else if seen then ConformanceNotApplicable else Inconclusive)"
  by (simp_all only: sixel_assess_def assessment.select_convs split: if_split) simp_all

lemma advertised_extend:
  "list_ex P (parse_responses enc input) \<Longrightarrow> list_ex P (parse_responses enc (input @ ys))"
  using set_mono_prefix [OF parse_responses_extend [of enc input ys]] by (auto simp: list_ex_iff)

section \<open>Properties\<close>

text \<open>C28: Sixel is judged available and conformant exactly when some complete DA1 response in the
  stream lists extension 4 after its device level, unavailable exactly when there are responses
  but none does, and unknown exactly when there is no response.\<close>

theorem sixel_verdict_iff:
  "(assessed_availability (sixel_assessment (sixel_parse_exchange enc input)) = Available \<longleftrightarrow>
      list_ex (\<lambda>r. 4 \<in> set (tl (da1_parameters r))) (parse_responses enc input))
   \<and> (assessed_conformance (sixel_assessment (sixel_parse_exchange enc input)) = Conformant \<longleftrightarrow>
      list_ex (\<lambda>r. 4 \<in> set (tl (da1_parameters r))) (parse_responses enc input))
   \<and> (assessed_availability (sixel_assessment (sixel_parse_exchange enc input)) = AvailabilityUnknown \<longleftrightarrow>
      parse_responses enc input = [])"
proof -
  have "advertises r e \<longleftrightarrow> e \<in> set (tl (da1_parameters r))" for r e
    by (cases "da1_parameters r") (auto simp: advertises_def get_from_def)
  then show ?thesis
    by (auto simp: sixel_parse_exchange_def Let_def SIXEL_DA1_EXTENSION_def list_ex_iff)
qed

text \<open>A verdict of available is final, and so is the sight of a response: bytes that arrive
  later cannot take either back.\<close>

theorem sixel_verdict_stable:
  "(sixel_advertised (sixel_parse_exchange enc input) \<longrightarrow>
      assessed_availability (sixel_assessment (sixel_parse_exchange enc (input @ ys))) = Available)
   \<and> (response_seen (sixel_parse_exchange enc input) \<longrightarrow>
      assessed_availability (sixel_assessment (sixel_parse_exchange enc (input @ ys)))
        \<noteq> AvailabilityUnknown)
   \<and> prefix (sixel_events (sixel_parse_exchange enc input))
      (sixel_events (sixel_parse_exchange enc (input @ ys)))"
proof -
  obtain zs where zs: "parse_responses enc (input @ ys) = parse_responses enc input @ zs"
    using parse_responses_extend [of enc input ys] by (auto simp: prefix_def)
  have "prefix (da1_events role rs) (da1_events role (rs @ zs))" for role rs
    by (simp add: da1_events_def enumerate_append_eq)
  then show ?thesis
    by (auto simp: sixel_parse_exchange_def Let_def zs)
qed

lemma sixel_reply_seen:
  assumes "ps \<noteq> []"
  shows "\<exists>r\<in>set (parse_responses enc (da1_reply (render_parameters ps))). da1_parameters r = ps"
proof -
  have "map da1_parameters (parse_responses enc (da1_stream [] [(ps, [])])) = [ps]"
    using da1_stream_roundtrip_aux [of "[]" "[(ps, [])]" enc] assms by simp
  then show ?thesis
    by (auto simp: da1_stream_def da1_segment_def)
qed

theorem sixel_verdict_stable_witness:
  "assessed_availability (sixel_assessment (sixel_parse_exchange std_encode
     (da1_reply (render_parameters [62, 4]) @ ''noise''))) = Available"
proof -
  have "sixel_advertised (sixel_parse_exchange std_encode (da1_reply (render_parameters [62, 4])))"
    using sixel_reply_seen [of "[62, 4]" std_encode]
    by (auto simp: sixel_parse_exchange_def Let_def list_ex_iff advertises_def get_from_def
        SIXEL_DA1_EXTENSION_def intro!: bexI)
  then show ?thesis
    using sixel_verdict_stable [of std_encode "da1_reply (render_parameters [62, 4])" "''noise''"]
    by blast
qed

end
