(* ===== verification/Artifact_Prep.thy ===== *)
theory Artifact_Prep
  imports Core_Contracts Utf8_Text
begin

text \<open>
  Crate \<open>terminal-interop-artifact\<close>: decoding limits, the placement of an image in a viewport, and
  the conversion of text bytes into terminal-safe text.  Placement is computed on 64-bit words
  with the saturating operations of the source; \<open>fit_nat\<close> is the computation on natural numbers
  that it refines.  The functions of the \<open>image\<close> crate are arguments.
\<close>

section \<open>Data\<close>

definition DEFAULT_MAX_INPUT_BYTES :: nat where
  "DEFAULT_MAX_INPUT_BYTES = MAX_ARTIFACT_INPUT_BYTES_V1"

definition DEFAULT_MAX_DECODED_BYTES :: u64 where
  "DEFAULT_MAX_DECODED_BYTES = 256 * 1024 * 1024"

definition DEFAULT_MAX_DIMENSION :: u32 where
  "DEFAULT_MAX_DIMENSION = 16384"

record raster_limits =
  max_input_bytes :: nat
  max_dimension :: u32
  max_decoded_bytes :: u64

definition default_raster_limits :: raster_limits where
  "default_raster_limits =
     \<lparr>max_input_bytes = DEFAULT_MAX_INPUT_BYTES, max_dimension = DEFAULT_MAX_DIMENSION,
      max_decoded_bytes = DEFAULT_MAX_DECODED_BYTES\<rparr>"

record raster_artifact =
  artifact_width :: u32
  artifact_height :: u32
  artifact_rgba :: bytes
  artifact_png :: bytes

record viewport =
  viewport_columns :: u16
  viewport_rows :: u16
  viewport_pixel_width :: "u32 option"
  viewport_pixel_height :: "u32 option"

record raster_placement =
  placement_columns :: u16
  placement_rows :: u16
  placement_pixel_width :: u32
  placement_pixel_height :: u32

datatype 'img artifact_error =
    InputLimit nat nat
  | Image 'img
  | EmptyViewport
  | EmptyRasterTarget
  | InvalidRasterState
  | UnsupportedArtifact

section \<open>Decoding\<close>

record decoder_limits =
  max_image_width :: "u32 option"
  max_image_height :: "u32 option"
  max_alloc :: "u64 option"

definition decode_raster ::
  "(bytes \<Rightarrow> 'io + 'fmt) \<Rightarrow> ('io \<Rightarrow> 'img) \<Rightarrow>
   ('fmt \<Rightarrow> decoder_limits \<Rightarrow> bytes \<Rightarrow> 'img + (u32 \<times> u32 \<times> bytes)) \<Rightarrow>
   (bytes \<Rightarrow> u32 \<Rightarrow> u32 \<Rightarrow> 'img + bytes) \<Rightarrow>
   bytes \<Rightarrow> raster_limits \<Rightarrow> 'img artifact_error + raster_artifact" where
  "decode_raster guess_format io_error decode_rgba8 encode_png input limits =
     (if max_input_bytes limits < length input
      then Inl (InputLimit (length input) (max_input_bytes limits))
      else try_bind (map_err (\<lambda>e. Image (io_error e)) (guess_format input))
        (\<lambda>format.
          let dl = \<lparr>max_image_width = Some (max_dimension limits),
                    max_image_height = Some (max_dimension limits),
                    max_alloc = Some (max_decoded_bytes limits)\<rparr>
          in try_bind (map_err Image (decode_rgba8 format dl input))
            (\<lambda>(width, height, rgba).
              try_bind (map_err Image (encode_png rgba width height))
                (\<lambda>png. Inr \<lparr>artifact_width = width, artifact_height = height,
                            artifact_rgba = rgba, artifact_png = png\<rparr>))))"

definition resize_rgba ::
  "(u32 \<Rightarrow> u32 \<Rightarrow> bytes \<Rightarrow> 'buf option) \<Rightarrow> ('buf \<Rightarrow> u32 \<Rightarrow> u32 \<Rightarrow> bytes) \<Rightarrow>
   raster_artifact \<Rightarrow> u32 \<Rightarrow> u32 \<Rightarrow> 'img artifact_error + bytes" where
  "resize_rgba from_raw resize_lanczos a width height =
     (if width = 0 \<or> height = 0 then Inl EmptyRasterTarget
      else try_bind
        (ok_or InvalidRasterState
          (from_raw (artifact_width a) (artifact_height a) (artifact_rgba a)))
        (\<lambda>source. Inr (resize_lanczos source width height)))"

section \<open>Placement\<close>

definition u64_from16 :: "u16 \<Rightarrow> u64" where
  "u64_from16 w = ucast w"

definition u64_from32 :: "u32 \<Rightarrow> u64" where
  "u64_from32 w = ucast w"

definition clamp :: "u64 \<Rightarrow> u64 \<Rightarrow> u64 \<Rightarrow> u64" where
  "clamp x lo hi = (if x < lo then lo else if hi < x then hi else x)"

definition unwrap_or :: "'a option \<Rightarrow> 'a \<Rightarrow> 'a" where
  "unwrap_or m d = (case m of None \<Rightarrow> d | Some a \<Rightarrow> a)"

definition u16_try_from :: "u64 \<Rightarrow> u16 option" where
  "u16_try_from w = (if unat w < 2 ^ 16 then Some (ucast w) else None)"

definition u32_try_from :: "u64 \<Rightarrow> u32 option" where
  "u32_try_from w = (if unat w < 2 ^ 32 then Some (ucast w) else None)"

definition positive :: "u32 option \<Rightarrow> u64 option" where
  "positive m = (case m of None \<Rightarrow> None | Some v \<Rightarrow> if 0 < v then Some (u64_from32 v) else None)"

text \<open>The pixel sizes of the source, in its order of computation.\<close>

definition scaled_size :: "u64 \<Rightarrow> u64 \<Rightarrow> u64 \<Rightarrow> u64 \<Rightarrow> u64 \<times> u64" where
  "scaled_size source_width source_height available_pixel_width available_pixel_height =
     (if sat_mul source_height available_pixel_width < sat_mul source_width available_pixel_height
      then
        (let width = min source_width available_pixel_width;
             height = max (unwrap_or (checked_div (sat_mul source_height width) source_width) 0) 1
         in (width, height))
      else
        (let height = min source_height available_pixel_height;
             width = max (unwrap_or (checked_div (sat_mul source_width height) source_height) 0) 1
         in (width, height)))"

definition available_width :: "viewport \<Rightarrow> u64" where
  "available_width view =
     unwrap_or (positive (viewport_pixel_width view))
       (sat_mul (u64_from16 (viewport_columns view)) 8)"

definition full_height :: "viewport \<Rightarrow> u64" where
  "full_height view =
     unwrap_or (positive (viewport_pixel_height view))
       (sat_mul (u64_from16 (viewport_rows view)) 16)"

definition fit_raster ::
  "u32 \<Rightarrow> u32 \<Rightarrow> viewport \<Rightarrow> u16 \<Rightarrow> 'img artifact_error + raster_placement" where
  "fit_raster image_width image_height view reserved_rows =
     (let available_rows = sat_sub (viewport_rows view) reserved_rows in
      if viewport_columns view = 0 \<or> available_rows = 0 \<or> image_width = 0 \<or> image_height = 0
      then Inl EmptyViewport
      else
        let view_columns = u64_from16 (viewport_columns view);
            view_rows = u64_from16 (viewport_rows view);
            available_pixel_width = available_width view;
            full_pixel_height = full_height view;
            available_pixel_height =
              max (unwrap_or
                (checked_div (sat_mul full_pixel_height (u64_from16 available_rows)) view_rows) 0) 1;
            (pixel_width, pixel_height) =
              scaled_size (u64_from32 image_width) (u64_from32 image_height)
                available_pixel_width available_pixel_height;
            columns = clamp
              (unwrap_or (checked_div
                (sat_add (sat_mul pixel_width view_columns) (sat_sub available_pixel_width 1))
                available_pixel_width) 0) 1 view_columns;
            rows = clamp
              (unwrap_or (checked_div
                (sat_add (sat_mul pixel_height view_rows) (sat_sub full_pixel_height 1))
                full_pixel_height) 0) 1 (u64_from16 available_rows)
        in Inr
          \<lparr>placement_columns = unwrap_or (u16_try_from columns) (viewport_columns view),
           placement_rows = unwrap_or (u16_try_from rows) available_rows,
           placement_pixel_width = unwrap_or (u32_try_from pixel_width) (- 1),
           placement_pixel_height = unwrap_or (u32_try_from pixel_height) (- 1)\<rparr>)"

section \<open>The placement on natural numbers\<close>

text \<open>
  The specification.  \<open>w\<close>, \<open>h\<close> are the image, \<open>cols\<close>, \<open>rows\<close> the viewport in cells, \<open>avail\<close> the
  rows that are not reserved, \<open>pw\<close>, \<open>ph\<close> the viewport in pixels.
\<close>

definition ceil_div :: "nat \<Rightarrow> nat \<Rightarrow> nat" where
  "ceil_div a b = (a + (b - 1)) div b"

definition scaled_nat :: "nat \<Rightarrow> nat \<Rightarrow> nat \<Rightarrow> nat \<Rightarrow> nat \<times> nat" where
  "scaled_nat w h pw ph =
     (if h * pw < w * ph then (min w pw, max 1 (h * min w pw div w))
      else (max 1 (w * min h ph div h), min h ph))"

definition fit_nat :: "nat \<Rightarrow> nat \<Rightarrow> nat \<Rightarrow> nat \<Rightarrow> nat \<Rightarrow> nat \<Rightarrow> nat \<Rightarrow> nat \<times> nat \<times> nat \<times> nat" where
  "fit_nat w h cols rows avail pw ph =
     (let (x, y) = scaled_nat w h pw (max 1 (ph * avail div rows))
      in (ceil_div (x * cols) pw, min avail (ceil_div (y * rows) ph), x, y))"

lemma scaled_nat_bounds:
  assumes "0 < w" "0 < h" "0 < pw" "0 < ph" "scaled_nat w h pw ph = (x, y)"
  shows "0 < x" "x \<le> w" "x \<le> pw" "0 < y" "y \<le> h" "y \<le> ph"
proof -
  have "0 < x \<and> x \<le> w \<and> x \<le> pw \<and> 0 < y \<and> y \<le> h \<and> y \<le> ph"
  proof (cases "h * pw < w * ph")
    case True
    then have xy: "x = min w pw" "y = max 1 (h * min w pw div w)"
      using assms(5) by (auto simp: scaled_nat_def)
    have "h * min w pw div w \<le> h"
      using assms(1) by (metis div_le_mono min.cobounded1 mult_le_mono2 nonzero_mult_div_cancel_right
          not_less0)
    moreover have "h * min w pw div w \<le> ph"
    proof -
      have "h * min w pw \<le> h * pw"
        by simp
      also have "\<dots> \<le> ph * w"
        using True by (simp add: mult.commute)
      finally have "h * min w pw div w \<le> ph * w div w"
        by (rule div_le_mono)
      then show ?thesis
        using assms(1) by simp
    qed
    ultimately show ?thesis
      using assms xy by simp
  next
    case False
    then have xy: "y = min h ph" "x = max 1 (w * min h ph div h)"
      using assms(5) by (auto simp: scaled_nat_def)
    have "w * min h ph div h \<le> w"
      using assms(2) by (metis div_le_mono min.cobounded1 mult_le_mono2 nonzero_mult_div_cancel_right
          not_less0)
    moreover have "w * min h ph div h \<le> pw"
    proof -
      have "w * min h ph \<le> w * ph"
        by simp
      also have "\<dots> \<le> pw * h"
        using False by (simp add: mult.commute)
      finally have "w * min h ph div h \<le> pw * h div h"
        by (rule div_le_mono)
      then show ?thesis
        using assms(2) by simp
    qed
    ultimately show ?thesis
      using assms xy by simp
  qed
  then show "0 < x" "x \<le> w" "x \<le> pw" "0 < y" "y \<le> h" "y \<le> ph"
    by simp_all
qed

text \<open>The ceiling of a quotient is between one and the bound of the quotient.\<close>

lemma ceil_div_pos: "0 < a \<Longrightarrow> 0 < b \<Longrightarrow> 0 < ceil_div a b"
  by (simp add: ceil_div_def div_greater_zero_iff)

lemma ceil_div_le: "0 < b \<Longrightarrow> a \<le> c * b \<Longrightarrow> ceil_div a b \<le> c"
proof -
  assume "0 < b" "a \<le> c * b"
  then have "a + (b - 1) < (c + 1) * b"
    by simp
  then have "(a + (b - 1)) div b < c + 1"
    by (rule less_mult_imp_div_less)
  then show ?thesis
    by (simp add: ceil_div_def)
qed

lemma scaled_columns_le:
  assumes "0 < pw" "x \<le> pw"
  shows "ceil_div (x * cols) pw \<le> cols"
  using assms by (intro ceil_div_le) (simp_all add: mult.commute)

section \<open>The word computation refines the specification\<close>

lemma unat_from_small [simp]:
  "unat (u64_from16 a) = unat a" "unat (u64_from32 b) = unat b"
proof -
  have "unat a < 2 ^ 16" "unat b < 2 ^ 32"
    using unsigned_less [of a, where ?'a = nat] unsigned_less [of b, where ?'a = nat] by simp_all
  then show "unat (u64_from16 a) = unat a" "unat (u64_from32 b) = unat b"
    by (simp_all add: u64_from16_def u64_from32_def unsigned_ucast_eq take_bit_nat_eq_self)
qed

lemma unat_small: "unat (a :: u16) < 2 ^ 16" "unat (b :: u32) < 2 ^ 32"
  using unsigned_less [of a, where ?'a = nat] unsigned_less [of b, where ?'a = nat] by simp_all

lemma unat_max: "unat (max a b) = max (unat a) (unat b)" for a b :: "'a::len word"
  by (simp add: max_def word_le_nat_alt)

lemma unat_min: "unat (min a b) = min (unat a) (unat b)" for a b :: "'a::len word"
  by (simp add: min_def word_le_nat_alt)

lemma unat_clamp: "unat (clamp x lo hi) = (if unat x < unat lo then unat lo else min (unat x) (unat hi))"
  by (auto simp: clamp_def word_less_nat_alt)

lemma unat_checked_div: "unat (unwrap_or (checked_div a b) 0) = unat a div unat b"
  for a b :: "'a::len word"
  by (cases "b = 0") (simp_all add: checked_div_def unwrap_or_def unat_div)

lemma mul_small:
  fixes a b :: nat
  assumes "a < 2 ^ 32" "b < 2 ^ 32"
  shows "a * b \<le> 2 ^ 64 - 2 ^ 33 + 1"
proof -
  have "a * b \<le> (2 ^ 32 - 1) * (2 ^ 32 - 1)"
    using assms by (intro mult_le_mono) simp_all
  then show ?thesis by simp
qed

lemma unat_sat_mul_small:
  fixes a b :: u64
  assumes "unat a < 2 ^ 32" "unat b < 2 ^ 32"
  shows "unat (sat_mul a b) = unat a * unat b"
  using mul_small [OF assms] by (simp add: unat_sat_mul)

lemma unat_sat_add_small:
  fixes a b :: u64
  assumes "unat a \<le> 2 ^ 64 - 2 ^ 33 + 1" "unat b < 2 ^ 32"
  shows "unat (sat_add a b) = unat a + unat b"
  using assms by (simp add: unat_sat_add)

lemma positive_bounds: "positive m = Some v \<Longrightarrow> 0 < unat v \<and> unat v < 2 ^ 32"
  using unat_small(2) by (auto simp: positive_def word_less_nat_alt split: option.splits if_splits)

lemma available_width_bounds:
  "viewport_columns view \<noteq> 0 \<Longrightarrow> 0 < unat (available_width view) \<and> unat (available_width view) < 2 ^ 32"
  using unat_small(1) [of "viewport_columns view"] positive_bounds [of "viewport_pixel_width view"]
  by (cases "positive (viewport_pixel_width view)")
    (auto simp: available_width_def unwrap_or_def unat_sat_mul_small word_neq_0_conv [symmetric]
      unat_eq_zero simp flip: unat_gt_0)

lemma full_height_bounds:
  "viewport_rows view \<noteq> 0 \<Longrightarrow> 0 < unat (full_height view) \<and> unat (full_height view) < 2 ^ 32"
  using unat_small(1) [of "viewport_rows view"] positive_bounds [of "viewport_pixel_height view"]
  by (cases "positive (viewport_pixel_height view)")
    (auto simp: full_height_def unwrap_or_def unat_sat_mul_small word_neq_0_conv [symmetric]
      unat_eq_zero simp flip: unat_gt_0)

lemma scaled_size_refines:
  assumes "unat w < 2 ^ 32" "unat h < 2 ^ 32" "unat pw < 2 ^ 32" "unat ph < 2 ^ 32"
  shows "(unat (fst (scaled_size w h pw ph)), unat (snd (scaled_size w h pw ph))) =
    scaled_nat (unat w) (unat h) (unat pw) (unat ph)"
proof -
  have "unat (sat_mul h pw) = unat h * unat pw" "unat (sat_mul w ph) = unat w * unat ph"
    "unat (sat_mul h (min w pw)) = unat h * min (unat w) (unat pw)"
    "unat (sat_mul w (min h ph)) = unat w * min (unat h) (unat ph)"
    using assms by (simp_all add: unat_sat_mul_small unat_min)
  then show ?thesis
    by (simp add: scaled_size_def scaled_nat_def Let_def word_less_nat_alt unat_max unat_min
        unat_checked_div max.commute)
qed

lemma available_rows_le: "unat (sat_sub rows reserved) \<le> unat rows" for rows :: u16
  by (simp add: unat_sat_sub)

lemma unat_try_from:
  "unat x \<le> unat d \<Longrightarrow> unat (unwrap_or (u16_try_from x) d) = unat x"
  "unat y < 2 ^ 32 \<Longrightarrow> unat (unwrap_or (u32_try_from y) e) = unat y"
  using unat_small(1) [of d]
  by (simp_all add: u16_try_from_def u32_try_from_def unwrap_or_def unsigned_ucast_eq
      take_bit_nat_eq_self)

lemma unat_ceil:
  fixes x c p :: u64
  assumes "unat x < 2 ^ 32" "unat c < 2 ^ 32" "unat p < 2 ^ 32"
  shows "unat (unwrap_or (checked_div (sat_add (sat_mul x c) (sat_sub p 1)) p) 0) =
    ceil_div (unat x * unat c) (unat p)"
proof -
  have "unat (sat_mul x c) = unat x * unat c" "unat (sat_mul x c) \<le> 2 ^ 64 - 2 ^ 33 + 1"
    using assms mul_small by (simp_all add: unat_sat_mul_small)
  moreover have "unat (sat_sub p 1) < 2 ^ 32"
    using assms by (simp add: unat_sat_sub)
  ultimately show ?thesis
    by (simp add: unat_checked_div unat_sat_add_small unat_sat_sub ceil_div_def)
qed

text \<open>The parts of the placement: its height in pixels, its columns and its rows.\<close>

definition available_height :: "u64 \<Rightarrow> u16 \<Rightarrow> u16 \<Rightarrow> u64" where
  "available_height height available rows =
     max (unwrap_or (checked_div (sat_mul height (u64_from16 available)) (u64_from16 rows)) 0) 1"

definition cells_for :: "u64 \<Rightarrow> u64 \<Rightarrow> u64 \<Rightarrow> u64" where
  "cells_for pixels cells extent =
     unwrap_or (checked_div (sat_add (sat_mul pixels cells) (sat_sub extent 1)) extent) 0"

lemma unat_available_height:
  assumes "unat height < 2 ^ 32" "0 < unat height" "unat available \<le> unat rows" "0 < unat rows"
  shows "unat (available_height height available rows) = max 1 (unat height * unat available div unat rows)"
    "0 < unat (available_height height available rows)" "unat (available_height height available rows) < 2 ^ 32"
proof -
  show eq: "unat (available_height height available rows) = max 1 (unat height * unat available div unat rows)"
    using assms(1) unat_small(1) [of available]
    by (simp add: available_height_def unat_max unat_checked_div unat_sat_mul_small max.commute)
  have "unat height * unat available div unat rows \<le> unat height * unat rows div unat rows"
    using assms(3) by (intro div_le_mono mult_le_mono2)
  then show "0 < unat (available_height height available rows)"
    "unat (available_height height available rows) < 2 ^ 32"
    using assms(1,4) by (simp_all add: eq)
qed

lemma unat_placement_columns:
  assumes "unat x < 2 ^ 32" "0 < unat x" "unat x \<le> unat pw" "unat pw < 2 ^ 32" "0 < unat columns"
  shows "unat (clamp (cells_for x (u64_from16 columns) pw) 1 (u64_from16 columns)) =
      ceil_div (unat x * unat columns) (unat pw)"
    "unat (clamp (cells_for x (u64_from16 columns) pw) 1 (u64_from16 columns)) \<le> unat columns"
proof -
  have "unat (cells_for x (u64_from16 columns) pw) = ceil_div (unat x * unat columns) (unat pw)"
    using unat_ceil [OF assms(1) _ assms(4), of "u64_from16 columns"] unat_small(1) [of columns]
    by (simp add: cells_for_def)
  then show "unat (clamp (cells_for x (u64_from16 columns) pw) 1 (u64_from16 columns)) =
      ceil_div (unat x * unat columns) (unat pw)"
    "unat (clamp (cells_for x (u64_from16 columns) pw) 1 (u64_from16 columns)) \<le> unat columns"
    using scaled_columns_le [of "unat pw" "unat x" "unat columns"] assms
      ceil_div_pos [of "unat x * unat columns" "unat pw"]
    by (auto simp: unat_clamp)
qed

lemma unat_placement_rows:
  assumes "unat y < 2 ^ 32" "0 < unat y" "unat fh < 2 ^ 32" "0 < unat fh" "0 < unat rows" "0 < unat available"
  shows "unat (clamp (cells_for y (u64_from16 rows) fh) 1 (u64_from16 available)) =
      min (unat available) (ceil_div (unat y * unat rows) (unat fh))"
proof -
  have "unat (cells_for y (u64_from16 rows) fh) = ceil_div (unat y * unat rows) (unat fh)"
    using unat_ceil [OF assms(1) _ assms(3), of "u64_from16 rows"] unat_small(1) [of rows]
    by (simp add: cells_for_def)
  then show ?thesis
    using ceil_div_pos [of "unat y * unat rows" "unat fh"] assms by (auto simp: unat_clamp min.commute)
qed

lemma fit_raster_refines_aux:
  assumes cols: "viewport_columns view \<noteq> 0" and avail: "sat_sub (viewport_rows view) reserved \<noteq> 0"
    and image: "iw \<noteq> 0" "ih \<noteq> 0"
  shows "\<exists>p. fit_raster iw ih view reserved = Inr p \<and>
    (unat (placement_columns p), unat (placement_rows p), unat (placement_pixel_width p),
      unat (placement_pixel_height p)) =
    fit_nat (unat iw) (unat ih) (unat (viewport_columns view)) (unat (viewport_rows view))
      (unat (viewport_rows view) - unat reserved) (unat (available_width view))
      (unat (full_height view))"
proof -
  let ?c = "viewport_columns view" and ?r = "viewport_rows view"
  let ?pw = "available_width view" and ?fh = "full_height view"
  define av where "av = sat_sub ?r reserved"
  define ph where "ph = available_height ?fh av ?r"
  obtain x y where xy: "scaled_size (u64_from32 iw) (u64_from32 ih) ?pw ph = (x, y)"
    by fastforce
  have av: "unat av = unat ?r - unat reserved" "0 < unat av"
    using avail unat_gt_0 [of "sat_sub ?r reserved"] by (simp_all only: av_def unat_sat_sub simp_thms)
  then have pos: "0 < unat ?r" "0 < unat ?c" "0 < unat iw" "0 < unat ih"
    using cols image by (auto simp: unat_gt_0)
  note pw = available_width_bounds [OF cols]
  have "?r \<noteq> 0"
    using pos(1) by auto
  then have fh: "0 < unat ?fh" "unat ?fh < 2 ^ 32"
    using full_height_bounds [of view] by simp_all
  have ph: "unat ph = max 1 (unat ?fh * unat av div unat ?r)" "0 < unat ph" "unat ph < 2 ^ 32"
    using unat_available_height [OF fh(2,1) _ pos(1), of av] av(1) by (simp_all add: ph_def)
  have nat: "(unat x, unat y) = scaled_nat (unat iw) (unat ih) (unat ?pw) (unat ph)"
    using scaled_size_refines [of "u64_from32 iw" "u64_from32 ih" ?pw ph] unat_small(2) pw ph xy by simp
  note b = scaled_nat_bounds [OF pos(3,4) conjunct1 [OF pw] ph(2) nat [symmetric]]
  have lt: "unat x < 2 ^ 32" "unat y < 2 ^ 32"
    using b unat_small(2) [of iw] unat_small(2) [of ih] by simp_all
  note cc = unat_placement_columns [OF lt(1) b(1,3) conjunct2 [OF pw] pos(2)]
  note rr = unat_placement_rows [OF lt(2) b(4) fh(2,1) pos(1) av(2)]
  let ?p = "\<lparr>placement_columns = unwrap_or (u16_try_from (clamp (cells_for x (u64_from16 ?c) ?pw) 1 (u64_from16 ?c))) ?c,
           placement_rows = unwrap_or (u16_try_from (clamp (cells_for y (u64_from16 ?r) ?fh) 1 (u64_from16 av))) av,
           placement_pixel_width = unwrap_or (u32_try_from x) (- 1),
           placement_pixel_height = unwrap_or (u32_try_from y) (- 1)\<rparr>"
  have "fit_raster iw ih view reserved = Inr ?p"
    using cols avail image xy
    by (simp add: fit_raster_def Let_def av_def [symmetric] ph_def available_height_def cells_for_def)
  moreover have "fit_nat (unat iw) (unat ih) (unat ?c) (unat ?r) (unat av) (unat ?pw) (unat ?fh) =
      (ceil_div (unat x * unat ?c) (unat ?pw), min (unat av) (ceil_div (unat y * unat ?r) (unat ?fh)), unat x, unat y)"
    unfolding fit_nat_def ph(1) [symmetric] nat [symmetric] by simp
  ultimately show ?thesis
    using cc rr lt by (intro exI [of _ ?p]) (simp add: unat_try_from av(1) [symmetric])
qed

lemma fit_raster_Inr_cases:
  assumes "fit_raster iw ih view reserved = Inr p"
  shows "viewport_columns view \<noteq> 0" "sat_sub (viewport_rows view) reserved \<noteq> 0" "iw \<noteq> 0" "ih \<noteq> 0"
  using assms by (auto simp: fit_raster_def Let_def split: if_splits)

lemma fit_raster_Inr:
  assumes "fit_raster iw ih view reserved = Inr p"
  obtains x y where
    "(x, y) = scaled_nat (unat iw) (unat ih) (unat (available_width view))
      (max 1 (unat (full_height view) * (unat (viewport_rows view) - unat reserved)
        div unat (viewport_rows view)))"
    "unat (placement_columns p) = ceil_div (x * unat (viewport_columns view)) (unat (available_width view))"
    "unat (placement_rows p) = min (unat (viewport_rows view) - unat reserved)
      (ceil_div (y * unat (viewport_rows view)) (unat (full_height view)))"
    "unat (placement_pixel_width p) = x" "unat (placement_pixel_height p) = y"
proof -
  note c = fit_raster_Inr_cases [OF assms]
  obtain q where "fit_raster iw ih view reserved = (Inr q :: 'a artifact_error + raster_placement)"
    and q: "(unat (placement_columns q), unat (placement_rows q), unat (placement_pixel_width q),
      unat (placement_pixel_height q)) =
    fit_nat (unat iw) (unat ih) (unat (viewport_columns view)) (unat (viewport_rows view))
      (unat (viewport_rows view) - unat reserved) (unat (available_width view))
      (unat (full_height view))"
    using fit_raster_refines_aux [OF c] by blast
  then have "q = p"
    using assms by simp
  with q that show ?thesis
    by (auto simp: fit_nat_def split: prod.splits)
qed

section \<open>Text\<close>

definition sanitize_char :: "nat \<Rightarrow> nat" where
  "sanitize_char c =
     (if c \<in> {0x0A, 0x0D, 0x09} then c
      else if c = 0x1B then 0x241B
      else if is_control c then 0xFFFD
      else c)"

text \<open>The closing line of a truncated preview starts with the ellipsis U+2026.\<close>

definition truncation_note :: string where
  "truncation_note = [CHR 0x0A] @ encode_char 0x2026 @ '' [preview truncated]'' @ [CHR 0x0A]"

definition sanitize_text :: "bytes \<Rightarrow> nat \<Rightarrow> 'img artifact_error + string" where
  "sanitize_text input max_bytes =
     (let bounded = unwrap_or (get_range input 0 (min (length input) max_bytes)) [] in
      if CHR 0x00 \<in> set bounded then Inl UnsupportedArtifact
      else
        let text = from_utf8_lossy bounded;
            out = encode_chars (map sanitize_char (decode_lossy text))
        in Inr (if max_bytes < length input then out @ truncation_note else out))"

text \<open>What may reach a terminal: no control character but line feed, carriage return and tab.\<close>

definition terminal_safe :: "nat \<Rightarrow> bool" where
  "terminal_safe c \<longleftrightarrow> \<not> is_control c \<or> c \<in> {0x0A, 0x0D, 0x09}"

lemma sanitize_char_safe: "is_scalar c \<Longrightarrow> is_scalar (sanitize_char c) \<and> terminal_safe (sanitize_char c)"
  by (auto simp: sanitize_char_def terminal_safe_def is_control_def is_scalar_def)

lemma sanitize_char_id: "terminal_safe c \<Longrightarrow> sanitize_char c = c"
  by (auto simp: sanitize_char_def terminal_safe_def is_control_def)

lemma bounded_prefix: "unwrap_or (get_range input 0 (min (length input) n)) [] = take n input"
  by (simp add: unwrap_or_def get_range_def min_def)

lemma truncation_chars:
  "\<exists>cs. truncation_note = encode_chars cs \<and> list_all is_scalar cs \<and> list_all terminal_safe cs"
proof -
  define tail where "tail = '' [preview truncated]'' @ [CHR 0x0A]"
  let ?cs = "map of_char [CHR 0x0A] @ [0x2026] @ map of_char tail"
  have tail: "list_all ascii_byte tail" "list_all terminal_safe (map of_char tail)"
    "list_all is_scalar (map of_char tail)"
    by (simp_all add: tail_def ascii_byte_def terminal_safe_def is_control_def is_scalar_def)
  have "encode_chars ?cs = [CHR 0x0A] @ encode_char 0x2026 @ tail"
    using encode_chars_ascii [of "[CHR 0x0A]"] encode_chars_ascii [OF tail(1)]
    by (simp only: encode_chars_append encode_chars_simps append_Nil2)
      (simp add: ascii_byte_def)
  then have "truncation_note = encode_chars ?cs"
    by (simp add: truncation_note_def tail_def)
  moreover have "list_all is_scalar ?cs" "list_all terminal_safe ?cs"
    using tail(2,3) by (simp_all add: terminal_safe_def is_control_def is_scalar_def)
  ultimately show ?thesis by blast
qed

lemma sanitize_text_Inr:
  "sanitize_text input n = Inr out \<longleftrightarrow>
     CHR 0x00 \<notin> set (take n input) \<and>
     out = encode_chars (map sanitize_char (decode_lossy (take n input)))
       @ (if n < length input then truncation_note else [])"
  by (auto simp: sanitize_text_def Let_def bounded_prefix from_utf8_lossy_def
      decode_lossy_encode decode_lossy_scalars)

lemma sanitize_text_chars:
  assumes "sanitize_text input n = Inr out"
  obtains cs where "out = encode_chars cs" "list_all is_scalar cs" "list_all terminal_safe cs"
proof -
  let ?cs = "map sanitize_char (decode_lossy (take n input))"
  obtain note_chars where note_chars: "truncation_note = encode_chars note_chars"
    "list_all is_scalar note_chars" "list_all terminal_safe note_chars"
    using truncation_chars by blast
  have cs: "list_all is_scalar ?cs" "list_all terminal_safe ?cs"
    using decode_lossy_scalars [of "take n input"] sanitize_char_safe by (auto simp: list_all_iff)
  have out: "out = encode_chars (?cs @ (if n < length input then note_chars else []))"
    using assms note_chars(1) by (simp add: sanitize_text_Inr)
  show ?thesis
    by (rule that [OF out]) (use cs note_chars in auto)
qed

section \<open>Properties\<close>

text \<open>C10: Placement fails exactly for an empty viewport, an empty image or when every row is
  reserved; otherwise no word operation saturates and the result is the placement computed on
  natural numbers.\<close>

theorem fit_raster_refines:
  "case (fit_raster iw ih view reserved :: 'img artifact_error + raster_placement) of
     Inl e \<Rightarrow> e = EmptyViewport \<and>
       (viewport_columns view = 0 \<or> viewport_rows view \<le> reserved \<or> iw = 0 \<or> ih = 0)
   | Inr p \<Rightarrow>
       viewport_columns view \<noteq> 0 \<and> reserved < viewport_rows view \<and> iw \<noteq> 0 \<and> ih \<noteq> 0 \<and>
       (unat (placement_columns p), unat (placement_rows p), unat (placement_pixel_width p),
         unat (placement_pixel_height p)) =
       fit_nat (unat iw) (unat ih) (unat (viewport_columns view)) (unat (viewport_rows view))
         (unat (viewport_rows view) - unat reserved) (unat (available_width view))
         (unat (full_height view))"
proof -
  have zero: "sat_sub (viewport_rows view) reserved = 0 \<longleftrightarrow> viewport_rows view \<le> reserved"
    by (simp add: word_unat_eq_iff [of _ 0] unat_sat_sub word_le_nat_alt)
  show ?thesis
  proof (cases "viewport_columns view = 0 \<or> viewport_rows view \<le> reserved \<or> iw = 0 \<or> ih = 0")
    case True
    then show ?thesis by (simp add: fit_raster_def Let_def zero)
  next
    case False
    then have "sat_sub (viewport_rows view) reserved \<noteq> 0"
      by (simp add: zero)
    with False fit_raster_refines_aux [of view reserved iw ih, where 'a = 'img] show ?thesis
      by (auto simp: not_le)
  qed
qed

text \<open>A placement covers at least one cell and one pixel, stays inside the columns and the
  unreserved rows, never exceeds the pixels available or the image, and hence never enlarges it.\<close>

theorem fit_raster_bounds:
  assumes "fit_raster iw ih view reserved = Inr p"
  shows "1 \<le> placement_columns p \<and> placement_columns p \<le> viewport_columns view \<and>
    1 \<le> placement_rows p \<and>
    unat (placement_rows p) \<le> unat (viewport_rows view) - unat reserved \<and>
    1 \<le> placement_pixel_width p \<and> placement_pixel_width p \<le> iw \<and>
    unat (placement_pixel_width p) \<le> unat (available_width view) \<and>
    1 \<le> placement_pixel_height p \<and> placement_pixel_height p \<le> ih \<and>
    unat (placement_pixel_height p) \<le> unat (full_height view)"
proof -
  note c = fit_raster_Inr_cases [OF assms]
  have pos: "0 < unat (viewport_columns view)" "0 < unat iw" "0 < unat ih"
    "0 < unat (viewport_rows view) - unat reserved"
    using c unat_gt_0 [of "sat_sub (viewport_rows view) reserved"]
    by (simp_all only: unat_gt_0 unat_sat_sub simp_thms)
  then have rows: "viewport_rows view \<noteq> 0" "0 < unat (viewport_rows view)"
    by auto
  note pw = available_width_bounds [OF c(1)] and fh = full_height_bounds [OF rows(1)]
  define ph where "ph = max 1 (unat (full_height view) * (unat (viewport_rows view) - unat reserved)
      div unat (viewport_rows view))"
  have "unat (full_height view) * (unat (viewport_rows view) - unat reserved)
      div unat (viewport_rows view) \<le>
      unat (full_height view) * unat (viewport_rows view) div unat (viewport_rows view)"
    by (intro div_le_mono mult_le_mono2) simp
  then have ph: "0 < ph" "ph \<le> unat (full_height view)"
    using rows fh by (simp_all add: ph_def)
  obtain x y where xy: "scaled_nat (unat iw) (unat ih) (unat (available_width view)) ph = (x, y)"
    and p: "unat (placement_columns p) = ceil_div (x * unat (viewport_columns view)) (unat (available_width view))"
    "unat (placement_rows p) = min (unat (viewport_rows view) - unat reserved)
      (ceil_div (y * unat (viewport_rows view)) (unat (full_height view)))"
    "unat (placement_pixel_width p) = x" "unat (placement_pixel_height p) = y"
    using fit_raster_Inr [OF assms] unfolding ph_def by metis
  note b = scaled_nat_bounds [OF pos(2,3) _ ph(1) xy]
  have "0 < unat (placement_columns p)" "0 < unat (placement_rows p)"
    using p(1,2) b pw fh pos rows ceil_div_pos by simp_all
  then show ?thesis
    using p b pw ph pos scaled_columns_le [of "unat (available_width view)" x]
    by (simp add: word_le_nat_alt Suc_le_eq)
qed

theorem fit_raster_bounds_witness:
  "\<exists>p. (fit_raster 4000 1000 \<lparr>viewport_columns = 80, viewport_rows = 24,
      viewport_pixel_width = Some 800, viewport_pixel_height = None\<rparr> 1
      :: unit artifact_error + raster_placement) = Inr p \<and>
    1 \<le> placement_columns p \<and> unat (placement_rows p) \<le> 23"
proof -
  let ?v = "\<lparr>viewport_columns = 80, viewport_rows = 24, viewport_pixel_width = Some 800,
    viewport_pixel_height = None\<rparr>"
  have "\<exists>p. (fit_raster 4000 1000 ?v 1 :: unit artifact_error + raster_placement) = Inr p"
    using fit_raster_refines_aux [of ?v 1 4000 1000] by (auto simp: sat_sub_def)
  then obtain p where "(fit_raster 4000 1000 ?v 1 :: unit artifact_error + raster_placement) = Inr p"
    by blast
  from this fit_raster_bounds [OF this] show ?thesis
    by (intro exI [of _ p]) simp
qed

text \<open>A placement keeps the aspect ratio to the pixel: one side is as large as the image and
  the available pixels allow, and the other is the exactly scaled side rounded down, but at
  least one.\<close>

theorem fit_raster_aspect:
  assumes "fit_raster iw ih view reserved = Inr p"
  shows "let x = unat (placement_pixel_width p); y = unat (placement_pixel_height p);
      ph = max 1 (unat (full_height view) * (unat (viewport_rows view) - unat reserved)
        div unat (viewport_rows view))
    in (x = min (unat iw) (unat (available_width view)) \<and> y = max 1 (unat ih * x div unat iw)) \<or>
       (y = min (unat ih) ph \<and> x = max 1 (unat iw * y div unat ih))"
  using fit_raster_Inr [OF assms]
  by (smt (verit) Pair_inject scaled_nat_def)

text \<open>C26: Text shown on a terminal is safe: the result of sanitizing any bytes is well-formed UTF-8
  without control characters other than line feed, carriage return and tab, and in particular
  without any ESC byte; the only failure is a NUL among the bytes considered.\<close>

theorem sanitize_text_safe:
  "case (sanitize_text input n :: 'img artifact_error + string) of
     Inl e \<Rightarrow> e = UnsupportedArtifact \<and> CHR 0x00 \<in> set (take n input)
   | Inr out \<Rightarrow> CHR 0x00 \<notin> set (take n input) \<and> utf8_valid out \<and> ESC \<notin> set out \<and>
       list_all terminal_safe (decode_lossy out)"
proof (cases "sanitize_text input n :: 'img artifact_error + string")
  case (Inl e)
  then show ?thesis
    by (auto simp: sanitize_text_def Let_def bounded_prefix split: if_splits)
next
  case (Inr out)
  obtain cs where cs: "out = encode_chars cs" "list_all is_scalar cs" "list_all terminal_safe cs"
    by (rule sanitize_text_chars [OF Inr])
  have "ESC \<notin> set out"
  proof
    assume "ESC \<in> set out"
    then have "of_char ESC \<in> set cs"
      using cs encode_chars_ascii_byte [of cs ESC] by (simp add: ascii_byte_def)
    then have "terminal_safe (of_char ESC)"
      using cs(3) by (auto simp: list_all_iff)
    then show False by (simp add: terminal_safe_def is_control_def)
  qed
  moreover have "CHR 0x00 \<notin> set (take n input)"
    using Inr by (simp add: sanitize_text_Inr)
  ultimately show ?thesis
    using cs by (simp add: Inr utf8_valid_encode decode_lossy_encode)
qed

text \<open>Clean text within the limit is shown unchanged, and sanitizing is the only change that
  longer text undergoes before the truncation note: what precedes the note is as if the input
  had ended at the limit.\<close>

theorem sanitize_text_identity:
  assumes "list_all is_scalar cs" "list_all terminal_safe cs" "length (encode_chars cs) \<le> n"
  shows "sanitize_text (encode_chars cs) n = Inr (encode_chars cs)
    \<and> sanitize_text (encode_chars cs @ more_bytes) (length (encode_chars cs)) =
       Inr (encode_chars cs @ (if more_bytes = [] then [] else truncation_note))"
proof -
  have "CHR 0x00 \<notin> set (encode_chars cs)"
  proof
    assume "CHR 0x00 \<in> set (encode_chars cs)"
    then have "of_char (CHR 0x00) \<in> set cs"
      using assms(1) by (intro encode_chars_ascii_byte) (simp_all add: ascii_byte_def)
    then have "terminal_safe (of_char (CHR 0x00))"
      using assms(2) by (auto simp: list_all_iff)
    then show False by (simp add: terminal_safe_def is_control_def)
  qed
  moreover have "map sanitize_char cs = cs"
    using assms(2) by (induction cs) (simp_all add: sanitize_char_id)
  ultimately show ?thesis
    using assms by (simp add: sanitize_text_Inr decode_lossy_encode)
qed

theorem sanitize_text_identity_witness:
  "sanitize_text (encode_chars [0x41, 0x0A, 0x20AC]) 100 = Inr (encode_chars [0x41, 0x0A, 0x20AC])"
  by (rule conjunct1 [OF sanitize_text_identity])
    (simp_all add: is_scalar_def terminal_safe_def is_control_def encode_chars_def encode_char_def)

end
