(* ===== verification/Io_Effects.thy ===== *)
theory Io_Effects
  imports Interop_Prelude
begin

text \<open>
  Effectful code as explicit state passing: an operation takes the state of the world it works
  on and returns a result and the new state, also when it fails, because a failed write may have
  written a part.  The theory also holds the byte stream that sockets, the terminal and standard
  output share: bytes still to be read, the error a read meets after them, the bytes written and
  how many more can be written before a write fails.
\<close>

section \<open>Operations that may fail\<close>

type_synonym ('s, 'e, 'a) io = "'s \<Rightarrow> ('e + 'a) \<times> 's"

definition io_return :: "'a \<Rightarrow> ('s, 'e, 'a) io" where
  "io_return a s = (Inr a, s)"

definition io_fail :: "'e \<Rightarrow> ('s, 'e, 'a) io" where
  "io_fail e s = (Inl e, s)"

definition io_bind :: "('s, 'e, 'a) io \<Rightarrow> ('a \<Rightarrow> ('s, 'e, 'b) io) \<Rightarrow> ('s, 'e, 'b) io" where
  "io_bind m f s = (case m s of (Inl e, s') \<Rightarrow> (Inl e, s') | (Inr a, s') \<Rightarrow> f a s')"

definition io_lift :: "'e + 'a \<Rightarrow> ('s, 'e, 'a) io" where
  "io_lift r s = (r, s)"

definition io_map_err :: "('e \<Rightarrow> 'f) \<Rightarrow> ('s, 'e, 'a) io \<Rightarrow> ('s, 'f, 'a) io" where
  "io_map_err f m s = (case m s of (r, s') \<Rightarrow> (map_err f r, s'))"

lemma io_simps [simp]:
  "io_return a s = (Inr a, s)"
  "io_fail e s = (Inl e, s)"
  "io_lift r s = (r, s)"
  by (simp_all add: io_return_def io_fail_def io_lift_def)

lemma io_bind_simps [simp]:
  "m s = (Inl e, s') \<Longrightarrow> io_bind m f s = (Inl e, s')"
  "m s = (Inr a, s') \<Longrightarrow> io_bind m f s = f a s'"
  by (simp_all add: io_bind_def)

lemma io_bind_Inr_iff [result_iff]:
  "io_bind m f s = (Inr b, t) \<longleftrightarrow> (\<exists>a s'. m s = (Inr a, s') \<and> f a s' = (Inr b, t))"
  by (auto simp: io_bind_def split: sum.splits prod.splits)

lemma io_lift_Inr_iff [result_iff]: "io_lift r s = (Inr a, t) \<longleftrightarrow> r = Inr a \<and> t = s"
  by auto

lemma io_map_err_Inr_iff [result_iff]:
  "io_map_err f m s = (Inr a, t) \<longleftrightarrow> m s = (Inr a, t)"
  by (auto simp: io_map_err_def map_err_def split: prod.splits sum.splits)

section \<open>Errors of the operating system\<close>

text \<open>The kinds of \<open>std::io::Error\<close> the code distinguishes, and all others.\<close>

datatype io_error_kind =
  NotFound | AlreadyExists | UnexpectedEof | InvalidData | InvalidInput | OtherIo string

section \<open>Byte streams\<close>

record 'io byte_stream =
  stream_in :: bytes
  stream_end :: 'io
  stream_out :: bytes
  stream_room :: "nat option"
  stream_fault :: 'io

text \<open>\<open>read_exact\<close> of a buffer of \<open>n\<close> bytes.\<close>

definition read_exact :: "nat \<Rightarrow> ('io byte_stream, 'io, bytes) io" where
  "read_exact n s =
     (if n \<le> length (stream_in s)
      then (Inr (take n (stream_in s)), s\<lparr>stream_in := drop n (stream_in s)\<rparr>)
      else (Inl (stream_end s), s\<lparr>stream_in := []\<rparr>))"

text \<open>\<open>write_all\<close>: when the room does not suffice a part is written and the fault reported.\<close>

definition write_all :: "bytes \<Rightarrow> ('io byte_stream, 'io, unit) io" where
  "write_all bs s =
     (case stream_room s of
        None \<Rightarrow> (Inr (), s\<lparr>stream_out := stream_out s @ bs\<rparr>)
      | Some k \<Rightarrow>
          if length bs \<le> k
          then (Inr (), s\<lparr>stream_out := stream_out s @ bs, stream_room := Some (k - length bs)\<rparr>)
          else (Inl (stream_fault s),
            s\<lparr>stream_out := stream_out s @ take k bs, stream_room := Some 0\<rparr>))"

text \<open>A stream with given input whose peer stays connected and takes every write.\<close>

definition open_stream :: "'io \<Rightarrow> bytes \<Rightarrow> 'io byte_stream" where
  "open_stream end_error bs =
     \<lparr>stream_in = bs, stream_end = end_error, stream_out = [], stream_room = None,
      stream_fault = end_error\<rparr>"

lemma write_all_out:
  "stream_out (snd (write_all bs s)) = stream_out s @ bs \<or>
   (\<exists>e. fst (write_all bs s) = Inl e) \<and> prefix (stream_out (snd (write_all bs s))) (stream_out s @ bs)"
  by (auto simp: write_all_def take_is_prefix split: option.splits)

lemma write_all_Inr:
  "write_all bs s = (Inr u, t) \<Longrightarrow> stream_out t = stream_out s @ bs \<and> stream_in t = stream_in s"
  by (auto simp: write_all_def split: option.splits if_splits)

lemma write_all_unlimited:
  "stream_room s = None \<Longrightarrow> write_all bs s = (Inr (), s\<lparr>stream_out := stream_out s @ bs\<rparr>)"
  by (simp add: write_all_def)

lemma write_all_keeps:
  "stream_in (snd (write_all bs s)) = stream_in s" "stream_end (snd (write_all bs s)) = stream_end s"
  by (auto simp: write_all_def split: option.splits)

end
