(* ===== verification/Unix_Files.thy ===== *)
theory Unix_Files
  imports Io_Effects
begin

text \<open>
  What the crates use of \<open>std::fs\<close>, \<open>std::path\<close> and the \<open>tempfile\<close> crate on Unix, over an explicit
  world: a map from paths to nodes, and for every call the error the operating system answers it
  with, if any, so that every failure branch of the code can be taken.  A path is its bytes.  A
  temporary file is not visible under any path the code uses; persisting it creates the target
  in one step.
\<close>

section \<open>Paths\<close>

type_synonym path = bytes

definition is_absolute :: "path \<Rightarrow> bool" where
  "is_absolute p \<longleftrightarrow> get_at p 0 = Some (CHR ''/'')"

definition path_join :: "path \<Rightarrow> path \<Rightarrow> path" where
  "path_join a b =
     (if is_absolute b then b
      else if a = [] \<or> last a = CHR ''/'' then a @ b
      else a @ ''/'' @ b)"

lemma is_absolute_not_Nil [simp]: "\<not> is_absolute []"
  by (simp add: is_absolute_def get_at_def)

lemma is_absolute_Cons [simp]: "is_absolute (c # p) \<longleftrightarrow> c = CHR ''/''"
  by (simp add: is_absolute_def get_at_def)

lemma path_join_inj: "\<not> is_absolute b \<Longrightarrow> \<not> is_absolute c \<Longrightarrow> path_join a b = path_join a c \<longleftrightarrow> b = c"
  by (simp add: path_join_def)

section \<open>The world\<close>

datatype node_kind = RegularFile | Directory | SocketFile | SymbolicLink path

record file_node =
  node_kind :: node_kind
  node_bytes :: bytes
  node_mode :: u32
  node_modified :: "u128 option"
  node_device :: u64
  node_inode :: u64

datatype fs_call =
    CreateDirAll path
  | SetPermissions path
  | SymlinkMetadata path
  | OpenFile path
  | ReadFile path
  | Canonicalize path
  | TempFileIn path
  | WriteTemp path
  | Persist path
  | BindSocket path
  | RemoveFile path

record unix_world =
  nodes :: "path \<rightharpoonup> file_node"
  faults :: "fs_call \<Rightarrow> io_error_kind option"
  new_node :: file_node

type_synonym 'a fs = "(unix_world, io_error_kind, 'a) io"

definition fs_guard :: "fs_call \<Rightarrow> unit fs" where
  "fs_guard c w = (case faults w c of None \<Rightarrow> (Inr (), w) | Some e \<Rightarrow> (Inl e, w))"

text \<open>The node a path leads to, through one symbolic link.\<close>

definition follow :: "unix_world \<Rightarrow> path \<Rightarrow> path" where
  "follow w p =
     (case nodes w p of
        None \<Rightarrow> p
      | Some n \<Rightarrow> (case node_kind n of SymbolicLink t \<Rightarrow> t | _ \<Rightarrow> p))"

definition lookup :: "unix_world \<Rightarrow> path \<Rightarrow> file_node option" where
  "lookup w p = nodes w (follow w p)"

definition put_node :: "path \<Rightarrow> file_node \<Rightarrow> unix_world \<Rightarrow> unix_world" where
  "put_node p n w = w\<lparr>nodes := (nodes w)(p \<mapsto> n)\<rparr>"

definition fs_exists :: "path \<Rightarrow> unix_world \<Rightarrow> bool" where
  "fs_exists p w \<longleftrightarrow> lookup w p \<noteq> None"

text \<open>\<open>create_dir_all\<close> makes the directory and, first, those of its parents that are missing; a
  path that exists has to lead to a directory.\<close>

definition dir_chain :: "path \<Rightarrow> path list" where
  "dir_chain p = p # rev [take i p. i \<leftarrow> [1..<length p], p ! i = CHR ''/'' \<and> p ! (i - 1) \<noteq> CHR ''/'']"

fun make_dirs :: "path list \<Rightarrow> unit fs" where
  "make_dirs [] w = (Inr (), w)"
| "make_dirs (q # qs) w =
     (if nodes w q = None then
        io_bind (make_dirs qs)
          (\<lambda>_ v. (Inr (), put_node q ((new_node v)\<lparr>node_kind := Directory\<rparr>) v)) w
      else if map_option node_kind (lookup w q) = Some Directory then (Inr (), w)
      else (Inl AlreadyExists, w))"

definition create_dir_all :: "path \<Rightarrow> unit fs" where
  "create_dir_all p = io_bind (fs_guard (CreateDirAll p)) (\<lambda>_. make_dirs (dir_chain p))"

definition set_permissions :: "path \<Rightarrow> u32 \<Rightarrow> unit fs" where
  "set_permissions p mode = io_bind (fs_guard (SetPermissions p))
     (\<lambda>_ w. case lookup w p of
        None \<Rightarrow> (Inl NotFound, w)
      | Some n \<Rightarrow> (Inr (), put_node (follow w p) (n\<lparr>node_mode := mode\<rparr>) w))"

definition symlink_metadata :: "path \<Rightarrow> file_node fs" where
  "symlink_metadata p = io_bind (fs_guard (SymlinkMetadata p))
     (\<lambda>_ w. case nodes w p of None \<Rightarrow> (Inl NotFound, w) | Some n \<Rightarrow> (Inr n, w))"

text \<open>A socket cannot be opened, a directory can be opened but not read.\<close>

definition open_file :: "path \<Rightarrow> file_node fs" where
  "open_file p = io_bind (fs_guard (OpenFile p))
     (\<lambda>_ w. case lookup w p of
        None \<Rightarrow> (Inl NotFound, w)
      | Some n \<Rightarrow>
          (case node_kind n of
             SocketFile \<Rightarrow> (Inl (OtherIo ''no such device or address''), w)
           | SymbolicLink t \<Rightarrow> (Inl (OtherIo ''too many levels of symbolic links''), w)
           | _ \<Rightarrow> (Inr n, w)))"

definition read_file :: "path \<Rightarrow> file_node \<Rightarrow> bytes fs" where
  "read_file p n = io_bind (fs_guard (ReadFile p))
     (\<lambda>_. if node_kind n = Directory then io_fail (OtherIo ''is a directory'')
       else io_return (node_bytes n))"

text \<open>The nodes that can be opened.\<close>

definition openable :: "file_node \<Rightarrow> bool" where
  "openable n \<longleftrightarrow> node_kind n = RegularFile \<or> node_kind n = Directory"

text \<open>Links are followed one level: a link that leads to another link has no canonical path.\<close>

definition canonicalize :: "path \<Rightarrow> path fs" where
  "canonicalize p = io_bind (fs_guard (Canonicalize p))
     (\<lambda>_ w. case lookup w p of
        None \<Rightarrow> (Inl NotFound, w)
      | Some n \<Rightarrow>
          (case node_kind n of
             SymbolicLink t \<Rightarrow> (Inl (OtherIo ''too many levels of symbolic links''), w)
           | _ \<Rightarrow> (Inr (follow w p), w)))"

text \<open>\<open>NamedTempFile::new_in\<close> with its writes, and the two ways of persisting it.\<close>

definition temp_file :: "path \<Rightarrow> unit fs" where
  "temp_file dir = io_bind (fs_guard (TempFileIn dir)) (\<lambda>_. fs_guard (WriteTemp dir))"

definition persist :: "path \<Rightarrow> bytes \<Rightarrow> unit fs" where
  "persist p bs = io_bind (fs_guard (Persist p))
     (\<lambda>_ w. (Inr (), put_node p ((new_node w)\<lparr>node_kind := RegularFile, node_bytes := bs\<rparr>) w))"

definition persist_noclobber :: "path \<Rightarrow> bytes \<Rightarrow> unit fs" where
  "persist_noclobber p bs = io_bind (fs_guard (Persist p))
     (\<lambda>_ w. if nodes w p \<noteq> None then (Inl AlreadyExists, w)
       else (Inr (), put_node p ((new_node w)\<lparr>node_kind := RegularFile, node_bytes := bs\<rparr>) w))"

definition bind_socket :: "path \<Rightarrow> unit fs" where
  "bind_socket p = io_bind (fs_guard (BindSocket p))
     (\<lambda>_ w. if nodes w p \<noteq> None then (Inl (OtherIo ''address in use''), w)
       else (Inr (), put_node p ((new_node w)\<lparr>node_kind := SocketFile, node_bytes := []\<rparr>) w))"

definition remove_file :: "path \<Rightarrow> unit fs" where
  "remove_file p = io_bind (fs_guard (RemoveFile p))
     (\<lambda>_ w. if nodes w p = None then (Inl NotFound, w)
       else (Inr (), w\<lparr>nodes := (nodes w)(p := None)\<rparr>))"

section \<open>Lemmas\<close>

lemma fs_guard_Inr [result_iff]: "fs_guard c w = (Inr u, w') \<longleftrightarrow> faults w c = None \<and> w' = w"
  by (auto simp: fs_guard_def split: option.splits)

lemma fs_guard_None [simp]: "faults w c = None \<Longrightarrow> fs_guard c w = (Inr (), w)"
  by (simp add: fs_guard_def)

lemma fs_guard_Some [simp]: "faults w c = Some e \<Longrightarrow> fs_guard c w = (Inl e, w)"
  by (simp add: fs_guard_def)

lemma put_node_simps [simp]:
  "nodes (put_node p n w) = (nodes w)(p \<mapsto> n)"
  "faults (put_node p n w) = faults w"
  "new_node (put_node p n w) = new_node w"
  by (simp_all add: put_node_def)

text \<open>Nothing but the node of the named path changes.\<close>

definition same_except :: "path set \<Rightarrow> unix_world \<Rightarrow> unix_world \<Rightarrow> bool" where
  "same_except ps w w' \<longleftrightarrow>
     (\<forall>q. q \<notin> ps \<longrightarrow> nodes w' q = nodes w q) \<and> faults w' = faults w \<and> new_node w' = new_node w"

lemma same_except_refl [simp]: "same_except ps w w"
  by (simp add: same_except_def)

lemma same_except_trans: "same_except ps a b \<Longrightarrow> same_except ps b c \<Longrightarrow> same_except ps a c"
  by (simp add: same_except_def)

lemma same_except_mono: "same_except ps a b \<Longrightarrow> ps \<subseteq> qs \<Longrightarrow> same_except qs a b"
  by (auto simp: same_except_def)

lemma same_except_put [simp]: "p \<in> ps \<Longrightarrow> same_except ps w (put_node p n w)"
  by (simp add: same_except_def)

lemma fs_reads_keep:
  "snd (symlink_metadata p w) = w" "snd (open_file p w) = w" "snd (read_file p n w) = w"
  "snd (canonicalize p w) = w" "snd (temp_file p w) = w"
  by (simp_all add: symlink_metadata_def open_file_def read_file_def canonicalize_def temp_file_def
      io_bind_def fs_guard_def split: option.splits sum.splits prod.splits node_kind.splits)

lemma persist_noclobber_Inr:
  "persist_noclobber p bs w = (Inr u, w') \<longleftrightarrow>
     faults w (Persist p) = None \<and> nodes w p = None \<and>
     w' = put_node p ((new_node w)\<lparr>node_kind := RegularFile, node_bytes := bs\<rparr>) w"
  by (auto simp: persist_noclobber_def result_iff)

lemma persist_Inr:
  "persist p bs w = (Inr u, w') \<longleftrightarrow>
     faults w (Persist p) = None \<and>
     w' = put_node p ((new_node w)\<lparr>node_kind := RegularFile, node_bytes := bs\<rparr>) w"
  by (auto simp: persist_def result_iff)

lemma open_file_Inr:
  "open_file p w = (Inr n, w') \<longleftrightarrow>
     faults w (OpenFile p) = None \<and> lookup w p = Some n \<and> openable n \<and> w' = w"
  by (auto simp: open_file_def openable_def result_iff split: option.splits node_kind.splits)

lemma read_file_Inr:
  "read_file p n w = (Inr bs, w') \<longleftrightarrow>
     faults w (ReadFile p) = None \<and> node_kind n \<noteq> Directory \<and> bs = node_bytes n \<and> w' = w"
  by (auto simp: read_file_def result_iff)

lemma canonicalize_Inr:
  "canonicalize p w = (Inr q, w') \<longleftrightarrow>
     faults w (Canonicalize p) = None \<and> q = follow w p \<and>
     (\<exists>n. nodes w q = Some n \<and> (\<forall>t. node_kind n \<noteq> SymbolicLink t)) \<and> w' = w"
  by (auto simp: canonicalize_def result_iff lookup_def split: option.splits node_kind.splits)

lemma temp_file_Inr:
  "temp_file d w = (Inr u, w') \<longleftrightarrow>
     faults w (TempFileIn d) = None \<and> faults w (WriteTemp d) = None \<and> w' = w"
  by (auto simp: temp_file_def result_iff)

lemmas fs_Inr = persist_noclobber_Inr persist_Inr open_file_Inr read_file_Inr canonicalize_Inr
  temp_file_Inr

declare fs_Inr [result_iff]

lemma persist_noclobber_keeps: "same_except {p} w (snd (persist_noclobber p bs w))"
  by (auto simp: persist_noclobber_def io_bind_def fs_guard_def split: option.splits)

lemma set_permissions_keeps: "same_except {follow w p} w (snd (set_permissions p m w))"
  by (auto simp: set_permissions_def io_bind_def fs_guard_def split: option.splits)

lemma make_dirs_keeps: "same_except (set qs) w (snd (make_dirs qs w))"
proof (induction qs arbitrary: w)
  case (Cons q qs)
  then have "same_except (set (q # qs)) w (snd (make_dirs qs w))"
    by (rule same_except_mono) auto
  then show ?case
    by (auto simp: io_bind_def split: sum.splits prod.splits
        intro: same_except_trans same_except_put)
qed simp

lemma create_dir_all_keeps: "same_except (set (dir_chain p)) w (snd (create_dir_all p w))"
  using make_dirs_keeps [of "dir_chain p" w]
  by (auto simp: create_dir_all_def io_bind_def fs_guard_def split: option.splits)

lemma dir_chain_Cons: "\<exists>qs. dir_chain p = p # qs"
  by (simp add: dir_chain_def)

lemma dir_chain_self [simp]: "p \<in> set (dir_chain p)"
  by (simp add: dir_chain_def)

text \<open>Afterwards the path leads to a directory; a path that was not there is one itself.\<close>

lemma create_dir_all_Inr:
  assumes "create_dir_all p w = (Inr u, w')"
  shows "if nodes w p = None then map_option node_kind (nodes w' p) = Some Directory
    else w' = w \<and> map_option node_kind (lookup w p) = Some Directory"
proof -
  obtain qs where "dir_chain p = p # qs"
    using dir_chain_Cons by blast
  with assms show ?thesis
    by (auto simp: create_dir_all_def result_iff split: if_splits)
qed

text \<open>What every call leaves of a file: all but its permissions.\<close>

definition keeps_file :: "path \<Rightarrow> unix_world \<Rightarrow> unix_world \<Rightarrow> bool" where
  "keeps_file p w w' \<longleftrightarrow> (\<forall>n. nodes w p = Some n \<longrightarrow> (\<exists>m. nodes w' p = Some (n\<lparr>node_mode := m\<rparr>)))"

lemma keeps_file_same [simp]: "nodes w' p = nodes w p \<Longrightarrow> keeps_file p w w'"
  by (auto simp: keeps_file_def) (metis file_node.surjective file_node.update_convs(3))

lemma keeps_file_trans: "keeps_file p a b \<Longrightarrow> keeps_file p b c \<Longrightarrow> keeps_file p a c"
  by (fastforce simp: keeps_file_def)

lemma make_dirs_keeps_files: "nodes w p = Some n \<Longrightarrow> nodes (snd (make_dirs qs w)) p = Some n"
proof (induction qs arbitrary: w)
  case (Cons q qs)
  then have "nodes (snd (make_dirs qs w)) p = Some n" "nodes w q = None \<Longrightarrow> p \<noteq> q"
    by auto
  with Cons.prems show ?case
    by (auto simp: io_bind_def split: sum.splits prod.splits)
qed simp

lemma create_dir_all_keeps_file: "keeps_file p w (snd (create_dir_all d w))"
proof (cases "nodes w p")
  case (Some n)
  then have "nodes (snd (create_dir_all d w)) p = Some n"
    by (auto simp: create_dir_all_def io_bind_def fs_guard_def make_dirs_keeps_files split: option.splits)
  with Some show ?thesis by simp
qed (simp add: keeps_file_def)

lemma set_permissions_keeps_file: "keeps_file p w (snd (set_permissions d m w))"
  by (auto simp: keeps_file_def set_permissions_def io_bind_def fs_guard_def lookup_def split: option.splits)
    (metis file_node.surjective file_node.update_convs(3))+

text \<open>A world without files or faults, for concrete instances.\<close>

definition empty_world :: unix_world where
  "empty_world =
     \<lparr>nodes = Map.empty, faults = (\<lambda>_. None),
      new_node = \<lparr>node_kind = RegularFile, node_bytes = [], node_mode = 0x1A4,
        node_modified = Some 0, node_device = 1, node_inode = 2\<rparr>\<rparr>"

end
