(* ===== verification/Artifact_Ref.thy ===== *)
theory Artifact_Ref
  imports Base64_Interface Utf8_Text Unix_Files Core_Contracts
begin

text \<open>
  Crate \<open>terminal-interop-ref\<close> on Unix: artifact references, their tokens, the portable
  validation of a record, and the registry that registers and resolves them over the file world.
  SHA-256 (an initial state, an update and a final function), the Base64 engine, the JSON
  serializer and the random source are arguments.
\<close>

section \<open>Data\<close>

definition ARTIFACT_REF_SCHEMA_V1 :: string where
  "ARTIFACT_REF_SCHEMA_V1 = ''urn:terminal-interop:artifact-ref:v1''"

definition ARTIFACT_REF_URI_PREFIX :: string where
  "ARTIFACT_REF_URI_PREFIX = ''terminal-interop://artifact/''"

definition TOKEN_BYTES :: nat where "TOKEN_BYTES = 8"

definition TOKEN_LENGTH :: nat where "TOKEN_LENGTH = 13"

definition TOKEN_ALPHABET :: string where
  "TOKEN_ALPHABET = ''0123456789ABCDEFGHJKMNPQRSTVWXYZ''"

definition MAX_ENTRY_BYTES :: nat where "MAX_ENTRY_BYTES = 64 * 1024"

record file_identity =
  identity_size :: u64
  identity_modified_unix_nanos :: "u128 option"
  identity_device :: "u64 option"
  identity_inode :: "u64 option"
  identity_sha256_base64 :: string

record artifact_ref =
  ref_schema :: string
  ref_token :: string
  ref_path_encoding :: string
  ref_path_base64 :: string
  ref_identity :: file_identity
  registered_at_unix_ms :: u64

datatype artifact_ref_validation_error =
    RefUnsupportedSchema string
  | RefInvalidToken
  | RefUnsupportedPathEncoding string
  | RefInvalidPath
  | RefInvalidDigest
  | RefArtifactLimit u64 nat

datatype 'json registry_error =
    StateDirectoryUnavailable
  | RegistryIo io_error_kind
  | RegistryJson 'json
  | RegistryRandom
  | InvalidReference
  | RefNotFound string
  | NotRegularFile path
  | IdentityChanged string
  | RegistryPathEncoding string
  | ClockBeforeEpoch
  | TokenExhausted
  | EntryLimit
  | ArtifactLimit u64 nat

section \<open>Tokens\<close>

definition strip_reference :: "string \<Rightarrow> string" where
  "strip_reference reference =
     (case strip_prefix ARTIFACT_REF_URI_PREFIX reference of
        Some t \<Rightarrow> t
      | None \<Rightarrow> (case strip_prefix ''@'' reference of Some t \<Rightarrow> t | None \<Rightarrow> reference))"

definition parse_token :: "string \<Rightarrow> 'json registry_error + string" where
  "parse_token reference =
     (let token = strip_reference reference in
      if length token \<noteq> TOKEN_LENGTH \<or> \<not> list_all (\<lambda>b. b \<in> set TOKEN_ALPHABET) token
      then Inl InvalidReference else Inr token)"

definition short_ref :: "artifact_ref \<Rightarrow> string" where
  "short_ref r = ''@'' @ ref_token r"

definition ref_uri :: "artifact_ref \<Rightarrow> string" where
  "ref_uri r = ARTIFACT_REF_URI_PREFIX @ ref_token r"

text \<open>The loop that packs the random bytes, and the one that fills the token from its end.\<close>

definition pack_bytes :: "bytes \<Rightarrow> u128" where
  "pack_bytes bs = foldl (\<lambda>acc b. or (push_bit 8 acc) (of_nat (of_char b))) 0 bs"

fun fill_token :: "nat \<Rightarrow> u128 \<Rightarrow> string option" where
  "fill_token 0 acc = Some []"
| "fill_token (Suc n) acc =
     (case get_at TOKEN_ALPHABET (unat (and acc 31)) of
        None \<Rightarrow> None
      | Some c \<Rightarrow> map_option (\<lambda>cs. cs @ [c]) (fill_token n (drop_bit 5 acc)))"

definition random_token :: "'r + bytes \<Rightarrow> 'json registry_error + string" where
  "random_token fill =
     try_bind (map_err (\<lambda>_. RegistryRandom) fill)
       (\<lambda>random. ok_or RegistryRandom (fill_token TOKEN_LENGTH (pack_bytes random)))"

section \<open>Portable validation\<close>

definition ref_ascii_alphabetic :: "byte \<Rightarrow> bool" where
  "ref_ascii_alphabetic b \<longleftrightarrow>
     CHR ''a'' \<le> b \<and> b \<le> CHR ''z'' \<or> CHR ''A'' \<le> b \<and> b \<le> CHR ''Z''"

definition ref_separator :: "byte \<Rightarrow> bool" where
  "ref_separator b \<longleftrightarrow> b = CHR ''/'' \<or> b = CHR 0x5C"

fun ref_windows_absolute :: "string \<Rightarrow> bool" where
  "ref_windows_absolute (a # b # c # _) =
     (if ref_ascii_alphabetic a \<and> b = CHR '':'' \<and> ref_separator c then True
      else ref_separator a \<and> ref_separator b)"
| "ref_windows_absolute [a, b] = (ref_separator a \<and> ref_separator b)"
| "ref_windows_absolute _ = False"

definition u64_of_usize :: "nat \<Rightarrow> u64" where
  "u64_of_usize n = (if n < 2 ^ 64 then of_nat n else - 1)"

definition check_ref_path :: "string \<Rightarrow> bytes \<Rightarrow> artifact_ref_validation_error + unit" where
  "check_ref_path encoding p =
     (if encoding = ''unix-bytes-v1'' then
        (if get_at p 0 \<noteq> Some (CHR ''/'') then Inl RefInvalidPath else Inr ())
      else if encoding = ''utf8-v1'' then
        try_bind (ok_or RefInvalidPath (from_utf8 p))
          (\<lambda>val. if \<not> ref_windows_absolute val then Inl RefInvalidPath else Inr ())
      else Inl (RefUnsupportedPathEncoding encoding))"

definition validate_ref ::
  "(string \<Rightarrow> bytes option) \<Rightarrow> artifact_ref \<Rightarrow> artifact_ref_validation_error + unit" where
  "validate_ref dec r =
     (if ref_schema r \<noteq> ARTIFACT_REF_SCHEMA_V1 then Inl (RefUnsupportedSchema (ref_schema r))
      else try_bind (map_err (\<lambda>_ :: unit registry_error. RefInvalidToken) (parse_token (ref_token r)))
       (\<lambda>_. try_bind (ok_or RefInvalidPath (dec (ref_path_base64 r)))
       (\<lambda>p. if p = [] \<or> CHR 0x00 \<in> set p then Inl RefInvalidPath
         else try_bind (check_ref_path (ref_path_encoding r) p)
       (\<lambda>_. try_bind (ok_or RefInvalidDigest (dec (identity_sha256_base64 (ref_identity r))))
       (\<lambda>digest. if length digest \<noteq> 32 then Inl RefInvalidDigest
         else if u64_of_usize MAX_ARTIFACT_INPUT_BYTES_V1 < identity_size (ref_identity r)
         then Inl (RefArtifactLimit (identity_size (ref_identity r)) MAX_ARTIFACT_INPUT_BYTES_V1)
         else Inr ())))))"

section \<open>The registry\<close>

record registry =
  registry_root :: path

definition discover ::
  "path option \<Rightarrow> path option \<Rightarrow> path option \<Rightarrow> 'json registry_error + registry" where
  "discover state_dir xdg_state_home home =
     (case state_dir of
        Some root \<Rightarrow> Inr \<lparr>registry_root = root\<rparr>
      | None \<Rightarrow>
          (case xdg_state_home of
             Some root \<Rightarrow> Inr \<lparr>registry_root = path_join root ''terminal-interop''\<rparr>
           | None \<Rightarrow> ok_or StateDirectoryUnavailable
               (map_option
                 (\<lambda>h. \<lparr>registry_root = path_join h ''.local/state/terminal-interop''\<rparr>) home)))"

definition refs_dir :: "registry \<Rightarrow> path" where
  "refs_dir reg = path_join (registry_root reg) ''refs''"

definition entry_path :: "registry \<Rightarrow> string \<Rightarrow> path" where
  "entry_path reg token = path_join (refs_dir reg) (token @ ''.json'')"

definition latest_path :: "registry \<Rightarrow> path" where
  "latest_path reg = path_join (registry_root reg) ''latest''"

type_synonym ('json, 'a) reg_io = "(unix_world, 'json registry_error, 'a) io"

definition reg_fs :: "'a fs \<Rightarrow> ('json, 'a) reg_io" where
  "reg_fs m = io_map_err RegistryIo m"

definition ensure_dirs :: "registry \<Rightarrow> ('json, unit) reg_io" where
  "ensure_dirs reg =
     io_bind (reg_fs (create_dir_all (refs_dir reg)))
       (\<lambda>_. io_bind (reg_fs (set_permissions (registry_root reg) 0x1C0))
       (\<lambda>_. reg_fs (set_permissions (refs_dir reg) 0x1C0)))"

definition enforce_artifact_limit :: "u64 \<Rightarrow> 'json registry_error + unit" where
  "enforce_artifact_limit actual =
     (let limit = u64_of_usize MAX_ARTIFACT_INPUT_BYTES_V1 in
      if limit < actual then Inl (ArtifactLimit actual MAX_ARTIFACT_INPUT_BYTES_V1) else Inr ())"

definition make_identity :: "file_node \<Rightarrow> string \<Rightarrow> file_identity" where
  "make_identity metadata sha =
     \<lparr>identity_size = u64_of_usize (length (node_bytes metadata)),
      identity_modified_unix_nanos = node_modified metadata,
      identity_device = Some (node_device metadata), identity_inode = Some (node_inode metadata),
      identity_sha256_base64 = sha\<rparr>"

text \<open>The functions of the crates the registry uses.\<close>

record ('st, 'json) ref_env =
  sha_new :: 'st
  sha_update :: "'st \<Rightarrow> bytes \<Rightarrow> 'st"
  sha_finalize :: "'st \<Rightarrow> bytes"
  b64_encode :: "bytes \<Rightarrow> string"
  b64_decode :: "string \<Rightarrow> bytes option"
  ref_to_json :: "artifact_ref \<Rightarrow> 'json + bytes"
  ref_from_json :: "bytes \<Rightarrow> 'json + artifact_ref"

text \<open>Reading the file in buffers of 64 KiB.\<close>

definition hash_file :: "('st, 'json) ref_env \<Rightarrow> path \<Rightarrow> file_node \<Rightarrow> ('json, string) reg_io" where
  "hash_file env p source =
     io_bind (reg_fs (read_file p source))
       (\<lambda>bs. io_return (b64_encode env
         (sha_finalize env (foldl (sha_update env) (sha_new env) (chunks 65536 bs)))))"

definition write_latest :: "registry \<Rightarrow> string \<Rightarrow> ('json, unit) reg_io" where
  "write_latest reg token =
     io_bind (reg_fs (temp_file (registry_root reg)))
       (\<lambda>_. reg_fs (persist (latest_path reg) (''@'' @ token @ [CHR 0x0A])))"

text \<open>The loop over at most 16 attempts; \<open>fill\<close> gives the random bytes of each attempt.\<close>

fun register_attempts ::
  "('st, 'json) ref_env \<Rightarrow> registry \<Rightarrow> path \<Rightarrow> file_identity \<Rightarrow> u64 \<Rightarrow> (nat \<Rightarrow> 'r + bytes) \<Rightarrow> nat
     \<Rightarrow> ('json, artifact_ref) reg_io" where
  "register_attempts env reg p identity now fill 0 w = (Inl TokenExhausted, w)"
| "register_attempts env reg p identity now fill (Suc n) w =
     (case random_token (fill (16 - Suc n)) of
        Inl e \<Rightarrow> (Inl e, w)
      | Inr token \<Rightarrow>
          let entry = \<lparr>ref_schema = ARTIFACT_REF_SCHEMA_V1, ref_token = token,
                ref_path_encoding = ''unix-bytes-v1'', ref_path_base64 = b64_encode env p,
                ref_identity = identity, registered_at_unix_ms = now\<rparr>
          in case ref_to_json env entry of
               Inl e \<Rightarrow> (Inl (RegistryJson e), w)
             | Inr bs \<Rightarrow>
                 (case temp_file (refs_dir reg) w of
                    (Inl e, w1) \<Rightarrow> (Inl (RegistryIo e), w1)
                  | (Inr _, w1) \<Rightarrow>
                      (case persist_noclobber (entry_path reg token) bs w1 of
                         (Inr _, w2) \<Rightarrow> io_bind (write_latest reg token) (\<lambda>_. io_return entry) w2
                       | (Inl e, w2) \<Rightarrow>
                           if e = AlreadyExists
                           then register_attempts env reg p identity now fill n w2
                           else (Inl (RegistryIo e), w2))))"

definition register ::
  "('st, 'json) ref_env \<Rightarrow> registry \<Rightarrow> u64 option \<Rightarrow> (nat \<Rightarrow> 'r + bytes) \<Rightarrow> path
     \<Rightarrow> ('json, artifact_ref) reg_io" where
  "register env reg clock fill p =
     io_bind (ensure_dirs reg)
       (\<lambda>_. io_bind (reg_fs (canonicalize p))
       (\<lambda>canonical. io_bind (reg_fs (open_file canonical))
       (\<lambda>source.
         if node_kind source \<noteq> RegularFile then io_fail (NotRegularFile canonical)
         else io_bind (io_lift (enforce_artifact_limit (u64_of_usize (length (node_bytes source)))))
       (\<lambda>_. io_bind (hash_file env canonical source)
       (\<lambda>sha. io_bind (io_lift (ok_or ClockBeforeEpoch clock))
       (\<lambda>now. register_attempts env reg canonical (make_identity source sha) now fill 16))))))"

text \<open>Opening a file whose absence has its own error.\<close>

definition open_or :: "'json registry_error \<Rightarrow> path \<Rightarrow> ('json, file_node) reg_io" where
  "open_or absent p =
     io_map_err (\<lambda>e. if e = NotFound then absent else RegistryIo e) (open_file p)"

definition decode_path :: "string \<Rightarrow> bytes \<Rightarrow> 'json registry_error + path" where
  "decode_path encoding bs =
     (if encoding \<noteq> ''unix-bytes-v1'' then Inl (RegistryPathEncoding encoding) else Inr bs)"

definition ref_error :: "artifact_ref_validation_error \<Rightarrow> 'json registry_error" where
  "ref_error e = (case e of RefUnsupportedPathEncoding s \<Rightarrow> RegistryPathEncoding s
     | _ \<Rightarrow> InvalidReference)"

definition read_entry ::
  "('st, 'json) ref_env \<Rightarrow> registry \<Rightarrow> string \<Rightarrow> ('json, artifact_ref) reg_io" where
  "read_entry env reg token =
     io_bind (open_or (RefNotFound token) (entry_path reg token))
       (\<lambda>file. if MAX_ENTRY_BYTES < length (node_bytes file) then io_fail EntryLimit
         else io_bind (reg_fs (read_file (entry_path reg token) file))
       (\<lambda>all_bytes. let bs = take (MAX_ENTRY_BYTES + 1) all_bytes in
         if MAX_ENTRY_BYTES < length bs then io_fail EntryLimit
         else io_bind (io_lift (map_err RegistryJson (ref_from_json env bs)))
       (\<lambda>entry. io_bind (io_lift (map_err ref_error (validate_ref (b64_decode env) entry)))
       (\<lambda>_. if ref_token entry \<noteq> token then io_fail InvalidReference else io_return entry))))"

definition resolve :: "('st, 'json) ref_env \<Rightarrow> registry \<Rightarrow> string \<Rightarrow> ('json, path) reg_io" where
  "resolve env reg reference =
     io_bind (io_lift (parse_token reference))
       (\<lambda>token. io_bind (read_entry env reg token)
       (\<lambda>entry. io_bind (io_lift (ok_or InvalidReference (b64_decode env (ref_path_base64 entry))))
       (\<lambda>bs. io_bind (io_lift (decode_path (ref_path_encoding entry) bs))
       (\<lambda>decoded. io_bind (open_or (IdentityChanged token) decoded)
       (\<lambda>source.
         io_bind (io_lift (enforce_artifact_limit (u64_of_usize (length (node_bytes source)))))
       (\<lambda>_. io_bind (hash_file env decoded source)
       (\<lambda>sha. if node_kind source \<noteq> RegularFile \<or> make_identity source sha \<noteq> ref_identity entry
         then io_fail (IdentityChanged token) else io_return decoded)))))))"

text \<open>\<open>str::trim\<close>: the Unicode white space at both ends.\<close>

definition is_white_space :: "nat \<Rightarrow> bool" where
  "is_white_space c \<longleftrightarrow>
     0x09 \<le> c \<and> c \<le> 0x0D \<or> c = 0x20 \<or> c = 0x85 \<or> c = 0xA0 \<or> c = 0x1680 \<or>
     0x2000 \<le> c \<and> c \<le> 0x200A \<or> c = 0x2028 \<or> c = 0x2029 \<or> c = 0x202F \<or> c = 0x205F \<or> c = 0x3000"

definition trim :: "string \<Rightarrow> string" where
  "trim s = encode_chars
     (rev (dropWhile is_white_space (rev (dropWhile is_white_space (decode_lossy s)))))"

definition resolve_latest :: "('st, 'json) ref_env \<Rightarrow> registry \<Rightarrow> ('json, path) reg_io" where
  "resolve_latest env reg =
     io_bind (reg_fs (open_file (latest_path reg)))
       (\<lambda>file. io_bind (reg_fs (read_file (latest_path reg) file))
       (\<lambda>bs. io_bind (io_lift (ok_or (RegistryIo InvalidData) (from_utf8 bs)))
       (\<lambda>latest. resolve env reg (trim latest))))"

section \<open>Lemmas on tokens\<close>

definition valid_token :: "string \<Rightarrow> bool" where
  "valid_token t \<longleftrightarrow> length t = TOKEN_LENGTH \<and> list_all (\<lambda>b. b \<in> set TOKEN_ALPHABET) t"

lemma valid_token_shape:
  assumes "valid_token t"
  shows "t \<noteq> []" "CHR ''@'' \<notin> set t" "CHR ''/'' \<notin> set t" "CHR ''.'' \<notin> set t" "list_all ascii_byte t"
    "strip_prefix ARTIFACT_REF_URI_PREFIX t = None" "strip_prefix ''@'' t = None"
proof -
  have alphabet: "b \<in> set TOKEN_ALPHABET" if "b \<in> set t" for b
    using assms that by (auto simp: valid_token_def list_all_iff)
  show "t \<noteq> []"
    using assms by (auto simp: valid_token_def TOKEN_LENGTH_def)
  show chars: "CHR ''@'' \<notin> set t" "CHR ''/'' \<notin> set t" "CHR ''.'' \<notin> set t" "list_all ascii_byte t"
    using alphabet by (auto simp: TOKEN_ALPHABET_def list_all_iff ascii_byte_def dest!: alphabet)
  have "t \<noteq> ARTIFACT_REF_URI_PREFIX @ s" for s
    using chars(2) by (auto simp: ARTIFACT_REF_URI_PREFIX_def)
  then show "strip_prefix ARTIFACT_REF_URI_PREFIX t = None"
    using strip_prefix_Some_iff by (metis option.exhaust)
  have "t \<noteq> ''@'' @ s" for s
    using chars(1) by auto
  then show "strip_prefix ''@'' t = None"
    using strip_prefix_Some_iff by (metis option.exhaust)
qed

lemma parse_token_Inr [result_iff]:
  "parse_token s = Inr t \<longleftrightarrow> t = strip_reference s \<and> valid_token t"
  by (auto simp: parse_token_def valid_token_def Let_def)

lemma strip_reference_cases:
  "strip_reference s = t \<Longrightarrow> s = ARTIFACT_REF_URI_PREFIX @ t \<or> s = ''@'' @ t \<or> s = t"
  by (auto simp: strip_reference_def strip_prefix_Some_iff split: option.splits)

lemma strip_reference_forms:
  assumes "valid_token t"
  shows "strip_reference (ARTIFACT_REF_URI_PREFIX @ t) = t" "strip_reference (''@'' @ t) = t"
    "strip_reference t = t"
proof -
  show "strip_reference (ARTIFACT_REF_URI_PREFIX @ t) = t"
    by (simp add: strip_reference_def)
  have "strip_prefix ARTIFACT_REF_URI_PREFIX (''@'' @ t) = None"
    by (simp add: ARTIFACT_REF_URI_PREFIX_def)
  then show "strip_reference (''@'' @ t) = t"
    by (simp add: strip_reference_def)
  show "strip_reference t = t"
    using valid_token_shape [OF assms] by (simp add: strip_reference_def)
qed

text \<open>The packing loop computes the big-endian value of the bytes.\<close>

definition big_endian :: "bytes \<Rightarrow> nat" where
  "big_endian bs = foldl (\<lambda>n b. n * 256 + of_char b) 0 bs"

lemma big_endian_snoc: "big_endian (bs @ [b]) = big_endian bs * 256 + of_char b"
  by (simp add: big_endian_def)

lemma big_endian_less: "big_endian bs < 256 ^ length bs"
proof (induction bs rule: rev_induct)
  case Nil
  then show ?case by (simp add: big_endian_def)
next
  case (snoc b bs)
  have "big_endian (bs @ [b]) < Suc (big_endian bs) * 256"
    by (simp add: big_endian_snoc)
  also have "\<dots> \<le> 256 ^ length bs * 256"
    using snoc.IH by (intro mult_le_mono1) simp
  finally show ?case
    by (simp add: mult.commute)
qed

lemma big_endian_inj:
  "length xs = length ys \<Longrightarrow> big_endian xs = big_endian ys \<Longrightarrow> xs = ys"
proof (induction xs arbitrary: ys rule: rev_induct)
  case Nil
  then show ?case by simp
next
  case (snoc x xs)
  then obtain y zs where ys: "ys = zs @ [y]"
    by (metis append_is_Nil_conv length_0_conv not_Cons_self2 rev_exhaust)
  have parts: "of_char x < (256 :: nat)" "of_char y < (256 :: nat)"
    by simp_all
  have eq: "big_endian xs * 256 + of_char x = big_endian zs * 256 + of_char y"
    using snoc.prems(2) by (simp add: ys big_endian_snoc)
  have "big_endian xs = big_endian zs"
    using arg_cong [OF eq, of "\<lambda>n. n div 256"] split_radix(1) [OF parts(1)] split_radix(1) [OF parts(2)]
    by simp
  moreover have "(of_char x :: nat) = of_char y"
    using eq calculation by simp
  ultimately show ?case
    using snoc by (simp add: ys of_char_eq_iff)
qed

lemma or_low_byte:
  fixes a :: u128
  assumes "k < 256"
  shows "or (push_bit 8 a) (of_nat k) = push_bit 8 a + of_nat k"
proof -
  have "k = take_bit 8 k"
    using assms by (simp add: take_bit_nat_eq_self)
  then have "and (push_bit 8 a) (of_nat k) = 0"
    by (metis (no_types, lifting) bit_and_iff bit_push_bit_iff bit_take_bit_iff bit_0_eq bot_apply
        bot_bool_def not_le of_nat_take_bit bit_eqI)
  then show ?thesis
    by (rule disjunctive_add_eq_or [symmetric])
qed

lemma unat_u128_of_nat:
  assumes "n < 2 ^ 128"
  shows "unat (of_nat n :: u128) = n"
proof -
  have "take_bit LENGTH(128) n = n"
    using assms by (intro take_bit_nat_eq_self) simp
  then show ?thesis
    by (simp only: unsigned_of_nat of_nat_id)
qed

lemma unat_pack_bytes: "length bs \<le> 15 \<Longrightarrow> unat (pack_bytes bs) = big_endian bs"
proof (induction bs rule: rev_induct)
  case Nil
  then show ?case by (simp add: pack_bytes_def big_endian_def)
next
  case (snoc b bs)
  then have IH: "unat (pack_bytes bs) = big_endian bs"
    by simp
  have "big_endian (bs @ [b]) < 256 ^ length (bs @ [b])"
    by (rule big_endian_less)
  also have "\<dots> \<le> (256 :: nat) ^ 15"
    using snoc.prems by (intro power_increasing) simp_all
  finally have lt: "big_endian bs * 256 + of_char b < (2 :: nat) ^ 128"
    by (simp add: big_endian_snoc)
  have "pack_bytes (bs @ [b]) = or (push_bit 8 (pack_bytes bs)) (of_nat (of_char b))"
    by (simp add: pack_bytes_def)
  also have "\<dots> = push_bit 8 (pack_bytes bs) + of_nat (of_char b)"
    by (rule or_low_byte) simp
  also have "\<dots> = of_nat (big_endian bs * 256 + of_char b)"
    by (simp add: push_bit_eq_mult IH [symmetric])
  finally have "unat (pack_bytes (bs @ [b])) = unat (of_nat (big_endian bs * 256 + of_char b) :: u128)"
    by (rule arg_cong)
  also have "\<dots> = big_endian bs * 256 + of_char b"
    using lt by (rule unat_u128_of_nat)
  finally show ?case
    by (simp only: big_endian_snoc)
qed

fun token_digits :: "nat \<Rightarrow> nat \<Rightarrow> string" where
  "token_digits 0 v = []"
| "token_digits (Suc n) v = token_digits n (v div 32) @ [TOKEN_ALPHABET ! (v mod 32)]"

lemma length_alphabet [simp]: "length TOKEN_ALPHABET = 32"
  by (simp add: TOKEN_ALPHABET_def)

lemma fill_token_digits: "fill_token n acc = Some (token_digits n (unat acc))"
proof (induction n arbitrary: acc)
  case 0
  then show ?case by simp
next
  case (Suc n)
  have "(31 :: u128) = mask 5"
    by (simp add: mask_eq_exp_minus_1)
  then have "and acc 31 = take_bit 5 acc"
    by (simp only: take_bit_eq_mask)
  then have "unat (and acc 31) = take_bit 5 (unat acc)"
    by (simp only: unsigned_take_bit_eq)
  then have low: "unat (and acc 31) = unat acc mod 32"
    by (simp only: take_bit_eq_mod) simp
  have high: "unat (drop_bit 5 acc) = unat acc div 32"
    by (simp only: unat_drop_bit_eq) (simp add: drop_bit_eq_div)
  show ?case
    unfolding fill_token.simps low Suc.IH high by (simp add: get_at_def)
qed

lemma length_token_digits [simp]: "length (token_digits n v) = n"
  by (induction n arbitrary: v) simp_all

lemma token_digits_alphabet: "list_all (\<lambda>b. b \<in> set TOKEN_ALPHABET) (token_digits n v)"
  by (induction n arbitrary: v) simp_all

lemma token_digits_inj:
  "token_digits n u = token_digits n v \<Longrightarrow> u < 32 ^ n \<Longrightarrow> v < 32 ^ n \<Longrightarrow> u = v"
proof (induction n arbitrary: u v)
  case 0
  then show ?case by simp
next
  case (Suc n)
  have "distinct TOKEN_ALPHABET"
    by (simp add: TOKEN_ALPHABET_def)
  then have "u mod 32 = v mod 32"
    using Suc.prems(1) nth_eq_iff_index_eq [of TOKEN_ALPHABET "u mod 32" "v mod 32"] by simp
  moreover have "u div 32 < 32 ^ n" "v div 32 < 32 ^ n"
    using Suc.prems(2,3) by (simp_all add: less_mult_imp_div_less mult.commute)
  then have "u div 32 = v div 32"
    using Suc.IH Suc.prems(1) by simp
  ultimately show ?case
    by (metis div_mult_mod_eq)
qed

lemma random_token_Inr:
  "length bs = 8 \<Longrightarrow> random_token (Inr bs) = Inr (token_digits 13 (big_endian bs))"
  by (simp add: random_token_def fill_token_digits unat_pack_bytes TOKEN_LENGTH_def)

lemma random_token_valid:
  "random_token fill = Inr t \<Longrightarrow> valid_token t"
  by (auto simp: random_token_def result_iff fill_token_digits valid_token_def token_digits_alphabet
      TOKEN_LENGTH_def)

section \<open>Lemmas on the registry\<close>

text \<open>The record and the two files a successful registration leaves.\<close>

definition entry_of :: "('st, 'json) ref_env \<Rightarrow> path \<Rightarrow> file_identity \<Rightarrow> u64 \<Rightarrow> string \<Rightarrow> artifact_ref" where
  "entry_of env p identity now token =
     \<lparr>ref_schema = ARTIFACT_REF_SCHEMA_V1, ref_token = token,
      ref_path_encoding = ''unix-bytes-v1'', ref_path_base64 = b64_encode env p,
      ref_identity = identity, registered_at_unix_ms = now\<rparr>"

definition new_file :: "unix_world \<Rightarrow> bytes \<Rightarrow> file_node" where
  "new_file w bs = (new_node w)\<lparr>node_kind := RegularFile, node_bytes := bs\<rparr>"

lemma new_file_sel [simp]: "node_kind (new_file w bs) = RegularFile" "node_bytes (new_file w bs) = bs"
  by (simp_all add: new_file_def)

definition latest_line :: "string \<Rightarrow> bytes" where
  "latest_line token = ''@'' @ token @ [CHR 0x0A]"

lemma token_file_relative: "valid_token t \<Longrightarrow> \<not> is_absolute (t @ s)"
  using valid_token_shape(1,3) [of t] by (cases t) auto

lemma entry_path_inj:
  "valid_token t \<Longrightarrow> valid_token u \<Longrightarrow> entry_path reg t = entry_path reg u \<longleftrightarrow> t = u"
  by (simp add: entry_path_def path_join_inj token_file_relative)

lemma entry_not_latest: "valid_token t \<Longrightarrow> entry_path reg t \<noteq> latest_path reg"
  by (auto simp: entry_path_def latest_path_def refs_dir_def path_join_def token_file_relative)

lemma write_latest_Inr [result_iff]:
  "write_latest reg token w = (Inr u, w') \<longleftrightarrow>
     faults w (TempFileIn (registry_root reg)) = None \<and>
     faults w (WriteTemp (registry_root reg)) = None \<and> faults w (Persist (latest_path reg)) = None \<and>
     w' = put_node (latest_path reg) (new_file w (latest_line token)) w"
  by (auto simp: write_latest_def reg_fs_def result_iff new_file_def latest_line_def)

lemma temp_file_keeps: "temp_file d w = (r, w') \<Longrightarrow> w' = w"
  using fs_reads_keep(5) [of d w] by simp

text \<open>One attempt: the loop either goes on in the same world, because the token is taken, or ends.\<close>

lemma register_attempts_Inr:
  fixes env :: "('st, 'json) ref_env"
  assumes "register_attempts env reg p identity now fill n w = (Inr e, w')"
  shows "\<exists>token bs. valid_token token \<and> e = entry_of env p identity now token \<and>
    ref_to_json env e = Inr bs \<and> nodes w (entry_path reg token) = None \<and>
    w' = put_node (latest_path reg) (new_file w (latest_line token))
      (put_node (entry_path reg token) (new_file w bs) w)"
  using assms
proof (induction n)
  case 0
  then show ?case by simp
next
  case (Suc n)
  then obtain token where token: "(random_token (fill (16 - Suc n)) :: 'json registry_error + string) = Inr token"
    by (auto split: sum.splits)
  then obtain bs where bs: "ref_to_json env (entry_of env p identity now token) = Inr bs"
    using Suc.prems by (auto simp: entry_of_def Let_def split: sum.splits)
  obtain u where "temp_file (refs_dir reg) w = (Inr u, w)"
    using Suc.prems token bs temp_file_keeps [of "refs_dir reg" w]
    by (cases "temp_file (refs_dir reg) w") (auto simp: entry_of_def Let_def split: sum.splits)
  note step = token bs [unfolded entry_of_def] this
  show ?case
  proof (cases "fst (persist_noclobber (entry_path reg token) bs w)")
    case (Inl err)
    then have "snd (persist_noclobber (entry_path reg token) bs w) = w"
      by (auto simp: persist_noclobber_def io_bind_def fs_guard_def split: option.splits if_splits)
    with Inl have "persist_noclobber (entry_path reg token) bs w = (Inl err, w)"
      by (metis prod.collapse)
    then have "register_attempts env reg p identity now fill n w = (Inr e, w')"
      using Suc.prems step by (auto simp: Let_def split: if_splits)
    then show ?thesis
      by (rule Suc.IH)
  next
    case (Inr u)
    then obtain w1 where persisted: "persist_noclobber (entry_path reg token) bs w = (Inr u, w1)"
      by (metis prod.collapse)
    then have "(io_bind (write_latest reg token) (\<lambda>_. io_return (entry_of env p identity now token)) w1
        :: ('json registry_error + artifact_ref) \<times> unix_world) = (Inr e, w')"
      using Suc.prems step by (simp add: Let_def entry_of_def)
    then have "e = entry_of env p identity now token"
      "w' = put_node (latest_path reg) (new_file w1 (latest_line token)) w1"
      by (auto simp: io_bind_Inr_iff write_latest_Inr)
    moreover have "nodes w (entry_path reg token) = None"
      "w1 = put_node (entry_path reg token) (new_file w bs) w"
      using persisted by (auto simp: persist_noclobber_Inr new_file_def)
    ultimately show ?thesis
      using bs random_token_valid [OF token] by (auto simp: new_file_def)
  qed
qed

text \<open>The fingerprint of a file node.\<close>

definition content_digest :: "('st, 'json) ref_env \<Rightarrow> bytes \<Rightarrow> bytes" where
  "content_digest env bs = sha_finalize env (foldl (sha_update env) (sha_new env) (chunks 65536 bs))"

definition fingerprint :: "('st, 'json) ref_env \<Rightarrow> file_node \<Rightarrow> file_identity" where
  "fingerprint env n = make_identity n (b64_encode env (content_digest env (node_bytes n)))"

definition within_limit :: "file_node \<Rightarrow> bool" where
  "within_limit n \<longleftrightarrow>
     u64_of_usize (length (node_bytes n)) \<le> u64_of_usize MAX_ARTIFACT_INPUT_BYTES_V1"

lemma enforce_artifact_limit_Inr [result_iff]:
  "enforce_artifact_limit (u64_of_usize (length (node_bytes n))) = Inr u \<longleftrightarrow> within_limit n"
  by (auto simp: enforce_artifact_limit_def within_limit_def Let_def not_less)

lemma hash_file_Inr [result_iff]:
  "hash_file env p n w = (Inr s, w') \<longleftrightarrow>
     faults w (ReadFile p) = None \<and> node_kind n \<noteq> Directory \<and>
     s = b64_encode env (content_digest env (node_bytes n)) \<and> w' = w"
  by (auto simp: hash_file_def reg_fs_def result_iff content_digest_def)

lemma open_or_Inr [result_iff]:
  "open_or absent p w = (Inr n, w') \<longleftrightarrow>
     faults w (OpenFile p) = None \<and> lookup w p = Some n \<and> openable n \<and> w' = w"
  by (auto simp: open_or_def result_iff)

lemma open_or_missing:
  "faults w (OpenFile p) = None \<Longrightarrow> lookup w p = None \<Longrightarrow> open_or absent p w = (Inl absent, w)"
  by (simp add: open_or_def io_map_err_def open_file_def io_bind_def)

lemma read_entry_Inr [result_iff]:
  "read_entry env reg t w = (Inr entry, w') \<longleftrightarrow>
     faults w (OpenFile (entry_path reg t)) = None \<and> faults w (ReadFile (entry_path reg t)) = None \<and>
     (\<exists>n. lookup w (entry_path reg t) = Some n \<and> node_kind n = RegularFile \<and>
       length (node_bytes n) \<le> MAX_ENTRY_BYTES \<and> ref_from_json env (node_bytes n) = Inr entry) \<and>
     validate_ref (b64_decode env) entry = Inr () \<and> ref_token entry = t \<and> w' = w"
  by (auto simp: read_entry_def reg_fs_def result_iff Let_def not_less openable_def split: if_splits)

lemma decode_path_Inr [result_iff]:
  "decode_path encoding bs = Inr q \<longleftrightarrow> encoding = ''unix-bytes-v1'' \<and> q = bs"
  by (auto simp: decode_path_def)

lemma resolve_Inr:
  fixes env :: "('st, 'json) ref_env"
  assumes "resolve env reg s w = (Inr q, w')"
  shows "\<exists>t entry n. parse_token s = (Inr t :: 'json registry_error + string) \<and>
    read_entry env reg t w = (Inr entry, w) \<and> ref_path_encoding entry = ''unix-bytes-v1'' \<and>
    b64_decode env (ref_path_base64 entry) = Some q \<and>
    lookup w q = Some n \<and> node_kind n = RegularFile \<and> within_limit n \<and>
    fingerprint env n = ref_identity entry \<and> w' = w"
proof -
  from assms obtain t entry u where t: "parse_token s = (Inr t :: 'json registry_error + string)"
    and entry: "read_entry env reg t w = (Inr entry, u)"
    and rest: "io_bind (io_lift (ok_or InvalidReference (b64_decode env (ref_path_base64 entry))))
       (\<lambda>bs. io_bind (io_lift (decode_path (ref_path_encoding entry) bs))
       (\<lambda>decoded. io_bind (open_or (IdentityChanged t) decoded)
       (\<lambda>source.
         io_bind (io_lift (enforce_artifact_limit (u64_of_usize (length (node_bytes source)))))
       (\<lambda>_. io_bind (hash_file env decoded source)
       (\<lambda>sha. if node_kind source \<noteq> RegularFile \<or> make_identity source sha \<noteq> ref_identity entry
         then io_fail (IdentityChanged t) else io_return decoded))))) u = (Inr q, w')"
    unfolding resolve_def io_bind_Inr_iff [of "io_lift (parse_token s)"] io_lift_Inr_iff
      io_bind_Inr_iff [of "read_entry env reg _"] by blast
  have u: "u = w"
    using entry by (simp add: read_entry_Inr)
  show ?thesis
    using rest t entry [unfolded u]
    by (auto simp: u io_bind_Inr_iff io_lift_Inr_iff open_or_Inr hash_file_Inr
        enforce_artifact_limit_Inr decode_path_Inr ok_or_def fingerprint_def
        split: option.splits if_splits)
qed

text \<open>What resolving a stored entry answers, given the file its path leads to.\<close>

definition irregular_error :: "file_node \<Rightarrow> 'json registry_error" where
  "irregular_error n =
     (case node_kind n of
        Directory \<Rightarrow>
          if within_limit n then RegistryIo (OtherIo ''is a directory'')
          else ArtifactLimit (u64_of_usize (length (node_bytes n))) MAX_ARTIFACT_INPUT_BYTES_V1
      | SocketFile \<Rightarrow> RegistryIo (OtherIo ''no such device or address'')
      | _ \<Rightarrow> RegistryIo (OtherIo ''too many levels of symbolic links''))"

definition file_verdict ::
  "('st, 'json) ref_env \<Rightarrow> artifact_ref \<Rightarrow> path \<Rightarrow> file_node option \<Rightarrow> 'json registry_error + path" where
  "file_verdict env entry q found =
     (case found of
        None \<Rightarrow> Inl (IdentityChanged (ref_token entry))
      | Some n \<Rightarrow>
          if node_kind n \<noteq> RegularFile then Inl (irregular_error n)
          else if \<not> within_limit n then Inl (ArtifactLimit (u64_of_usize (length (node_bytes n)))
            MAX_ARTIFACT_INPUT_BYTES_V1)
          else if fingerprint env n = ref_identity entry then Inr q
          else Inl (IdentityChanged (ref_token entry)))"

lemma resolve_stored:
  fixes env :: "('st, 'json) ref_env"
  assumes "parse_token s = (Inr t :: 'json registry_error + string)"
    and "read_entry env reg t w = (Inr entry, w)" "ref_path_encoding entry = ''unix-bytes-v1''"
    and "b64_decode env (ref_path_base64 entry) = Some q"
    and "faults w (OpenFile q) = None" "faults w (ReadFile q) = None"
  shows "resolve env reg s w = (file_verdict env entry q (lookup w q), w)"
proof -
  let ?rest = "\<lambda>source. io_bind (io_lift (enforce_artifact_limit
      (u64_of_usize (length (node_bytes source)))))
    (\<lambda>_. io_bind (hash_file env q source)
    (\<lambda>sha. if node_kind source \<noteq> RegularFile \<or> make_identity source sha \<noteq> ref_identity entry
      then io_fail (IdentityChanged t) else io_return q))"
  have t: "ref_token entry = t"
    using assms(2) by (simp add: read_entry_Inr)
  have opened: "resolve env reg s w = io_bind (open_or (IdentityChanged t) q) ?rest w"
    using assms(1-4) by (simp add: resolve_def io_bind_def ok_or_def decode_path_def)
  show ?thesis
  proof (cases "lookup w q")
    case None
    then show ?thesis
      using assms(5) by (simp add: opened io_bind_def open_or_missing file_verdict_def t)
  next
    case (Some n)
    show ?thesis
    proof (cases "openable n")
      case True
      then have "resolve env reg s w = ?rest n w"
        using assms(5) Some unfolding opened by (intro io_bind_simps(2)) (simp add: open_or_Inr)
      moreover have "hash_file env q n w = (if node_kind n = Directory
          then (Inl (RegistryIo (OtherIo ''is a directory'')), w)
          else (Inr (b64_encode env (content_digest env (node_bytes n))), w))"
        using assms(6) by (simp add: hash_file_def reg_fs_def io_map_err_def io_bind_def read_file_def
            content_digest_def)
      ultimately show ?thesis
        using Some True by (auto simp: io_bind_def enforce_artifact_limit_def within_limit_def
            fingerprint_def file_verdict_def irregular_error_def openable_def t Let_def not_le)
    next
      case False
      then have "open_or (IdentityChanged t) q w = (Inl (irregular_error n :: 'json registry_error), w)"
        using Some assms(5) by (simp add: open_or_def io_map_err_def open_file_def io_bind_def
            irregular_error_def openable_def split: node_kind.splits)
      then show ?thesis
        using Some False by (simp add: opened file_verdict_def openable_def)
    qed
  qed
qed

lemma from_utf8_Inr: "ok_or e (from_utf8 p) = Inr v \<longleftrightarrow> utf8_valid p \<and> v = p"
  by (auto simp: ok_or_def from_utf8_def)

lemma check_ref_path_Inr [result_iff]:
  "check_ref_path encoding p = Inr u \<longleftrightarrow>
     encoding = ''unix-bytes-v1'' \<and> is_absolute p \<or>
     encoding = ''utf8-v1'' \<and> utf8_valid p \<and> ref_windows_absolute p"
  by (auto simp: check_ref_path_def is_absolute_def try_bind_Inr_iff from_utf8_Inr)

lemma map_err_Inr: "map_err f r = Inr a \<longleftrightarrow> r = Inr a"
  by (cases r) (simp_all add: map_err_def)

lemma if_Inl_Inr: "(if c then Inl e else r) = Inr a \<longleftrightarrow> \<not> c \<and> r = Inr a"
  by simp

lemma validate_ref_Inr:
  "validate_ref dec r = Inr u \<longleftrightarrow>
     ref_schema r = ARTIFACT_REF_SCHEMA_V1 \<and> valid_token (strip_reference (ref_token r)) \<and>
     (\<exists>p. dec (ref_path_base64 r) = Some p \<and> p \<noteq> [] \<and> CHR 0x00 \<notin> set p \<and>
       check_ref_path (ref_path_encoding r) p = Inr ()) \<and>
     (\<exists>d. dec (identity_sha256_base64 (ref_identity r)) = Some d \<and> length d = 32) \<and>
     identity_size (ref_identity r) \<le> u64_of_usize MAX_ARTIFACT_INPUT_BYTES_V1"
  unfolding validate_ref_def
  by (simp add: try_bind_Inr_iff map_err_Inr parse_token_Inr ok_or_Inr_iff if_Inl_Inr not_less) blast

text \<open>A record whose token carries a reference prefix is validated like the bare one.\<close>

lemma validate_ref_prefixed_token:
  assumes "valid_token t"
  shows "validate_ref dec (r\<lparr>ref_token := ''@'' @ t\<rparr>) = Inr () \<longleftrightarrow>
    validate_ref dec (r\<lparr>ref_token := t\<rparr>) = Inr ()"
  using strip_reference_forms [OF assms] by (simp add: validate_ref_Inr)

text \<open>The functions of the crates, as far as the registry relies on them.\<close>

definition ref_env_ok :: "('st, 'json) ref_env \<Rightarrow> bool" where
  "ref_env_ok env \<longleftrightarrow>
     standard_engine (b64_encode env) (b64_decode env) \<and>
     (\<forall>r bs. ref_to_json env r = Inr bs \<longrightarrow> ref_from_json env bs = Inr r) \<and>
     (\<forall>st. length (sha_finalize env st) = 32)"

lemma ref_env_decode: "ref_env_ok env \<Longrightarrow> b64_decode env (b64_encode env bs) = Some bs"
  by (simp add: ref_env_ok_def standard_engine_def base64_engine_def)

lemma entry_of_sel [simp]:
  "ref_token (entry_of env p i now t) = t" "ref_identity (entry_of env p i now t) = i"
  "ref_path_base64 (entry_of env p i now t) = b64_encode env p"
  "ref_path_encoding (entry_of env p i now t) = ''unix-bytes-v1''"
  "ref_schema (entry_of env p i now t) = ARTIFACT_REF_SCHEMA_V1"
  by (simp_all add: entry_of_def)

text \<open>The record of a registered file is valid.\<close>

lemma entry_of_valid:
  assumes "ref_env_ok env" "valid_token t" "is_absolute q" "CHR 0x00 \<notin> set q" "within_limit n"
  shows "validate_ref (b64_decode env) (entry_of env q (fingerprint env n) now t) = Inr ()"
proof -
  have "length (content_digest env (node_bytes n)) = 32"
    using assms(1) by (simp add: content_digest_def ref_env_ok_def)
  then show ?thesis
    using assms strip_reference_forms(3) [OF assms(2)]
    by (auto simp: validate_ref_Inr check_ref_path_Inr ref_env_decode fingerprint_def
        make_identity_def within_limit_def)
qed

text \<open>Everything a successful registration establishes: \<open>v\<close> is the world after the directories are
  made, in which the file is looked at.\<close>

lemma register_Inr:
  fixes env :: "('st, 'json) ref_env"
  assumes "register env reg clock fill p w = (Inr e, w')"
  shows "\<exists>v q n now t bs. ensure_dirs reg w = (Inr () :: 'json registry_error + unit, v) \<and>
    q = follow v p \<and> nodes v q = Some n \<and> node_kind n = RegularFile \<and> within_limit n \<and>
    clock = Some now \<and> valid_token t \<and> e = entry_of env q (fingerprint env n) now t \<and>
    ref_to_json env e = Inr bs \<and> nodes v (entry_path reg t) = None \<and>
    w' = put_node (latest_path reg) (new_file v (latest_line t))
      (put_node (entry_path reg t) (new_file v bs) v)"
proof -
  from assms obtain u v q n' where dirs: "ensure_dirs reg w = (Inr u :: 'json registry_error + unit, v)"
    and q: "q = follow v p" "nodes v q = Some n'" "\<forall>t. node_kind n' \<noteq> SymbolicLink t"
    and rest: "io_bind (reg_fs (open_file q))
       (\<lambda>source. if node_kind source \<noteq> RegularFile then io_fail (NotRegularFile q)
         else io_bind (io_lift (enforce_artifact_limit (u64_of_usize (length (node_bytes source)))))
       (\<lambda>_. io_bind (hash_file env q source)
       (\<lambda>sha. io_bind (io_lift (ok_or ClockBeforeEpoch clock))
       (\<lambda>now. register_attempts env reg q (make_identity source sha) now fill 16)))) v = (Inr e, w')"
    unfolding register_def io_bind_Inr_iff [of "ensure_dirs reg"] io_bind_Inr_iff [of "reg_fs (canonicalize p)"]
    by (auto simp: reg_fs_def io_map_err_Inr_iff canonicalize_Inr)
  have "lookup v q = Some n'"
    using q by (auto simp: lookup_def follow_def split: node_kind.splits)
  with rest obtain now where now: "node_kind n' = RegularFile" "within_limit n'" "clock = Some now"
    "register_attempts env reg q (fingerprint env n') now fill 16 v = (Inr e, w')"
    by (auto simp: io_bind_Inr_iff io_lift_Inr_iff reg_fs_def io_map_err_Inr_iff open_file_Inr
        hash_file_Inr enforce_artifact_limit_Inr ok_or_def fingerprint_def
        split: option.splits if_splits)
  from register_attempts_Inr [OF now(4)] dirs q(1,2) now(1-3) show ?thesis
    by auto
qed

lemma trim_latest_line:
  assumes "valid_token t"
  shows "from_utf8 (latest_line t) = Some (latest_line t)" "trim (latest_line t) = ''@'' @ t"
proof -
  have ascii: "list_all ascii_byte (latest_line t)"
    using valid_token_shape(5) [OF assms] by (simp add: latest_line_def ascii_byte_def)
  then show "from_utf8 (latest_line t) = Some (latest_line t)"
    by (simp add: from_utf8_def utf8_valid_ascii)
  obtain c cs where rev: "rev t = c # cs" "c \<in> set t"
    using valid_token_shape(1) [OF assms] by (metis list.exhaust list.set_intros(1) rev_is_Nil_conv set_rev)
  then have "c \<in> set TOKEN_ALPHABET"
    using assms by (auto simp: valid_token_def list_all_iff)
  then have white: "\<not> is_white_space (of_char c)" "is_white_space 10" "\<not> is_white_space 64"
    by (auto simp: TOKEN_ALPHABET_def is_white_space_def)
  then have "dropWhile is_white_space (rev (decode_lossy (latest_line t))) = of_char c # map of_char (cs @ ''@'')"
    by (simp add: decode_lossy_ascii [OF ascii]) (simp add: latest_line_def rev_map rev white)
  moreover have "dropWhile is_white_space (decode_lossy (latest_line t)) = decode_lossy (latest_line t)"
    by (simp add: decode_lossy_ascii [OF ascii]) (simp add: latest_line_def white)
  ultimately have "trim (latest_line t) = encode_chars (rev (map of_char (rev (''@'' @ t))))"
    by (simp add: trim_def rev)
  moreover have "list_all ascii_byte (''@'' @ t)"
    using valid_token_shape(5) [OF assms] by (simp add: ascii_byte_def)
  ultimately show "trim (latest_line t) = ''@'' @ t"
    using encode_char_byte [of "CHR ''@''"] by (simp add: rev_map encode_chars_ascii)
qed

lemma resolve_latest_points:
  assumes "valid_token t" "nodes w (latest_path reg) = Some n" "node_kind n = RegularFile"
    and "node_bytes n = latest_line t" "faults w = (\<lambda>_. None)"
  shows "resolve_latest env reg w = resolve env reg (''@'' @ t) w"
proof -
  have "lookup w (latest_path reg) = Some n"
    using assms(2,3) by (simp add: lookup_def follow_def)
  then show ?thesis
    using assms(3-5) trim_latest_line [OF assms(1)]
    by (simp add: resolve_latest_def io_bind_def reg_fs_def io_map_err_def open_file_def read_file_def)
qed

text \<open>In a world without faults, the stored record of a registered file is read back.\<close>

lemma read_entry_stored:
  assumes "ref_env_ok env" "valid_token t" "e = entry_of env q (fingerprint env n) now t" "within_limit n"
    and "is_absolute q" "CHR 0x00 \<notin> set q" "ref_to_json env e = Inr bs" "length bs \<le> MAX_ENTRY_BYTES"
    and "nodes v (entry_path reg t) = Some m" "node_kind m = RegularFile" "node_bytes m = bs"
    and "faults v = (\<lambda>_. None)"
  shows "read_entry env reg t v = (Inr e, v)"
proof -
  have "lookup v (entry_path reg t) = Some m"
    using assms(9,10) by (simp add: lookup_def follow_def)
  moreover have "validate_ref (b64_decode env) e = Inr ()"
    unfolding assms(3) by (rule entry_of_valid) fact+
  moreover have "ref_from_json env bs = Inr e"
    using assms(1,7) by (simp add: ref_env_ok_def)
  ultimately show ?thesis
    using assms(8,10,11,12) by (simp add: read_entry_Inr) (simp add: assms(3))
qed

lemma read_entry_registered:
  fixes env :: "('st, 'json) ref_env"
  assumes "register env reg clock fill p w = (Inr e, w')" "ref_env_ok env"
    and "b64_decode env (ref_path_base64 e) = Some q" "is_absolute q" "CHR 0x00 \<notin> set q"
    and "ref_to_json env e = Inr bs" "length bs \<le> MAX_ENTRY_BYTES"
    and "nodes v (entry_path reg (ref_token e)) = nodes w' (entry_path reg (ref_token e))"
    and "faults v = (\<lambda>_. None)"
  shows "read_entry env reg (ref_token e) v = (Inr e, v)"
proof -
  from register_Inr [OF assms(1)] obtain u n now t bs' where *: "within_limit n" "valid_token t"
    "e = entry_of env (follow u p) (fingerprint env n) now t" "ref_to_json env e = Inr bs'"
    "w' = put_node (latest_path reg) (new_file u (latest_line t))
      (put_node (entry_path reg t) (new_file u bs') u)"
    by auto
  have q: "q = follow u p" and t: "ref_token e = t"
    using assms(3) by (simp_all add: *(3) ref_env_decode [OF assms(2)])
  have "nodes v (entry_path reg t) = Some (new_file u bs)"
    using assms(6,8) *(4) entry_not_latest [OF *(2), of reg] by (simp add: t *(5))
  with assms(4-7,9) show ?thesis
    unfolding t q by (intro read_entry_stored [OF assms(2) *(2,3,1)]) auto
qed

text \<open>No step of a registration after its directories touches a node other than the latest pointer.\<close>

definition keeps_node :: "path \<Rightarrow> unix_world \<Rightarrow> unix_world \<Rightarrow> bool" where
  "keeps_node p w w' \<longleftrightarrow> (nodes w p = None \<or> nodes w' p = nodes w p)"

lemma keeps_node_same [simp]: "nodes w' p = nodes w p \<Longrightarrow> keeps_node p w w'"
  by (simp add: keeps_node_def)

lemma keeps_node_trans: "keeps_node p a b \<Longrightarrow> keeps_node p b c \<Longrightarrow> keeps_node p a c"
  by (auto simp: keeps_node_def)

lemma io_map_err_snd [simp]: "snd (io_map_err f m w) = snd (m w)"
  by (simp add: io_map_err_def prod.case_eq_if)

lemma io_bind_state: "Q (snd (m w)) \<Longrightarrow> (\<And>a v. Q v \<Longrightarrow> Q (snd (f a v))) \<Longrightarrow> Q (snd (io_bind m f w))"
  unfolding io_bind_def by (auto split: prod.splits sum.splits)

lemma io_bind_keeps_node:
  "keeps_node p w (snd (m w)) \<Longrightarrow> (\<And>a v. keeps_node p v (snd (f a v))) \<Longrightarrow> keeps_node p w (snd (io_bind m f w))"
  by (rule io_bind_state) (auto intro: keeps_node_trans)

lemma persist_noclobber_keeps_node: "keeps_node p w (snd (persist_noclobber q bs w))"
  by (auto simp: keeps_node_def persist_noclobber_def io_bind_def fs_guard_def split: option.splits)

lemma write_latest_keeps_node:
  "p \<noteq> latest_path reg \<Longrightarrow> keeps_node p w (snd (write_latest reg t w :: ('json registry_error + unit) \<times> unix_world))"
  unfolding write_latest_def reg_fs_def
  by (intro io_bind_keeps_node) (auto simp: fs_reads_keep persist_def io_bind_def fs_guard_def split: option.splits)

lemma register_attempts_keeps_node:
  assumes "p \<noteq> latest_path reg"
  shows "keeps_node p w (snd (register_attempts env reg q identity now fill n w))"
proof (induction n arbitrary: w)
  case (Suc n)
  have temp: "snd (temp_file d w) = w" for d
    by (rule fs_reads_keep(5))
  have latest: "keeps_node p v (snd (io_bind (write_latest reg token) (\<lambda>_. io_return e) v))" for token e v
    using write_latest_keeps_node [OF assms] by (intro io_bind_keeps_node) simp_all
  have persist: "keeps_node p w v" if "persist_noclobber r bs w = (x, v)" for r bs x v
    using persist_noclobber_keeps_node [of p w r bs] that by simp
  note stored = keeps_node_trans [OF persist latest] and taken = keeps_node_trans [OF persist Suc.IH]
  show ?case
    using temp persist
    by (auto simp: Let_def split: sum.splits prod.splits intro: stored taken)
      (metis fs_reads_keep(5) snd_conv stored taken persist keeps_node_same)+
qed simp

text \<open>The modes of the two directories are set; a link in the place of one of them leads elsewhere.\<close>

definition leads_to :: "unix_world \<Rightarrow> path \<Rightarrow> path \<Rightarrow> bool" where
  "leads_to w d p \<longleftrightarrow> (case nodes w d of None \<Rightarrow> False | Some l \<Rightarrow> node_kind l = SymbolicLink p)"

definition only_tightened :: "registry \<Rightarrow> path \<Rightarrow> unix_world \<Rightarrow> file_node \<Rightarrow> unix_world \<Rightarrow> bool" where
  "only_tightened reg p w n v \<longleftrightarrow>
     (\<forall>d. leads_to v d p \<longrightarrow> leads_to w d p) \<and>
     (nodes v p = Some n \<or>
      nodes v p = Some (n\<lparr>node_mode := 0x1C0\<rparr>) \<and> (leads_to w (registry_root reg) p \<or> leads_to w (refs_dir reg) p))"

lemma make_dirs_new:
  "nodes w d = None \<Longrightarrow> map_option node_kind (nodes (snd (make_dirs qs w)) d) \<in> {None, Some Directory}"
proof (induction qs arbitrary: w)
  case (Cons q qs)
  obtain r v where run: "make_dirs qs w = (r, v)" by fastforce
  with Cons.IH [OF Cons.prems] Cons.prems show ?case
    by (cases r) (auto simp: io_bind_def)
qed simp

lemma make_dirs_leads_to: "leads_to (snd (make_dirs qs w)) d p \<Longrightarrow> leads_to w d p"
  using make_dirs_new [of w d qs] make_dirs_keeps_files [of w d _ qs]
  by (cases "nodes w d") (auto simp: leads_to_def split: option.splits)

lemma create_dir_all_tightened:
  assumes "nodes w p = Some n"
  shows "only_tightened reg p w n (snd (create_dir_all d w))"
proof -
  have "nodes (snd (create_dir_all d w)) p = Some n"
    using assms by (auto simp: create_dir_all_def io_bind_def fs_guard_def make_dirs_keeps_files split: option.splits)
  moreover have "leads_to (snd (create_dir_all d w)) q p \<Longrightarrow> leads_to w q p" for q
    by (auto simp: create_dir_all_def io_bind_def fs_guard_def split: option.splits dest: make_dirs_leads_to)
  ultimately show ?thesis
    by (simp add: only_tightened_def)
qed

lemma set_permissions_tightened:
  assumes "only_tightened reg p w n v" "d \<in> {registry_root reg, refs_dir reg}" "d \<noteq> p"
  shows "only_tightened reg p w n (snd (set_permissions d 0x1C0 v))"
proof (cases "\<exists>l. lookup v d = Some l \<and> faults v (SetPermissions d) = None")
  case True
  then obtain l where l: "lookup v d = Some l"
    "snd (set_permissions d 0x1C0 v) = put_node (follow v d) (l\<lparr>node_mode := 0x1C0\<rparr>) v"
    by (auto simp: set_permissions_def io_bind_def fs_guard_def)
  have "leads_to v d p" if "follow v d = p"
    using that assms(3) by (auto simp: follow_def leads_to_def split: option.splits node_kind.splits)
  moreover have "leads_to (put_node (follow v d) (l\<lparr>node_mode := 0x1C0\<rparr>) v) q p \<Longrightarrow> leads_to v q p" for q
    using l(1) by (auto simp: leads_to_def lookup_def split: if_splits)
  ultimately show ?thesis
    using assms(1,2) l by (auto simp: only_tightened_def lookup_def)
next
  case False
  then have "snd (set_permissions d 0x1C0 v) = v"
    by (auto simp: set_permissions_def io_bind_def fs_guard_def split: option.splits)
  with assms(1) show ?thesis by simp
qed

lemma ensure_dirs_tightened:
  assumes "nodes w p = Some n" "p \<noteq> registry_root reg" "p \<noteq> refs_dir reg"
  shows "only_tightened reg p w n (snd (ensure_dirs reg w :: ('json registry_error + unit) \<times> unix_world))"
  unfolding ensure_dirs_def reg_fs_def using assms(2,3)
  by (intro io_bind_state [where Q = "only_tightened reg p w n"])
    (auto intro: create_dir_all_tightened assms(1) set_permissions_tightened)

lemma register_tightened:
  fixes env :: "('st, 'json) ref_env"
  assumes "nodes w p = Some n" "p \<noteq> registry_root reg" "p \<noteq> refs_dir reg" "p \<noteq> latest_path reg"
  shows "nodes (snd (register env reg clock fill q w)) p = Some n \<or>
    nodes (snd (register env reg clock fill q w)) p = Some (n\<lparr>node_mode := 0x1C0\<rparr>) \<and>
      (leads_to w (registry_root reg) p \<or> leads_to w (refs_dir reg) p)" (is "?tight (snd (register env reg clock fill q w))")
  unfolding register_def
proof (rule io_bind_state [where Q = ?tight], goal_cases)
  case 1
  show ?case
    using ensure_dirs_tightened [OF assms(1-3), where 'json = 'json] by (simp add: only_tightened_def)
next
  case (2 u v)
  have "keeps_node p v (snd (io_bind (reg_fs (canonicalize q)) (\<lambda>canonical. io_bind (reg_fs (open_file canonical))
       (\<lambda>source.
         if node_kind source \<noteq> RegularFile then io_fail (NotRegularFile canonical)
         else io_bind (io_lift (enforce_artifact_limit (u64_of_usize (length (node_bytes source)))))
       (\<lambda>_. io_bind (hash_file env canonical source)
       (\<lambda>sha. io_bind (io_lift (ok_or ClockBeforeEpoch clock))
       (\<lambda>now. register_attempts env reg canonical (make_identity source sha) now fill 16))))) v))"
    unfolding reg_fs_def hash_file_def
    by (intro io_bind_keeps_node)
      (auto simp: fs_reads_keep register_attempts_keeps_node [OF assms(4)] intro!: io_bind_keeps_node)
  with 2 show ?case
    by (auto simp: keeps_node_def)
qed

lemma entry_not_dir:
  assumes "valid_token t"
  shows "entry_path reg t \<noteq> registry_root reg" "entry_path reg t \<noteq> refs_dir reg"
proof -
  have longer: "length a < length (path_join a b)" if "\<not> is_absolute b" "b \<noteq> []" for a b
    using that by (simp add: path_join_def)
  have "length (registry_root reg) < length (refs_dir reg)" "length (refs_dir reg) < length (entry_path reg t)"
    unfolding refs_dir_def entry_path_def by (intro longer; simp add: token_file_relative assms)+
  then show "entry_path reg t \<noteq> registry_root reg" "entry_path reg t \<noteq> refs_dir reg"
    by auto
qed

text \<open>What resolving a registered file answers in any world that keeps its entry.\<close>

lemma resolve_read:
  fixes env :: "('st, 'json) ref_env"
  assumes "read_entry env reg (ref_token e) v = (Inr e, v)" "valid_token (ref_token e)"
    and "ref_path_encoding e = ''unix-bytes-v1''" "b64_decode env (ref_path_base64 e) = Some q"
    and "faults v = (\<lambda>_. None)" "s \<in> {ref_token e, short_ref e, ref_uri e}"
  shows "resolve env reg s v = (file_verdict env e q (lookup v q), v)"
proof -
  have "(parse_token s :: 'json registry_error + string) = Inr (ref_token e)"
    using assms(6) strip_reference_forms [OF assms(2)] assms(2)
    by (auto simp: parse_token_Inr short_ref_def ref_uri_def)
  then show ?thesis
    by (rule resolve_stored) (use assms in simp_all)
qed

lemma resolve_kept:
  fixes env :: "('st, 'json) ref_env"
  assumes "register env reg clock fill p w = (Inr e, w')" "ref_env_ok env"
    and "ref_to_json env e = Inr bs" "length bs \<le> MAX_ENTRY_BYTES"
    and "b64_decode env (ref_path_base64 e) = Some q" "is_absolute q" "CHR 0x00 \<notin> set q"
    and "nodes v (entry_path reg (ref_token e)) = nodes w' (entry_path reg (ref_token e))"
    and "faults v = (\<lambda>_. None)" "s \<in> {ref_token e, short_ref e, ref_uri e}"
  shows "resolve env reg s v = (file_verdict env e q (lookup v q), v)"
proof -
  from register_Inr [OF assms(1)] obtain q' i now t where *: "valid_token t" "e = entry_of env q' i now t"
    by auto
  then show ?thesis
    using assms(5,9,10) by (intro resolve_read read_entry_registered [OF assms(1,2,5,6,7,3,4,8,9)]) simp_all
qed

section \<open>Properties\<close>

text \<open>A reference is accepted exactly when it is a token in one of its three forms: bare, with
  \<open>@\<close>, or behind the URI prefix; the token is what is returned.\<close>

theorem parse_token_exact:
  "(parse_token s :: 'json registry_error + string) = Inr t \<longleftrightarrow>
     valid_token t \<and> s \<in> {t, ''@'' @ t, ARTIFACT_REF_URI_PREFIX @ t}"
  using strip_reference_cases [of s t] strip_reference_forms [of t]
  by (auto simp: parse_token_Inr)

text \<open>Tokens made of 8 random bytes are valid, and different bytes give different tokens: the
  13 digits of 5 bits lose none of the 64 bits.\<close>

theorem random_token_injective:
  assumes "length xs = TOKEN_BYTES" "length ys = TOKEN_BYTES"
  shows "\<exists>t. (random_token (Inr xs :: 'r + bytes) :: 'json registry_error + string) = Inr t \<and>
    valid_token t \<and>
    ((random_token (Inr ys :: 'r + bytes) :: 'json registry_error + string) = Inr t \<longleftrightarrow> xs = ys)"
proof -
  have tokens: "(random_token (Inr zs :: 'r + bytes) :: 'json registry_error + string)
      = Inr (token_digits 13 (big_endian zs))" "big_endian zs < 32 ^ 13"
    if "length zs = TOKEN_BYTES" for zs
    using that big_endian_less [of zs] by (simp_all add: random_token_Inr TOKEN_BYTES_def)
  have "token_digits 13 (big_endian ys) = token_digits 13 (big_endian xs) \<Longrightarrow> xs = ys"
    using token_digits_inj tokens(2) [OF assms(1)] tokens(2) [OF assms(2)] big_endian_inj assms
    by metis
  then show ?thesis
    using tokens(1) [OF assms(1)] tokens(1) [OF assms(2)] random_token_valid [OF tokens(1) [OF assms(1)]]
    by auto
qed

theorem random_token_injective_witness:
  "\<exists>t. (random_token (Inr ''abcdefgh'' :: unit + bytes) :: unit registry_error + string) = Inr t \<and>
     valid_token t"
  using random_token_injective [of "''abcdefgh''" "''abcdefgh''", where 'r = unit and 'json = unit]
  by (auto simp: TOKEN_BYTES_def)

text \<open>The portable validation of a record accepts exactly: the schema, a token in one of its
  forms, a non-empty path without NUL that is absolute in the encoding it names, a digest of 32
  bytes and a size within the limit.\<close>

theorem validate_ref_exact:
  "validate_ref dec r = Inr () \<longleftrightarrow>
     ref_schema r = ARTIFACT_REF_SCHEMA_V1 \<and>
     (\<exists>t. valid_token t \<and> ref_token r \<in> {t, ''@'' @ t, ARTIFACT_REF_URI_PREFIX @ t}) \<and>
     (\<exists>p. dec (ref_path_base64 r) = Some p \<and> CHR 0x00 \<notin> set p \<and>
       (ref_path_encoding r = ''unix-bytes-v1'' \<and> is_absolute p \<or>
        ref_path_encoding r = ''utf8-v1'' \<and> utf8_valid p \<and> ref_windows_absolute p)) \<and>
     (\<exists>d. dec (identity_sha256_base64 (ref_identity r)) = Some d \<and> length d = 32) \<and>
     identity_size (ref_identity r) \<le> 33554432"
proof -
  have token: "valid_token (strip_reference s) \<longleftrightarrow>
      (\<exists>t. valid_token t \<and> s \<in> {t, ''@'' @ t, ARTIFACT_REF_URI_PREFIX @ t})" for s
    using strip_reference_cases [of s] strip_reference_forms by auto
  have path: "p \<noteq> [] \<and> CHR 0x00 \<notin> set p \<and> check_ref_path encoding p = Inr () \<longleftrightarrow>
      CHR 0x00 \<notin> set p \<and> (encoding = ''unix-bytes-v1'' \<and> is_absolute p \<or>
        encoding = ''utf8-v1'' \<and> utf8_valid p \<and> ref_windows_absolute p)" for p encoding
    by (cases p) (auto simp: check_ref_path_Inr)
  have limit: "u64_of_usize MAX_ARTIFACT_INPUT_BYTES_V1 = 33554432"
    by (simp add: u64_of_usize_def MAX_ARTIFACT_INPUT_BYTES_V1_def)
  show ?thesis
    unfolding validate_ref_Inr token path limit ..
qed

text \<open>C21: A registered file resolves under all its references and as the latest one, as long as the
  entry is read back and the file is not the pointer file itself.\<close>

theorem register_resolve_roundtrip:
  fixes env :: "('st, 'json) ref_env"
  assumes "register env reg clock fill p w = (Inr e, w')" "ref_env_ok env" "faults w' = (\<lambda>_. None)"
    and "ref_to_json env e = Inr bs" "length bs \<le> MAX_ENTRY_BYTES"
    and "b64_decode env (ref_path_base64 e) = Some q" "is_absolute q" "CHR 0x00 \<notin> set q"
    and "q \<noteq> latest_path reg"
  shows "list_all (\<lambda>s. resolve env reg s w' = (Inr q, w')) [ref_token e, short_ref e, ref_uri e] \<and>
    resolve_latest env reg w' = (Inr q, w')"
proof -
  from register_Inr [OF assms(1)] obtain u n now t bs' where *: "nodes u (follow u p) = Some n"
    "node_kind n = RegularFile" "within_limit n" "valid_token t"
    "e = entry_of env (follow u p) (fingerprint env n) now t"
    "nodes u (entry_path reg t) = None"
    "w' = put_node (latest_path reg) (new_file u (latest_line t))
      (put_node (entry_path reg t) (new_file u bs') u)"
    by auto
  have q: "q = follow u p"
    using assms(6) by (simp add: *(5) ref_env_decode [OF assms(2)])
  have "nodes w' q = Some n"
    using *(1,6) assms(9) by (auto simp: q *(7))
  then have "lookup w' q = Some n"
    by (simp add: lookup_def follow_def *(2))
  then have forms: "resolve env reg s w' = (Inr q, w')" if "s \<in> {ref_token e, short_ref e, ref_uri e}" for s
    using resolve_kept [OF assms(1,2,4,5,6,7,8) refl assms(3) that] *(2,3) by (simp add: *(5) file_verdict_def)
  have "resolve_latest env reg w' = resolve env reg (''@'' @ t) w'"
    by (rule resolve_latest_points [where n = "new_file u (latest_line t)", OF *(4) _ _ _ assms(3)]) (simp_all add: *(7))
  then show ?thesis
    using forms by (simp add: *(5) short_ref_def)
qed

text \<open>Resolving never changes the world, and what it returns is the recorded file: a valid
  entry is stored under the token, and its path leads to a regular file within the limit whose
  size, modification time, device, inode and digest are those recorded.\<close>

theorem resolve_checks_identity:
  fixes env :: "('st, 'json) ref_env"
  assumes "resolve env reg s w = (Inr q, w')"
  shows "w' = w \<and> (\<exists>t entry n stored. valid_token t \<and> s \<in> {t, ''@'' @ t, ARTIFACT_REF_URI_PREFIX @ t} \<and>
    lookup w (entry_path reg t) = Some stored \<and> ref_from_json env (node_bytes stored) = Inr entry \<and>
    validate_ref (b64_decode env) entry = Inr () \<and> ref_token entry = t \<and>
    b64_decode env (ref_path_base64 entry) = Some q \<and> is_absolute q \<and>
    lookup w q = Some n \<and> node_kind n = RegularFile \<and> within_limit n \<and>
    fingerprint env n = ref_identity entry)"
proof -
  from resolve_Inr [OF assms] obtain t entry n stored where
    *: "(parse_token s :: 'json registry_error + string) = Inr t"
    "lookup w (entry_path reg t) = Some stored" "ref_from_json env (node_bytes stored) = Inr entry"
    "validate_ref (b64_decode env) entry = Inr ()" "ref_token entry = t"
    "ref_path_encoding entry = ''unix-bytes-v1''" "b64_decode env (ref_path_base64 entry) = Some q"
    "lookup w q = Some n" "node_kind n = RegularFile" "within_limit n"
    "fingerprint env n = ref_identity entry" "w' = w"
    by (auto simp: read_entry_Inr)
  then have "is_absolute q"
    by (auto simp: validate_ref_Inr check_ref_path_Inr)
  with * strip_reference_cases [of s t] show ?thesis
    by (auto simp: parse_token_Inr)
qed

text \<open>C8: A later change of the file is noticed: as long as the entry is kept, resolving it in any
  later world gives the verdict on the file then found: the path exactly when it is a regular file
  within the limit with the recorded identity, and otherwise the error for a missing, changed,
  oversized or irregular file.\<close>

theorem change_detected:
  fixes env :: "('st, 'json) ref_env"
  assumes "register env reg clock fill p w = (Inr e, w')" "ref_env_ok env"
    and "ref_to_json env e = Inr bs" "length bs \<le> MAX_ENTRY_BYTES"
    and "b64_decode env (ref_path_base64 e) = Some q" "is_absolute q" "CHR 0x00 \<notin> set q"
    and "nodes v (entry_path reg (ref_token e)) = nodes w' (entry_path reg (ref_token e))"
    and "faults v = (\<lambda>_. None)"
  shows "resolve env reg (short_ref e) v = (file_verdict env e q (lookup v q), v)"
  using resolve_kept [OF assms] by simp

text \<open>A concrete registration, for the instances below: the encoder knows one record, and the hash
  keeps the first bytes of the content.\<close>

definition demo_node :: file_node where
  "demo_node = \<lparr>node_kind = RegularFile, node_bytes = ''png'', node_mode = 0x1A4,
     node_modified = Some 7, node_device = 1, node_inode = 9\<rparr>"

definition demo_world :: unix_world where
  "demo_world = put_node ''/a'' demo_node empty_world"

definition demo_registry :: registry where
  "demo_registry = \<lparr>registry_root = ''/s''\<rparr>"

definition demo_token :: string where
  "demo_token = ''0000000000000''"

definition demo_entry :: artifact_ref where
  "demo_entry = \<lparr>ref_schema = ARTIFACT_REF_SCHEMA_V1, ref_token = demo_token,
     ref_path_encoding = ''unix-bytes-v1'', ref_path_base64 = std_encode ''/a'',
     ref_identity = make_identity demo_node (std_encode (take 32 (''png'' @ replicate 32 (CHR ''0'')))),
     registered_at_unix_ms = 5\<rparr>"

definition demo_env :: "(bytes, unit) ref_env" where
  "demo_env = \<lparr>sha_new = [], sha_update = (@), sha_finalize = (\<lambda>st. take 32 (st @ replicate 32 (CHR ''0''))),
     b64_encode = std_encode, b64_decode = std_decode,
     ref_to_json = (\<lambda>r. if r = demo_entry then Inr ''{}'' else Inl ()),
     ref_from_json = (\<lambda>_. Inr demo_entry)\<rparr>"

definition demo_fill :: "nat \<Rightarrow> unit + bytes" where
  "demo_fill n = Inr (replicate 8 (CHR 0x00))"

lemma demo_env_ok: "ref_env_ok demo_env"
  using rfc_standard.standard_engine_axioms by (auto simp: ref_env_ok_def demo_env_def min_def)

lemma big_endian_zero: "big_endian (replicate n (CHR 0x00)) = 0"
  by (induction n) (simp_all add: big_endian_def)

lemma token_digits_zero: "token_digits n 0 = replicate n (CHR ''0'')"
  by (induction n) (simp_all add: TOKEN_ALPHABET_def replicate_append_same)

lemma demo_random_token: "(random_token (demo_fill n) :: 'json registry_error + string) = Inr demo_token"
proof -
  have "demo_token = replicate 13 (CHR ''0'')"
    by (simp add: demo_token_def numeral_eq_Suc)
  then show ?thesis
    using random_token_Inr [OF length_replicate, of "CHR 0x00"]
    by (simp only: demo_fill_def big_endian_zero token_digits_zero)
qed

lemma demo_fingerprint: "make_identity demo_node (b64_encode demo_env (content_digest demo_env ''png''))
    = ref_identity demo_entry"
  by (simp add: demo_entry_def demo_env_def content_digest_def chunks.simps)

lemma demo_paths:
  "refs_dir demo_registry = ''/s/refs''" "registry_root demo_registry = ''/s''"
  "entry_path demo_registry demo_token = ''/s/refs/0000000000000.json''"
  "latest_path demo_registry = ''/s/latest''"
  by (simp_all add: refs_dir_def entry_path_def latest_path_def demo_registry_def demo_token_def
      path_join_def)

lemma demo_dirs:
  "\<exists>v. ensure_dirs demo_registry demo_world = (Inr () :: unit registry_error + unit, v) \<and>
    faults v = (\<lambda>_. None) \<and> nodes v ''/a'' = Some demo_node \<and>
    nodes v ''/s/refs/0000000000000.json'' = None"
  by (simp add: ensure_dirs_def demo_paths reg_fs_def io_bind_def io_map_err_def create_dir_all_def
      dir_chain_def upt_rec set_permissions_def fs_guard_def demo_world_def empty_world_def
      lookup_def follow_def put_node_def)

lemma demo_attempts:
  assumes "faults v = (\<lambda>_. None)" "nodes v ''/s/refs/0000000000000.json'' = None"
  shows "\<exists>w'. register_attempts demo_env demo_registry ''/a'' (ref_identity demo_entry) 5 demo_fill 16 v
    = (Inr demo_entry, w') \<and> faults w' = (\<lambda>_. None) \<and> nodes w' ''/a'' = nodes v ''/a''"
proof -
  have entry: "\<lparr>ref_schema = ARTIFACT_REF_SCHEMA_V1, ref_token = demo_token,
      ref_path_encoding = ''unix-bytes-v1'', ref_path_base64 = b64_encode demo_env ''/a'',
      ref_identity = ref_identity demo_entry, registered_at_unix_ms = 5\<rparr> = demo_entry"
    by (simp add: demo_entry_def demo_env_def)
  have "ref_to_json demo_env demo_entry = Inr ''{}''"
    by (simp add: demo_env_def)
  moreover have "temp_file (refs_dir demo_registry) v = (Inr (), v)"
    using assms(1) by (simp add: temp_file_Inr)
  moreover have "persist_noclobber (entry_path demo_registry demo_token) ''{}'' v
      = (Inr (), put_node ''/s/refs/0000000000000.json'' (new_file v ''{}'') v)"
    using assms by (simp add: persist_noclobber_Inr demo_paths new_file_def)
  moreover have "write_latest demo_registry demo_token u
      = (Inr () :: unit registry_error + unit, put_node ''/s/latest'' (new_file u (latest_line demo_token)) u)"
    if "faults u = (\<lambda>_. None)" for u
    using that by (simp add: write_latest_Inr demo_paths)
  ultimately show ?thesis
    using assms(1) register_attempts.simps(2) [of demo_env demo_registry "''/a''" "ref_identity demo_entry"
        5 demo_fill 15 v]
    by (simp add: demo_random_token entry io_bind_def)
qed

lemma demo_register:
  "\<exists>w'. register demo_env demo_registry (Some 5) demo_fill ''/a'' demo_world = (Inr demo_entry, w') \<and>
    faults w' = (\<lambda>_. None) \<and> nodes w' ''/a'' = Some demo_node"
proof -
  obtain v where v: "ensure_dirs demo_registry demo_world = (Inr () :: unit registry_error + unit, v)"
    "faults v = (\<lambda>_. None)" "nodes v ''/a'' = Some demo_node"
    "nodes v ''/s/refs/0000000000000.json'' = None"
    using demo_dirs by blast
  have "node_kind demo_node = RegularFile" "node_bytes demo_node = ''png''"
    by (simp_all add: demo_node_def)
  moreover from this have "canonicalize ''/a'' v = (Inr ''/a'', v)" "open_file ''/a'' v = (Inr demo_node, v)"
    using v(2,3) by (simp_all add: canonicalize_def open_file_def lookup_def follow_def io_bind_def)
  moreover have "enforce_artifact_limit (u64_of_usize (length ''png'')) = (Inr () :: unit registry_error + unit)"
    by (simp add: enforce_artifact_limit_def u64_of_usize_def MAX_ARTIFACT_INPUT_BYTES_V1_def)
  moreover have "hash_file demo_env ''/a'' demo_node v
      = (Inr (b64_encode demo_env (content_digest demo_env ''png'')), v)"
    using v(2) by (simp add: hash_file_Inr demo_node_def)
  ultimately show ?thesis
    using v(1,3) demo_attempts [OF v(2,4)]
    by (simp add: register_def io_bind_def reg_fs_def io_map_err_def demo_fingerprint)
qed

text \<open>What the instances of the registration properties share.\<close>

lemma demo_facts:
  "ref_to_json demo_env demo_entry = Inr ''{}''" "length ''{}'' \<le> MAX_ENTRY_BYTES"
  "b64_decode demo_env (ref_path_base64 demo_entry) = Some ''/a''" "is_absolute ''/a''"
  "CHR 0x00 \<notin> set ''/a''" "''/a'' \<noteq> latest_path demo_registry"
  by (simp_all add: demo_env_def demo_entry_def MAX_ENTRY_BYTES_def demo_paths rfc_standard.dec_enc)

theorem register_resolve_roundtrip_witness:
  "\<exists>w. resolve demo_env demo_registry (short_ref demo_entry) w = (Inr ''/a'', w) \<and>
     resolve_latest demo_env demo_registry w = (Inr ''/a'', w)"
proof -
  obtain w' where "register demo_env demo_registry (Some 5) demo_fill ''/a'' demo_world = (Inr demo_entry, w')"
    "faults w' = (\<lambda>_. None)"
    using demo_register by blast
  from register_resolve_roundtrip [OF this(1) demo_env_ok this(2) demo_facts] show ?thesis
    by auto
qed

lemma demo_resolved: "\<exists>v. resolve demo_env demo_registry demo_token v = (Inr ''/a'', v)"
proof -
  obtain w' where w': "register demo_env demo_registry (Some 5) demo_fill ''/a'' demo_world = (Inr demo_entry, w')"
    "faults w' = (\<lambda>_. None)" "nodes w' ''/a'' = Some demo_node"
    using demo_register by blast
  have "lookup w' ''/a'' = Some demo_node" "within_limit demo_node" "node_kind demo_node = RegularFile"
    "fingerprint demo_env demo_node = ref_identity demo_entry"
    using w'(3) demo_fingerprint
    by (simp_all add: lookup_def follow_def demo_node_def within_limit_def fingerprint_def
        u64_of_usize_def MAX_ARTIFACT_INPUT_BYTES_V1_def)
  then show ?thesis
    using resolve_kept [OF w'(1) demo_env_ok demo_facts(1-5) refl w'(2), of demo_token]
    by (auto simp: demo_entry_def file_verdict_def)
qed

theorem resolve_checks_identity_witness:
  "\<exists>w q (entry :: artifact_ref) n. resolve demo_env demo_registry demo_token w = (Inr q, w) \<and> is_absolute q \<and>
     lookup w q = Some n \<and> fingerprint demo_env n = ref_identity entry"
proof -
  obtain v where v: "resolve demo_env demo_registry demo_token v = (Inr ''/a'', v)"
    using demo_resolved by blast
  from resolve_checks_identity [OF v] obtain entry :: artifact_ref and n where
    "lookup v ''/a'' = Some n" "fingerprint demo_env n = ref_identity entry" "is_absolute ''/a''"
    by blast
  with v show ?thesis
    by (intro exI conjI)
qed

theorem change_detected_witness:
  "\<exists>v. resolve demo_env demo_registry (short_ref demo_entry) v = (Inl (IdentityChanged demo_token), v)"
proof -
  obtain w' where w': "register demo_env demo_registry (Some 5) demo_fill ''/a'' demo_world = (Inr demo_entry, w')"
    "faults w' = (\<lambda>_. None)"
    using demo_register by blast
  let ?v = "w'\<lparr>nodes := (nodes w')(''/a'' := None)\<rparr>"
  have token: "ref_token demo_entry = demo_token"
    by (simp add: demo_entry_def)
  have "nodes ?v (entry_path demo_registry (ref_token demo_entry))
      = nodes w' (entry_path demo_registry (ref_token demo_entry))"
    by (simp add: token demo_paths)
  moreover have "faults ?v = (\<lambda>_. None)" "lookup ?v ''/a'' = None"
    using w'(2) by (simp_all add: lookup_def follow_def)
  ultimately have "resolve demo_env demo_registry (short_ref demo_entry) ?v
      = (Inl (IdentityChanged demo_token), ?v)"
    using change_detected [OF w'(1) demo_env_ok demo_facts(1-5), of ?v] by (simp add: token file_verdict_def)
  then show ?thesis
    by blast
qed

text \<open>C22: Registering never overwrites: whatever its outcome, an entry that existed is afterwards the
  same node, with its kind, content, times and identity.  Only its permissions can differ: they are unchanged, or
  they are 0700 because the root of the registry or its directory of entries was a symbolic link to the entry, whose
  target the command gives the mode it sets for its directories.\<close>

theorem register_never_overwrites:
  assumes "valid_token t" "nodes w (entry_path reg t) = Some n"
  shows "\<exists>n'. nodes (snd (register env reg clock fill p w)) (entry_path reg t) = Some n' \<and>
    (n' = n \<or> n' = n\<lparr>node_mode := 0x1C0\<rparr> \<and>
       (leads_to w (registry_root reg) (entry_path reg t) \<or> leads_to w (refs_dir reg) (entry_path reg t)))"
  using register_tightened [OF assms(2) entry_not_dir [OF assms(1)] entry_not_latest [OF assms(1)],
      of env clock fill p]
  by auto

theorem register_never_overwrites_witness:
  "nodes (snd (register demo_env demo_registry (Some 5) demo_fill ''/a''
      (put_node ''/s/refs/0000000000000.json'' demo_node demo_world))) ''/s/refs/0000000000000.json''
    = Some demo_node"
proof -
  have "valid_token demo_token"
    by (simp add: valid_token_def demo_token_def TOKEN_LENGTH_def TOKEN_ALPHABET_def)
  moreover have "\<not> leads_to (put_node ''/s/refs/0000000000000.json'' demo_node demo_world) (registry_root demo_registry) q"
    "\<not> leads_to (put_node ''/s/refs/0000000000000.json'' demo_node demo_world) (refs_dir demo_registry) q" for q
    by (simp_all add: leads_to_def demo_registry_def demo_world_def empty_world_def refs_dir_def path_join_def
        is_absolute_def get_at_def)
  ultimately show ?thesis
    using register_never_overwrites [of demo_token "put_node ''/s/refs/0000000000000.json'' demo_node demo_world"
        demo_registry demo_node demo_env "Some 5" demo_fill "''/a''"]
    by (simp add: demo_paths)
qed

end
