(* ===== verification/Frame_Conditions.thy ===== *)
theory Frame_Conditions
  imports Io_Effects
begin

text \<open>
  What an operation leaves alone, whatever it returns.  A frame condition is a relation between the
  state before and after; one that is a preorder, and keeps the states it is claimed for, is closed
  under sequencing.  The locale states that once; the terminal, its file world and standard output are
  its interpretations.
\<close>

definition keeps :: "('s \<Rightarrow> bool) \<Rightarrow> ('s \<Rightarrow> 's \<Rightarrow> bool) \<Rightarrow> ('s, 'e, 'a) io \<Rightarrow> bool" where
  "keeps ok same m \<longleftrightarrow> (\<forall>w. ok w \<longrightarrow> same w (snd (m w)))"

lemma keepsD: "keeps ok same m \<Longrightarrow> ok w \<Longrightarrow> m w = (r, w') \<Longrightarrow> same w w'"
  by (metis keeps_def snd_conv)

lemma keepsI: "(\<And>w r w'. ok w \<Longrightarrow> m w = (r, w') \<Longrightarrow> same w w') \<Longrightarrow> keeps ok same m"
  by (metis keeps_def prod.collapse)

locale frame_condition =
  fixes ok :: "'s \<Rightarrow> bool" and same :: "'s \<Rightarrow> 's \<Rightarrow> bool"
  assumes same_refl: "same w w"
    and same_trans: "same u v \<Longrightarrow> same v w \<Longrightarrow> same u w"
    and same_ok: "same v w \<Longrightarrow> ok v \<Longrightarrow> ok w"
begin

lemma keeps_pure: "keeps ok same (io_return a)" "keeps ok same (io_fail e)" "keeps ok same (io_lift r)"
  by (simp_all add: keeps_def same_refl)

lemma keeps_bind:
  assumes "keeps ok same m" "\<And>a. keeps ok same (f a)"
  shows "keeps ok same (io_bind m f)"
proof (rule keepsI)
  fix w r w'
  assume w: "ok w" and run: "io_bind m f w = (r, w')"
  obtain q v where m: "m w = (q, v)" by fastforce
  then have v: "same w v"
    by (rule keepsD [OF assms(1) w])
  show "same w w'"
  proof (cases q)
    case (Inl e)
    with run m v show ?thesis by simp
  next
    case (Inr a)
    with run m have "f a v = (r, w')" by simp
    then have "same v w'"
      by (rule keepsD [OF assms(2) same_ok [OF v w]])
    with v show ?thesis by (rule same_trans)
  qed
qed

lemma keeps_map_err: "keeps ok same m \<Longrightarrow> keeps ok same (io_map_err f m)"
  by (auto simp: keeps_def io_map_err_def split: prod.splits)

end

end
