(* ===== verification/Registry_Concurrency.thy ===== *)
theory Registry_Concurrency
  imports Artifact_Ref Frame_Conditions
begin

text \<open>
  Registrations by several processes at once.  \<open>register\<close> is cut at its calls into the file system:
  \<open>reg_step\<close> runs one process to its next call, and a schedule interleaves the steps of any number of
  processes with changes that other programs make outside the registry.  A process that is never
  scheduled again has crashed.  Looking at the artifact, which writes nothing, is one step.
\<close>

section \<open>One process\<close>

record 'r job =
  job_path :: path
  job_clock :: "u64 option"
  job_fill :: "nat \<Rightarrow> 'r + bytes"

text \<open>Where a process is: in \<open>ensure_dirs\<close>, before the artifact, before an attempt (with the number of
  attempts left), before persisting the entry, in \<open>write_latest\<close>, or at its end.\<close>

datatype 'json reg_pc =
    MakeDirs
  | CloseRoot
  | CloseRefs
  | Inspect
  | Attempt path file_identity u64 nat
  | Store path file_identity u64 nat artifact_ref bytes
  | Point artifact_ref
  | Publish artifact_ref
  | Finished "'json registry_error + artifact_ref"

definition advance :: "('json, 'a) reg_io \<Rightarrow> ('a \<Rightarrow> 'json reg_pc) \<Rightarrow> unix_world \<Rightarrow> 'json reg_pc \<times> unix_world" where
  "advance m k w =
     (case m w of (Inl e, w') \<Rightarrow> (Finished (Inl e), w') | (Inr a, w') \<Rightarrow> (k a, w'))"

definition inspect ::
  "('st, 'json) ref_env \<Rightarrow> 'r job \<Rightarrow> ('json, path \<times> file_identity \<times> u64) reg_io" where
  "inspect env job =
     io_bind (reg_fs (canonicalize (job_path job)))
       (\<lambda>canonical. io_bind (reg_fs (open_file canonical))
       (\<lambda>source.
         if node_kind source \<noteq> RegularFile then io_fail (NotRegularFile canonical)
         else io_bind (io_lift (enforce_artifact_limit (u64_of_usize (length (node_bytes source)))))
       (\<lambda>_. io_bind (hash_file env canonical source)
       (\<lambda>sha. io_bind (io_lift (ok_or ClockBeforeEpoch (job_clock job)))
       (\<lambda>now. io_return (canonical, make_identity source sha, now))))))"

text \<open>A token, the entry, its bytes and a temporary file that holds them.\<close>

definition draft ::
  "('st, 'json) ref_env \<Rightarrow> registry \<Rightarrow> path \<Rightarrow> file_identity \<Rightarrow> u64 \<Rightarrow> 'r + bytes
     \<Rightarrow> ('json, artifact_ref \<times> bytes) reg_io" where
  "draft env reg p identity now fill =
     io_bind (io_lift (random_token fill))
       (\<lambda>token. let entry = entry_of env p identity now token in
         io_bind (io_lift (map_err RegistryJson (ref_to_json env entry)))
       (\<lambda>bs. io_bind (reg_fs (temp_file (refs_dir reg))) (\<lambda>_. io_return (entry, bs))))"

fun reg_step ::
  "('st, 'json) ref_env \<Rightarrow> registry \<Rightarrow> 'r job \<Rightarrow> 'json reg_pc \<Rightarrow> unix_world \<Rightarrow> 'json reg_pc \<times> unix_world"
where
  "reg_step env reg job MakeDirs =
     advance (reg_fs (create_dir_all (refs_dir reg))) (\<lambda>_. CloseRoot)"
| "reg_step env reg job CloseRoot =
     advance (reg_fs (set_permissions (registry_root reg) 0x1C0)) (\<lambda>_. CloseRefs)"
| "reg_step env reg job CloseRefs =
     advance (reg_fs (set_permissions (refs_dir reg) 0x1C0)) (\<lambda>_. Inspect)"
| "reg_step env reg job Inspect =
     advance (inspect env job) (\<lambda>(p, identity, now). Attempt p identity now 16)"
| "reg_step env reg job (Attempt p identity now 0) = (\<lambda>w. (Finished (Inl TokenExhausted), w))"
| "reg_step env reg job (Attempt p identity now (Suc n)) =
     advance (draft env reg p identity now (job_fill job (16 - Suc n)))
       (\<lambda>(entry, bs). Store p identity now n entry bs)"
| "reg_step env reg job (Store p identity now n entry bs) =
     (\<lambda>w. case persist_noclobber (entry_path reg (ref_token entry)) bs w of
        (Inr _, w') \<Rightarrow> (Point entry, w')
      | (Inl e, w') \<Rightarrow>
          (if e = AlreadyExists then Attempt p identity now n else Finished (Inl (RegistryIo e)), w'))"
| "reg_step env reg job (Point entry) =
     advance (reg_fs (temp_file (registry_root reg))) (\<lambda>_. Publish entry)"
| "reg_step env reg job (Publish entry) =
     advance (reg_fs (persist (latest_path reg) (latest_line (ref_token entry)))) (\<lambda>_. Finished (Inr entry))"
| "reg_step env reg job (Finished r) = (\<lambda>w. (Finished r, w))"

section \<open>Many processes\<close>

text \<open>A change made elsewhere: any, but not to the entries and the pointer of the registry.\<close>

definition elsewhere :: "registry \<Rightarrow> unix_world \<Rightarrow> unix_world \<Rightarrow> bool" where
  "elsewhere reg w w' \<longleftrightarrow>
     (\<forall>t. valid_token t \<longrightarrow> nodes w' (entry_path reg t) = nodes w (entry_path reg t)) \<and>
     nodes w' (latest_path reg) = nodes w (latest_path reg)"

text \<open>A schedule names the process that steps, or none for a change elsewhere.\<close>

inductive sys_run ::
  "('st, 'json) ref_env \<Rightarrow> registry \<Rightarrow> ('i \<Rightarrow> 'r job) \<Rightarrow> 'i option list
     \<Rightarrow> ('i \<Rightarrow> 'json reg_pc) \<Rightarrow> unix_world \<Rightarrow> ('i \<Rightarrow> 'json reg_pc) \<Rightarrow> unix_world \<Rightarrow> bool"
  for env reg jobs where
  stop: "sys_run env reg jobs [] pcs w pcs w"
| work: "sys_run env reg jobs schedule (pcs(i := pc)) v pcs' w' \<Longrightarrow>
    reg_step env reg (jobs i) (pcs i) w = (pc, v) \<Longrightarrow>
    sys_run env reg jobs (Some i # schedule) pcs w pcs' w'"
| change: "sys_run env reg jobs schedule pcs v pcs' w' \<Longrightarrow> elsewhere reg w v \<Longrightarrow>
    sys_run env reg jobs (None # schedule) pcs w pcs' w'"

inductive_cases sys_run_ConsE: "sys_run env reg jobs (l # schedule) pcs w pcs' w'"

section \<open>The steps of a process alone are its registration\<close>

fun reg_steps ::
  "('st, 'json) ref_env \<Rightarrow> registry \<Rightarrow> 'r job \<Rightarrow> nat \<Rightarrow> 'json reg_pc \<Rightarrow> unix_world \<Rightarrow> 'json reg_pc \<times> unix_world"
where
  "reg_steps env reg job 0 pc w = (pc, w)"
| "reg_steps env reg job (Suc k) pc w =
     (case reg_step env reg job pc w of (pc', w') \<Rightarrow> reg_steps env reg job k pc' w')"

definition finish :: "('json registry_error + artifact_ref) \<times> unix_world \<Rightarrow> 'json reg_pc \<times> unix_world" where
  "finish x = (Finished (fst x), snd x)"

lemma finish_Pair [simp]: "finish (r, w) = (Finished r, w)"
  by (simp add: finish_def)

lemma reg_steps_finished [simp]: "reg_steps env reg job k (Finished r) w = (Finished r, w)"
  by (induction k) simp_all

text \<open>A step, and what follows it, is one operation in sequence with the rest.\<close>

lemma steps_bind:
  assumes "reg_step env reg job pc = advance m c"
    and "\<And>a v. reg_steps env reg job k (c a) v = finish (f a v)"
  shows "reg_steps env reg job (Suc k) pc w = finish (io_bind m f w)"
  using assms by (cases "m w" rule: prod.exhaust; cases "fst (m w)") (auto simp: advance_def)

lemma io_bind_laws:
  "io_bind (io_bind m f) g = io_bind m (\<lambda>a. io_bind (f a) g)"
  "io_bind (io_return a) h = h a" "io_bind (io_fail e) h = io_fail e"
  "io_bind (if b then k else l) h = (if b then io_bind k h else io_bind l h)"
  by (auto simp: io_bind_def fun_eq_iff split: prod.splits sum.splits)

text \<open>What is left after an attempt has its draft.\<close>

definition store_then ::
  "registry \<Rightarrow> artifact_ref \<Rightarrow> bytes \<Rightarrow> ('json, artifact_ref) reg_io \<Rightarrow> ('json, artifact_ref) reg_io" where
  "store_then reg entry bs again w =
     (case persist_noclobber (entry_path reg (ref_token entry)) bs w of
        (Inr _, w') \<Rightarrow> io_bind (write_latest reg (ref_token entry)) (\<lambda>_. io_return entry) w'
      | (Inl e, w') \<Rightarrow> if e = AlreadyExists then again w' else (Inl (RegistryIo e), w'))"

lemma register_attempts_Suc:
  fixes env :: "('st, 'json) ref_env"
  shows "register_attempts env reg p identity now fill (Suc n) w =
     io_bind (draft env reg p identity now (fill (16 - Suc n)))
       (\<lambda>(entry, bs). store_then reg entry bs (register_attempts env reg p identity now fill n)) w"
proof (cases "random_token (fill (16 - Suc n)) :: 'json registry_error + string")
  case (Inl e)
  then show ?thesis
    by (simp add: draft_def io_bind_def)
next
  case token: (Inr token)
  show ?thesis
  proof (cases "ref_to_json env (entry_of env p identity now token)")
    case (Inl e)
    with token show ?thesis
      by (simp add: draft_def io_bind_def map_err_def entry_of_def Let_def)
  next
    case bs: (Inr bs)
    obtain r v where temp: "temp_file (refs_dir reg) w = (r, v)" by fastforce
    then show ?thesis
      using token bs by (cases r)
        (simp_all add: draft_def io_bind_def map_err_def entry_of_def Let_def reg_fs_def io_map_err_def store_then_def
          split: sum.splits prod.splits)
  qed
qed

lemma steps_of_latest:
  "reg_steps env reg job (Suc (Suc k)) (Point entry) w =
     finish (io_bind (write_latest reg (ref_token entry)) (\<lambda>_. io_return entry) w)"
proof -
  have publish: "reg_steps env reg job (Suc k) (Publish entry) v =
      finish (io_bind (reg_fs (persist (latest_path reg) (''@'' @ ref_token entry @ [CHR 0x0A])))
        (\<lambda>_. io_return entry) v)" for v
    by (rule steps_bind [OF reg_step.simps(9) [unfolded latest_line_def]]) simp
  show ?thesis
    unfolding write_latest_def io_bind_laws(1)
    by (rule steps_bind [OF reg_step.simps(8)]) (rule publish)
qed

lemma steps_of_attempts:
  "2 * n + 3 \<le> k \<Longrightarrow> reg_steps env reg job k (Attempt p identity now n) w =
     finish (register_attempts env reg p identity now (job_fill job) n w)"
proof (induction n arbitrary: k w)
  case 0
  then obtain j where "k = Suc j" by (cases k) auto
  then show ?case by simp
next
  case (Suc n)
  define j where "j = k - 4"
  with Suc.prems have k: "k = Suc (Suc (Suc (Suc j)))" and more: "2 * n + 3 \<le> Suc (Suc j)"
    by simp_all
  have store: "reg_steps env reg job (Suc (Suc (Suc j))) (Store p identity now n entry bs) v =
      finish (store_then reg entry bs (register_attempts env reg p identity now (job_fill job) n) v)" for entry bs v
    using steps_of_latest [of env reg job j entry] Suc.IH [OF more]
    by (auto simp: store_then_def simp del: reg_steps.simps(2) split: sum.splits prod.splits)
      (simp_all)
  show ?case
    unfolding k register_attempts_Suc
    by (rule steps_bind [OF reg_step.simps(6)]) (simp add: store split: prod.splits del: reg_steps.simps)
qed

lemma register_shape:
  "register env reg (job_clock job) (job_fill job) (job_path job) =
     io_bind (reg_fs (create_dir_all (refs_dir reg)))
    (\<lambda>_. io_bind (reg_fs (set_permissions (registry_root reg) 0x1C0))
    (\<lambda>_. io_bind (reg_fs (set_permissions (refs_dir reg) 0x1C0))
    (\<lambda>_. io_bind (inspect env job)
    (\<lambda>(p, identity, now). register_attempts env reg p identity now (job_fill job) 16))))"
  by (simp add: register_def ensure_dirs_def inspect_def io_bind_laws cong: if_cong)

lemma steps_of_register:
  "reg_steps env reg job 39 MakeDirs w =
     finish (register env reg (job_clock job) (job_fill job) (job_path job) w)"
proof -
  have attempts: "reg_steps env reg job 35 (Attempt p identity now 16) v =
      finish (register_attempts env reg p identity now (job_fill job) 16 v)" for p identity now v
    by (rule steps_of_attempts) simp
  have "reg_steps env reg job (Suc (Suc (Suc (Suc 35)))) MakeDirs w =
      finish (register env reg (job_clock job) (job_fill job) (job_path job) w)"
    unfolding register_shape
    by (rule steps_bind [OF reg_step.simps(1)], rule steps_bind [OF reg_step.simps(2)],
        rule steps_bind [OF reg_step.simps(3)], rule steps_bind [OF reg_step.simps(4)])
      (simp add: attempts split: prod.splits)
  then show ?thesis
    by simp
qed

lemma advance_eq:
  "advance m c w = (pc', v) \<longleftrightarrow>
     (\<exists>e. m w = (Inl e, v) \<and> pc' = Finished (Inl e)) \<or> (\<exists>a. m w = (Inr a, v) \<and> pc' = c a)"
  by (auto simp: advance_def split: prod.splits sum.splits)

section \<open>Schedules\<close>

lemma sys_run_append:
  "sys_run env reg jobs s pcs w pcs' w' \<Longrightarrow> sys_run env reg jobs s' pcs' w' pcs'' w'' \<Longrightarrow>
   sys_run env reg jobs (s @ s') pcs w pcs'' w''"
  by (induction rule: sys_run.induct) (auto intro: sys_run.intros)

lemma sys_run_alone:
  "reg_steps env reg (jobs i) k (pcs i) w = (pc, v) \<Longrightarrow>
   sys_run env reg jobs (replicate k (Some i)) pcs w (pcs(i := pc)) v"
proof (induction k arbitrary: pcs w)
  case 0
  then have "pc = pcs i" "v = w" by simp_all
  then show ?case unfolding replicate_0 by (simp only: fun_upd_triv stop)
next
  case (Suc k)
  obtain pc' w' where step: "reg_step env reg (jobs i) (pcs i) w = (pc', w')" by fastforce
  with Suc.prems have "reg_steps env reg (jobs i) k ((pcs(i := pc')) i) w' = (pc, v)" by simp
  from work [OF Suc.IH [of "pcs(i := pc')" w', OF this] step] show ?case
    by (simp only: fun_upd_upd replicate_Suc)
qed

text \<open>A bound for the steps a process has left.\<close>

fun reg_rank :: "'json reg_pc \<Rightarrow> nat" where
  "reg_rank MakeDirs = 39"
| "reg_rank CloseRoot = 38"
| "reg_rank CloseRefs = 37"
| "reg_rank Inspect = 36"
| "reg_rank (Attempt p identity now n) = 2 * n + 3"
| "reg_rank (Store p identity now n entry bs) = 2 * n + 4"
| "reg_rank (Point entry) = 2"
| "reg_rank (Publish entry) = 1"
| "reg_rank (Finished r) = 0"

lemma reg_rank_zero: "reg_rank pc = 0 \<Longrightarrow> \<exists>r. pc = Finished r"
  by (cases pc) auto

lemma reg_rank_step: "reg_step env reg job pc w = (pc', v) \<Longrightarrow> reg_rank pc' \<le> reg_rank pc - 1"
  by (induction env reg job pc rule: reg_step.induct)
    (auto simp: advance_eq split: prod.splits sum.splits if_splits)

lemma sys_run_rank:
  "sys_run env reg jobs schedule pcs w pcs' w' \<Longrightarrow>
   reg_rank (pcs' i) \<le> reg_rank (pcs i) - count_list schedule (Some i)"
proof (induction rule: sys_run.induct)
  case (work schedule pcs j pc v pcs' w' w)
  then show ?case
    using reg_rank_step [OF work.hyps(2)] by (cases "j = i") auto
qed auto

section \<open>What one step can do to the registry\<close>

definition pointer :: "registry \<Rightarrow> unix_world \<Rightarrow> (node_kind \<times> bytes) option" where
  "pointer reg w = map_option (\<lambda>n. (node_kind n, node_bytes n)) (nodes w (latest_path reg))"

definition holds_entry :: "('st, 'json) ref_env \<Rightarrow> registry \<Rightarrow> unix_world \<Rightarrow> artifact_ref \<Rightarrow> bool" where
  "holds_entry env reg w e \<longleftrightarrow>
     (\<exists>n. nodes w (entry_path reg (ref_token e)) = Some n \<and> node_kind n = RegularFile \<and>
        ref_to_json env e = Inr (node_bytes n))"

text \<open>The entry a process has put into the registry.\<close>

fun stored :: "'json reg_pc \<Rightarrow> artifact_ref option" where
  "stored (Point e) = Some e"
| "stored (Publish e) = Some e"
| "stored (Finished (Inr e)) = Some e"
| "stored _ = None"

text \<open>A record that describes a file within the limit, and what is known at each point of a process.\<close>

definition drafted :: "('st, 'json) ref_env \<Rightarrow> artifact_ref \<Rightarrow> bool" where
  "drafted env e \<longleftrightarrow> valid_token (ref_token e) \<and>
     (\<exists>q n now. within_limit n \<and> e = entry_of env q (fingerprint env n) now (ref_token e))"

fun pc_ok :: "('st, 'json) ref_env \<Rightarrow> 'json reg_pc \<Rightarrow> bool" where
  "pc_ok env (Attempt p identity now n) = (\<exists>f. within_limit f \<and> identity = fingerprint env f)"
| "pc_ok env (Store p identity now n e bs) =
     ((\<exists>f. within_limit f \<and> identity = fingerprint env f) \<and> drafted env e \<and> ref_to_json env e = Inr bs)"
| "pc_ok env (Point e) = drafted env e"
| "pc_ok env (Publish e) = drafted env e"
| "pc_ok env (Finished (Inr e)) = drafted env e"
| "pc_ok env _ = True"

definition quiet :: "registry \<Rightarrow> unix_world \<Rightarrow> unix_world \<Rightarrow> bool" where
  "quiet reg w v \<longleftrightarrow>
     (\<forall>t. valid_token t \<longrightarrow> keeps_file (entry_path reg t) w v) \<and> pointer reg v = pointer reg w"

lemma quiet_refl [simp]: "quiet reg w w"
  by (simp add: quiet_def)

lemma quiet_elsewhere: "elsewhere reg w v \<Longrightarrow> quiet reg w v"
  by (simp add: quiet_def elsewhere_def pointer_def)

lemma keeps_holds:
  "\<forall>t. valid_token t \<longrightarrow> keeps_file (entry_path reg t) w v \<Longrightarrow> drafted env e \<Longrightarrow> holds_entry env reg w e \<Longrightarrow>
   holds_entry env reg v e"
  unfolding holds_entry_def keeps_file_def drafted_def by fastforce

text \<open>The pointer is not on the way to the directory of the entries.\<close>

lemma latest_not_in_chain: "latest_path reg \<notin> set (dir_chain (refs_dir reg))"
proof
  assume "latest_path reg \<in> set (dir_chain (refs_dir reg))"
  then have "latest_path reg = refs_dir reg \<or> length (latest_path reg) < length (refs_dir reg)"
    by (auto simp: dir_chain_def)
  then show False
    by (auto simp: latest_path_def refs_dir_def path_join_def split: if_splits)
qed

lemma quiet_create_dirs: "quiet reg w (snd (create_dir_all (refs_dir reg) w))"
  using create_dir_all_keeps [of "refs_dir reg" w] latest_not_in_chain [of reg]
  by (simp add: quiet_def create_dir_all_keeps_file pointer_def same_except_def)

lemma quiet_set_permissions: "quiet reg w (snd (set_permissions p m w))"
  by (auto simp: quiet_def set_permissions_keeps_file)
    (auto simp: pointer_def set_permissions_def io_bind_def fs_guard_def lookup_def split: option.splits)

text \<open>Operations that only look.\<close>

interpretation read_frame: frame_condition "\<lambda>_. True" "\<lambda>w w'. w' = w"
  by unfold_locales simp_all

abbreviation reads_only :: "('s, 'e, 'a) io \<Rightarrow> bool" where
  "reads_only \<equiv> keeps (\<lambda>_. True) (\<lambda>w w'. w' = w)"

lemma reads_only_calls:
  "reads_only (canonicalize p)" "reads_only (open_file p)" "reads_only (read_file p n)" "reads_only (temp_file p)"
  by (simp_all add: keeps_def fs_reads_keep)

lemmas reads_only_intros = read_frame.keeps_pure read_frame.keeps_bind read_frame.keeps_map_err reads_only_calls

lemma reads_only_inspect: "reads_only (inspect env job)"
  unfolding inspect_def reg_fs_def hash_file_def by (auto intro!: reads_only_intros)

lemma reads_only_draft: "reads_only (draft env reg p identity now fill)"
  unfolding draft_def reg_fs_def Let_def by (intro reads_only_intros)

lemma draft_Inr:
  "draft env reg p identity now fill w = (Inr (e, bs), v) \<Longrightarrow>
     valid_token (ref_token e) \<and> ref_to_json env e = Inr bs \<and> e = entry_of env p identity now (ref_token e)"
  by (auto simp: draft_def io_bind_Inr_iff Let_def map_err_Inr_iff dest: random_token_valid)

lemma inspect_Inr:
  "inspect env job w = (Inr (p, identity, now), v) \<Longrightarrow> \<exists>f. within_limit f \<and> identity = fingerprint env f"
  by (auto simp: inspect_def io_bind_Inr_iff reg_fs_def io_map_err_Inr_iff open_file_Inr io_lift_Inr_iff
      hash_file_Inr enforce_artifact_limit_Inr fingerprint_def split: if_splits)

lemma advance_reads: "advance m c w = (pc', v) \<Longrightarrow> reads_only m \<Longrightarrow> v = w"
  by (auto simp: advance_eq dest: keepsD)

text \<open>What a step owes to the system: entries stay, what is known of the process stays, a record it comes
  to own is new, and the pointer stays or names the record of the process, which has ended well.\<close>

definition step_ok ::
  "('st, 'json) ref_env \<Rightarrow> registry \<Rightarrow> 'json reg_pc \<Rightarrow> unix_world \<Rightarrow> 'json reg_pc \<Rightarrow> unix_world \<Rightarrow> bool" where
  "step_ok env reg pc w pc' v \<longleftrightarrow>
     (\<forall>t. valid_token t \<longrightarrow> keeps_file (entry_path reg t) w v) \<and> pc_ok env pc' \<and>
     (\<forall>e. stored pc' = Some e \<longrightarrow> stored pc = Some e \<or>
        nodes w (entry_path reg (ref_token e)) = None \<and> holds_entry env reg v e) \<and>
     (pointer reg v = pointer reg w \<and> (\<forall>e. pc = Finished (Inr e) \<longrightarrow> pc' = Finished (Inr e)) \<or>
      (\<exists>e. pc' = Finished (Inr e) \<and> pointer reg v = Some (RegularFile, latest_line (ref_token e))))"

lemma step_ok_quiet:
  assumes "quiet reg w v" "pc_ok env pc'" "stored pc' = None \<or> stored pc' = stored pc"
    "\<And>e. pc = Finished (Inr e) \<Longrightarrow> pc' = Finished (Inr e)"
  shows "step_ok env reg pc w pc' v"
  using assms by (auto simp: step_ok_def quiet_def)

lemma step_ok_fs:
  assumes "advance (reg_fs m) c w = (pc', v)" "quiet reg w (snd (m w))" "\<And>e. pc \<noteq> Finished (Inr e)"
    and "\<And>a. pc_ok env (c a) \<and> (stored (c a) = None \<or> stored (c a) = stored pc)"
  shows "step_ok env reg pc w pc' v"
proof -
  have "snd (m w) = v"
    using assms(1) by (auto simp: advance_eq reg_fs_def io_map_err_def split: prod.splits)
  with assms show ?thesis
    by (intro step_ok_quiet) (auto simp: advance_eq)
qed

lemma step_ok_reads:
  assumes "advance m c w = (pc', v)" "reads_only m" "\<And>e. pc \<noteq> Finished (Inr e)"
    and "\<And>a u. m w = (Inr a, u) \<Longrightarrow> pc_ok env (c a) \<and> stored (c a) = None"
  shows "step_ok env reg pc w pc' v"
  using assms(1,3,4) advance_reads [OF assms(1,2)] by (intro step_ok_quiet) (auto simp: advance_eq)

text \<open>Storing an entry under a free name, and publishing the pointer.\<close>

lemma step_ok_store:
  assumes "pc_ok env (Store p d now n e bs)" "nodes w (entry_path reg (ref_token e)) = None"
  shows "step_ok env reg (Store p d now n e bs) w (Point e)
    (put_node (entry_path reg (ref_token e)) (new_file w bs) w)" (is "step_ok _ _ _ _ _ ?v")
proof -
  have e: "valid_token (ref_token e)" "ref_to_json env e = Inr bs" "drafted env e"
    using assms(1) by (auto simp: drafted_def)
  have "pointer reg ?v = pointer reg w"
    using entry_not_latest [OF e(1), of reg] by (simp add: pointer_def)
  moreover have "keeps_file q w ?v" for q
  proof (cases "q = entry_path reg (ref_token e)")
    case True
    with assms(2) show ?thesis by (simp add: keeps_file_def)
  next
    case False
    then show ?thesis by (intro keeps_file_same) simp
  qed
  moreover have "holds_entry env reg ?v e"
    using e(2) by (simp add: holds_entry_def)
  ultimately show ?thesis
    using assms(2) e(3) by (simp add: step_ok_def)
qed

lemma step_ok_publish:
  "drafted env e \<Longrightarrow> step_ok env reg (Publish e) w (Finished (Inr e))
    (put_node (latest_path reg) (new_file w (latest_line (ref_token e))) w)"
  using entry_not_latest [of _ reg] by (auto simp: step_ok_def pointer_def intro!: keeps_file_same)

lemma step_ok_attempt:
  assumes "reg_step env reg job (Attempt p d now n) w = (pc', v)" "pc_ok env (Attempt p d now n)"
  shows "step_ok env reg (Attempt p d now n) w pc' v"
proof (cases n)
  case 0
  with assms show ?thesis
    by (intro step_ok_quiet) auto
next
  case (Suc m)
  have "pc_ok env (Store p d now m e bs)"
    if "draft env reg p d now (job_fill job (16 - Suc m)) w = (Inr (e, bs), u)" for e bs u
    using assms(2) draft_Inr [OF that] by (auto simp: drafted_def)
  with Suc assms(1) show ?thesis
    by (intro step_ok_reads [OF _ reads_only_draft]) (auto simp del: pc_ok.simps(2))
qed

lemma reg_step_ok:
  assumes "reg_step env reg job pc w = (pc', v)" "pc_ok env pc"
  shows "step_ok env reg pc w pc' v"
proof (cases pc)
  case MakeDirs
  then show ?thesis
    using assms by (intro step_ok_fs [where c = "\<lambda>_. CloseRoot"]) (auto simp: quiet_create_dirs)
next
  case CloseRoot
  then show ?thesis
    using assms by (intro step_ok_fs [where c = "\<lambda>_. CloseRefs"]) (auto simp: quiet_set_permissions)
next
  case CloseRefs
  then show ?thesis
    using assms by (intro step_ok_fs [where c = "\<lambda>_. Inspect"]) (auto simp: quiet_set_permissions)
next
  case Inspect
  then show ?thesis
    using assms by (intro step_ok_reads [OF _ reads_only_inspect]) (auto dest: inspect_Inr)
next
  case (Attempt p identity now n)
  with assms show ?thesis
    by (simp only: step_ok_attempt)
next
  case (Store p identity now n e bs)
  with assms step_ok_store [of env p identity now n e bs w reg] show ?thesis
    by (auto simp: persist_noclobber_def io_bind_def fs_guard_def new_file_def intro!: step_ok_quiet
        split: prod.splits sum.splits option.splits if_splits)
next
  case (Point e)
  with assms show ?thesis
    by (intro step_ok_fs [of "temp_file (registry_root reg)" "\<lambda>_. Publish e"]) (simp_all add: fs_reads_keep)
next
  case (Publish e)
  with assms step_ok_publish [of env e reg w] show ?thesis
    by (auto simp: advance_eq reg_fs_def io_map_err_def persist_def io_bind_def fs_guard_def map_err_def
        new_file_def intro!: step_ok_quiet split: option.splits)
next
  case (Finished r)
  with assms show ?thesis
    by (intro step_ok_quiet) auto
qed

section \<open>The invariant of the system\<close>

definition sys_ok ::
  "('st, 'json) ref_env \<Rightarrow> registry \<Rightarrow> unix_world \<Rightarrow> ('i \<Rightarrow> 'json reg_pc) \<Rightarrow> unix_world \<Rightarrow> bool" where
  "sys_ok env reg w0 pcs w \<longleftrightarrow>
     (\<forall>t. valid_token t \<longrightarrow> keeps_file (entry_path reg t) w0 w) \<and>
     (\<forall>i. pc_ok env (pcs i)) \<and>
     (\<forall>i e. stored (pcs i) = Some e \<longrightarrow> nodes w0 (entry_path reg (ref_token e)) = None \<and> holds_entry env reg w e) \<and>
     (\<forall>i j e f. i \<noteq> j \<longrightarrow> stored (pcs i) = Some e \<longrightarrow> stored (pcs j) = Some f \<longrightarrow> ref_token e \<noteq> ref_token f) \<and>
     (pointer reg w = pointer reg w0 \<or>
        (\<exists>i e. pcs i = Finished (Inr e) \<and> pointer reg w = Some (RegularFile, latest_line (ref_token e))))"

lemma sys_ok_start: "sys_ok env reg w (\<lambda>_. MakeDirs) w"
  by (simp add: sys_ok_def)

lemma stored_drafted: "stored pc = Some e \<Longrightarrow> pc_ok env pc \<Longrightarrow> drafted env e"
  by (cases "(env, pc)" rule: pc_ok.cases) auto

lemma sys_ok_stored:
  assumes "sys_ok env reg w0 pcs w" "stored (pcs i) = Some e"
  shows "drafted env e \<and> nodes w0 (entry_path reg (ref_token e)) = None \<and> holds_entry env reg w e"
  using assms stored_drafted [OF assms(2)] unfolding sys_ok_def by blast

lemma keeps_file_missing: "keeps_file p w v \<Longrightarrow> nodes v p = None \<Longrightarrow> nodes w p = None"
  by (cases "nodes w p") (auto simp: keeps_file_def)

text \<open>The records of the processes after a step of process \<open>i\<close>: an old one, or a new one of \<open>i\<close>.\<close>

lemma stored_after_step:
  assumes "sys_ok env reg w0 pcs w" "step_ok env reg (pcs i) w pc v" "stored ((pcs(i := pc)) j) = Some e"
  shows "nodes w0 (entry_path reg (ref_token e)) = None \<and> holds_entry env reg v e \<and>
    (stored (pcs j) = Some e \<or> j = i \<and> nodes w (entry_path reg (ref_token e)) = None)"
proof (cases "stored (pcs j) = Some e")
  case True
  have "drafted env e" "nodes w0 (entry_path reg (ref_token e)) = None" "holds_entry env reg w e"
    using sys_ok_stored [OF assms(1) True] by simp_all
  with True assms(2) keeps_holds [of reg w v env e] show ?thesis
    by (auto simp: step_ok_def)
next
  case False
  then have i: "j = i" "stored pc = Some e"
    using assms(3) by (auto split: if_splits)
  then have new: "nodes w (entry_path reg (ref_token e)) = None" "holds_entry env reg v e" "drafted env e"
    using False assms(2) stored_drafted [OF i(2)] by (auto simp: step_ok_def)
  have "nodes w0 (entry_path reg (ref_token e)) = None"
    using assms(1) new(3) by (intro keeps_file_missing [OF _ new(1)]) (simp add: sys_ok_def drafted_def)
  with i(1) new show ?thesis by simp
qed

lemma sys_ok_step:
  assumes "sys_ok env reg w0 pcs w" "step_ok env reg (pcs i) w pc v"
  shows "sys_ok env reg w0 (pcs(i := pc)) v" (is "sys_ok env reg w0 ?pcs v")
proof -
  note after = stored_after_step [OF assms]
  have held: "nodes w (entry_path reg (ref_token e)) \<noteq> None" if "stored (pcs j) = Some e" for j e
    using sys_ok_stored [OF assms(1) that] by (auto simp: holds_entry_def)
  have distinct: "ref_token e \<noteq> ref_token f"
    if "j \<noteq> k" "stored (?pcs j) = Some e" "stored (?pcs k) = Some f" for j k e f
    using that(1) after [OF that(2)] after [OF that(3)] held [of j e] held [of k f] assms(1)
    unfolding sys_ok_def by metis
  have keeps: "keeps_file (entry_path reg t) w0 v" if "valid_token t" for t
    using assms that by (auto simp: sys_ok_def step_ok_def intro: keeps_file_trans)
  have known: "pc_ok env (?pcs j)" for j
    using assms by (simp add: sys_ok_def step_ok_def)
  have old: "pointer reg w = pointer reg w0 \<or>
      (\<exists>j e. pcs j = Finished (Inr e) \<and> pointer reg w = Some (RegularFile, latest_line (ref_token e)))"
    using assms(1) by (simp add: sys_ok_def)
  consider "pointer reg v = pointer reg w" "\<forall>e. pcs i = Finished (Inr e) \<longrightarrow> pc = Finished (Inr e)"
    | e where "pc = Finished (Inr e)" "pointer reg v = Some (RegularFile, latest_line (ref_token e))"
    using assms(2) unfolding step_ok_def by blast
  then have pointed: "pointer reg v = pointer reg w0 \<or>
      (\<exists>j e. ?pcs j = Finished (Inr e) \<and> pointer reg v = Some (RegularFile, latest_line (ref_token e)))"
  proof cases
    case 1
    have "?pcs j = Finished (Inr e)" if "pcs j = Finished (Inr e)" for j e
      using that 1(2) by auto
    with 1(1) old show ?thesis by metis
  next
    case 2
    then have "?pcs i = Finished (Inr e)" by simp
    with 2(2) show ?thesis by blast
  qed
  show ?thesis
    unfolding sys_ok_def using keeps known after distinct pointed by blast
qed

lemma sys_ok_elsewhere:
  assumes "sys_ok env reg w0 pcs w" "elsewhere reg w v"
  shows "sys_ok env reg w0 pcs v"
proof -
  fix i
  have "step_ok env reg (pcs i) w (pcs i) v"
    using assms(1) by (intro step_ok_quiet quiet_elsewhere [OF assms(2)]) (auto simp: sys_ok_def)
  from sys_ok_step [OF assms(1) this] show ?thesis by simp
qed

lemma sys_ok_run:
  "sys_run env reg jobs schedule pcs w pcs' w' \<Longrightarrow> sys_ok env reg w0 pcs w \<Longrightarrow> sys_ok env reg w0 pcs' w'"
proof (induction rule: sys_run.induct)
  case (work schedule pcs i pc v pcs' w' w)
  have "pc_ok env (pcs i)"
    using work.prems by (simp add: sys_ok_def)
  then show ?case
    by (intro work.IH sys_ok_step [OF work.prems] reg_step_ok [OF work.hyps(2)])
next
  case (change schedule pcs v pcs' w' w)
  then show ?case
    by (blast intro: sys_ok_elsewhere)
qed

section \<open>Properties\<close>

text \<open>C25: The steps of a process are the registration: run alone, a process ends after at most 39
  steps, with the result and the world that \<open>register\<close> gives.\<close>

theorem register_is_its_steps:
  "reg_steps env reg job 39 MakeDirs w =
     (case register env reg (job_clock job) (job_fill job) (job_path job) w of (r, w') \<Rightarrow> (Finished r, w'))"
  unfolding steps_of_register by (simp add: finish_def split: prod.splits)

text \<open>C9: Any number of processes may register at once, other programs may act in between, and any of
  them may stop half way: the entries there were keep their content, a process that ended well has
  its record under a name that was free, no two share a name, and the pointer either did not move or
  names the record of a process that ended well.\<close>

theorem concurrent_registrations:
  assumes "sys_run env reg jobs schedule (\<lambda>_. MakeDirs) w0 pcs w"
  shows "(\<forall>t. valid_token t \<longrightarrow> keeps_file (entry_path reg t) w0 w) \<and>
    (\<forall>i e. pcs i = Finished (Inr e) \<longrightarrow>
       nodes w0 (entry_path reg (ref_token e)) = None \<and> holds_entry env reg w e) \<and>
    (\<forall>i j e f. i \<noteq> j \<longrightarrow> pcs i = Finished (Inr e) \<longrightarrow> pcs j = Finished (Inr f) \<longrightarrow>
       ref_token e \<noteq> ref_token f) \<and>
    (pointer reg w = pointer reg w0 \<or>
      (\<exists>i e. pcs i = Finished (Inr e) \<and> pointer reg w = Some (RegularFile, latest_line (ref_token e))))"
proof -
  have ok: "sys_ok env reg w0 pcs w"
    using sys_ok_run [OF assms sys_ok_start] .
  have "stored (pcs i) = Some e" if "pcs i = Finished (Inr e)" for i e
    using that by simp
  with ok show ?thesis
    unfolding sys_ok_def by blast
qed

text \<open>C23: The reference of a process that ended well resolves, whatever the others did since: to its
  artifact when that is unchanged, to a detected change otherwise. When the pointer has moved, the
  latest reference resolves as the one of a process that ended well.\<close>

theorem concurrent_references_resolve:
  fixes env :: "('st, 'json) ref_env"
  assumes "sys_run env reg jobs schedule (\<lambda>_. MakeDirs) w0 pcs w" "pcs i = Finished (Inr e)"
    and "ref_env_ok env" "ref_to_json env e = Inr bs" "length bs \<le> MAX_ENTRY_BYTES"
    and "b64_decode env (ref_path_base64 e) = Some q" "is_absolute q" "CHR 0x00 \<notin> set q"
    and "faults w = (\<lambda>_. None)"
  shows "list_all (\<lambda>s. resolve env reg s w = (file_verdict env e q (lookup w q), w))
      [ref_token e, short_ref e, ref_uri e] \<and>
    (pointer reg w = pointer reg w0 \<or>
      (\<exists>j f. pcs j = Finished (Inr f) \<and> resolve_latest env reg w = resolve env reg (short_ref f) w))"
proof -
  have ok: "sys_ok env reg w0 pcs w"
    using sys_ok_run [OF assms(1) sys_ok_start] .
  from sys_ok_stored [OF ok, of i e] assms(2) have e: "drafted env e" "holds_entry env reg w e"
    by simp_all
  from e(1) obtain p n now where draft: "valid_token (ref_token e)" "within_limit n"
    "e = entry_of env p (fingerprint env n) now (ref_token e)"
    by (auto simp: drafted_def)
  then have p: "q = p" "ref_path_encoding e = ''unix-bytes-v1''"
    using assms(6) by (metis entry_of_sel(3) option.inject ref_env_decode [OF assms(3)], metis entry_of_sel(4))
  from e(2) assms(4) obtain m where m: "nodes w (entry_path reg (ref_token e)) = Some m"
    "node_kind m = RegularFile" "node_bytes m = bs"
    by (auto simp: holds_entry_def)
  have "read_entry env reg (ref_token e) w = (Inr e, w)"
    by (rule read_entry_stored [OF assms(3) draft(1,3,2) _ _ assms(4,5) m assms(9)]) (use assms(7,8) p in simp_all)
  then have forms: "resolve env reg s w = (file_verdict env e q (lookup w q), w)"
    if "s \<in> {ref_token e, short_ref e, ref_uri e}" for s
    using that draft(1) p(2) assms(6,9) by (intro resolve_read)
  have latest: "resolve_latest env reg w = resolve env reg (short_ref f) w"
    if "pcs j = Finished (Inr f)" and moved: "pointer reg w = Some (RegularFile, latest_line (ref_token f))" for j f
  proof -
    have "valid_token (ref_token f)"
      using sys_ok_stored [OF ok, of j f] that(1) by (simp add: drafted_def)
    moreover obtain z where "nodes w (latest_path reg) = Some z" "node_kind z = RegularFile"
      "node_bytes z = latest_line (ref_token f)"
      using moved by (auto simp: pointer_def)
    ultimately show ?thesis
      unfolding short_ref_def using assms(9) by (rule resolve_latest_points)
  qed
  from ok have "pointer reg w = pointer reg w0 \<or>
      (\<exists>i e. pcs i = Finished (Inr e) \<and> pointer reg w = Some (RegularFile, latest_line (ref_token e)))"
    by (simp add: sys_ok_def)
  with latest have "pointer reg w = pointer reg w0 \<or>
      (\<exists>j f. pcs j = Finished (Inr f) \<and> resolve_latest env reg w = resolve env reg (short_ref f) w)"
    by blast
  with forms show ?thesis by simp
qed

text \<open>C24: A registration is wait-free: whatever the other processes and programs do, a process has ended
  once it has been scheduled 39 times.\<close>

theorem registration_wait_free:
  assumes "sys_run env reg jobs schedule (\<lambda>_. MakeDirs) w0 pcs w" "39 \<le> count_list schedule (Some i)"
  shows "\<exists>r. pcs i = Finished r"
proof -
  have "reg_rank (pcs i) \<le> 39 - count_list schedule (Some i)"
    using sys_run_rank [OF assms(1), of i] by simp
  with assms(2) show ?thesis
    by (simp add: reg_rank_zero)
qed

section \<open>Instances\<close>

text \<open>Two processes register the same file, and draw the same tokens.\<close>

definition demo_job :: "unit job" where
  "demo_job = \<lparr>job_path = ''/a'', job_clock = Some 5, job_fill = demo_fill\<rparr>"

lemma demo_run:
  "\<exists>pcs w. sys_run demo_env demo_registry (\<lambda>_ :: bool. demo_job) (replicate 39 (Some False))
     (\<lambda>_. MakeDirs) demo_world pcs w \<and> pcs False = Finished (Inr demo_entry) \<and> faults w = (\<lambda>_. None)"
proof -
  obtain w where w: "register demo_env demo_registry (Some 5) demo_fill ''/a'' demo_world = (Inr demo_entry, w)"
    "faults w = (\<lambda>_. None)"
    using demo_register by blast
  then have "reg_steps demo_env demo_registry demo_job 39 MakeDirs demo_world = (Finished (Inr demo_entry), w)"
    by (simp add: steps_of_register demo_job_def)
  from sys_run_alone [of _ _ "\<lambda>_ :: bool. demo_job" False _ "\<lambda>_. MakeDirs", OF this] w(2) show ?thesis
    by (intro exI [of _ "(\<lambda>_. MakeDirs)(False := Finished (Inr demo_entry))"] exI [of _ w] conjI) simp_all
qed

theorem concurrent_registrations_witness:
  "\<exists>pcs w. sys_run demo_env demo_registry (\<lambda>_ :: bool. demo_job) (replicate 39 (Some False) @ [Some True, None])
     (\<lambda>_. MakeDirs) demo_world pcs w \<and> holds_entry demo_env demo_registry w demo_entry"
proof -
  obtain pcs w where run: "sys_run demo_env demo_registry (\<lambda>_ :: bool. demo_job) (replicate 39 (Some False))
     (\<lambda>_. MakeDirs) demo_world pcs w" "pcs False = Finished (Inr demo_entry)"
    using demo_run by blast
  obtain pc v where step: "reg_step demo_env demo_registry demo_job (pcs True) w = (pc, v)" by fastforce
  have "sys_run demo_env demo_registry (\<lambda>_. demo_job) [Some True, None] pcs w (pcs(True := pc)) v"
    using step by (auto intro!: sys_run.intros simp: elsewhere_def)
  from sys_run_append [OF run(1) this] have all: "sys_run demo_env demo_registry (\<lambda>_ :: bool. demo_job)
     (replicate 39 (Some False) @ [Some True, None]) (\<lambda>_. MakeDirs) demo_world (pcs(True := pc)) v" .
  have "(pcs(True := pc)) False = Finished (Inr demo_entry)"
    using run(2) by simp
  then have "holds_entry demo_env demo_registry v demo_entry"
    using concurrent_registrations [OF all] by blast
  with all show ?thesis by blast
qed

theorem concurrent_references_resolve_witness:
  "\<exists>w. resolve demo_env demo_registry (short_ref demo_entry) w = (Inl (IdentityChanged demo_token), w)"
proof -
  obtain pcs w where run: "sys_run demo_env demo_registry (\<lambda>_ :: bool. demo_job) (replicate 39 (Some False))
     (\<lambda>_. MakeDirs) demo_world pcs w" "pcs False = Finished (Inr demo_entry)" "faults w = (\<lambda>_. None)"
    using demo_run by blast
  let ?v = "w\<lparr>nodes := (nodes w)(''/a'' := None)\<rparr>"
  have "elsewhere demo_registry w ?v"
    by (auto simp: elsewhere_def demo_registry_def entry_path_def latest_path_def refs_dir_def path_join_def)
  then have "sys_run demo_env demo_registry (\<lambda>_ :: bool. demo_job) [None] pcs w pcs ?v"
    by (auto intro: sys_run.intros)
  from concurrent_references_resolve [OF sys_run_append [OF run(1) this] run(2) demo_env_ok demo_facts(1-5)] run(3)
  have "resolve demo_env demo_registry (short_ref demo_entry) ?v = (file_verdict demo_env demo_entry ''/a'' None, ?v)"
    by (simp add: lookup_def follow_def)
  then have "resolve demo_env demo_registry (short_ref demo_entry) ?v = (Inl (IdentityChanged demo_token), ?v)"
    by (simp add: file_verdict_def demo_entry_def)
  then show ?thesis by blast
qed

theorem registration_wait_free_witness:
  "\<exists>pcs w r. sys_run demo_env demo_registry (\<lambda>_ :: bool. demo_job) (replicate 39 (Some False))
     (\<lambda>_. MakeDirs) demo_world pcs w \<and> pcs False = Finished r"
proof -
  obtain pcs w where run: "sys_run demo_env demo_registry (\<lambda>_ :: bool. demo_job) (replicate 39 (Some False))
     (\<lambda>_. MakeDirs) demo_world pcs w"
    using demo_run by blast
  have "39 \<le> count_list (replicate 39 (Some False)) (Some False)"
    by (simp add: count_list_eq_length_filter)
  from run registration_wait_free [OF run this] show ?thesis by blast
qed

end
