(* ===== verification/Intent_Callback.thy ===== *)
theory Intent_Callback
  imports Base64_Interface Utf8_Text Unix_Files
begin

text \<open>
  Crate \<open>terminal-interop-intent\<close> on Unix: endpoint identities, open intents with their path
  encoding and callback URI, receipts and ready records, the length-prefixed frames, the
  listener and the dispatcher.  A path is its bytes.  The Base64 engine (\<open>enc\<close>, \<open>dec\<close>), the JSON
  serializer, the random source and the file system calls are arguments.
\<close>

section \<open>Data\<close>

definition OPEN_INTENT_SCHEMA_V1 :: string where
  "OPEN_INTENT_SCHEMA_V1 = ''urn:terminal-interop:open-intent:v1''"

definition INTENT_RECEIPT_SCHEMA_V1 :: string where
  "INTENT_RECEIPT_SCHEMA_V1 = ''urn:terminal-interop:intent-receipt:v1''"

definition INTENT_READY_SCHEMA_V1 :: string where
  "INTENT_READY_SCHEMA_V1 = ''urn:terminal-interop:intent-ready:v1''"

definition INTENT_URI_PREFIX_V1 :: string where
  "INTENT_URI_PREFIX_V1 = ''terminal-interop-intent://v1/open/''"

definition ENDPOINT_HEX_BYTES :: nat where "ENDPOINT_HEX_BYTES = 16"

definition ENDPOINT_HEX_LEN :: nat where "ENDPOINT_HEX_LEN = ENDPOINT_HEX_BYTES * 2"

definition MAX_TARGET_BYTES :: nat where "MAX_TARGET_BYTES = 16 * 1024"

definition MAX_FRAME_BYTES :: nat where "MAX_FRAME_BYTES = 64 * 1024"

definition SOCKET_PATH_SOFT_LIMIT :: nat where "SOCKET_PATH_SOFT_LIMIT = 100"

type_synonym endpoint_id = string

datatype intent_action = OpenArtifact

datatype path_encoding = UnixBytesBase64urlV1 | Utf8Base64urlV1

record encoded_path =
  path_encoding :: path_encoding
  path_value :: string

record open_intent =
  intent_schema :: string
  intent_endpoint :: endpoint_id
  intent_action :: intent_action
  intent_target :: encoded_path

datatype delivery_state = Forwarded | Rejected

record intent_receipt =
  delivery_schema :: string
  delivery_endpoint :: endpoint_id
  delivery_state :: delivery_state
  delivery_detail :: string

record intent_ready =
  ready_schema :: string
  ready_endpoint :: endpoint_id
  ready_uri_prefix :: string

datatype ('io, 'json) intent_error =
    Random string
  | InvalidEndpoint
  | InvalidUri
  | UnsupportedUriComponent
  | InvalidTargetEncoding
  | InvalidTargetBytes
  | TargetNotAbsolute
  | UnsupportedPathEncoding
  | UnsupportedIntentSchema string
  | InvalidReceiptDetail
  | InvalidReadyPrefix
  | RuntimeDirectoryUnavailable
  | RuntimeDirectoryNotPrivate path
  | SocketPathTooLong path
  | EndpointInUse path
  | FrameTooLarge
  | TruncatedFrame
  | EndpointMismatch
  | Io 'io
  | Json 'json

section \<open>Endpoint identities\<close>

definition hex_digit :: "nat \<Rightarrow> byte" where
  "hex_digit n = ''0123456789abcdef'' ! n"

definition hex_byte :: "byte \<Rightarrow> string" where
  "hex_byte b = [hex_digit (of_char b div 16), hex_digit (of_char b mod 16)]"

definition is_lower_hex :: "byte \<Rightarrow> bool" where
  "is_lower_hex b \<longleftrightarrow> is_digit b \<or> CHR ''a'' \<le> b \<and> b \<le> CHR ''f''"

definition endpoint_generate :: "string + bytes \<Rightarrow> ('io, 'json) intent_error + endpoint_id" where
  "endpoint_generate fill =
     try_bind (map_err Random fill) (\<lambda>bs. Inr (concat (map hex_byte bs)))"

definition endpoint_parse :: "string \<Rightarrow> ('io, 'json) intent_error + endpoint_id" where
  "endpoint_parse val =
     (if length val \<noteq> ENDPOINT_HEX_LEN \<or> \<not> list_all is_lower_hex val
      then Inl InvalidEndpoint else Inr val)"

definition endpoint_deserialize ::
  "'e + string \<Rightarrow> (('io, 'json) intent_error \<Rightarrow> 'e) \<Rightarrow> 'e + endpoint_id" where
  "endpoint_deserialize text custom = try_bind text (\<lambda>s. map_err custom (endpoint_parse s))"

definition valid_endpoint :: "endpoint_id \<Rightarrow> bool" where
  "valid_endpoint s \<longleftrightarrow> length s = ENDPOINT_HEX_LEN \<and> list_all is_lower_hex s"

section \<open>Open intents\<close>

definition validate_target_bytes :: "bytes \<Rightarrow> ('io, 'json) intent_error + unit" where
  "validate_target_bytes bs =
     (if bs = [] \<or> MAX_TARGET_BYTES < length bs \<or> CHR 0x00 \<in> set bs
      then Inl InvalidTargetBytes else Inr ())"

definition is_ascii_alphabetic :: "byte \<Rightarrow> bool" where
  "is_ascii_alphabetic b \<longleftrightarrow>
     CHR ''a'' \<le> b \<and> b \<le> CHR ''z'' \<or> CHR ''A'' \<le> b \<and> b \<le> CHR ''Z''"

definition is_separator :: "byte \<Rightarrow> bool" where
  "is_separator b \<longleftrightarrow> b = CHR ''/'' \<or> b = CHR 0x5C"

fun is_windows_absolute :: "string \<Rightarrow> bool" where
  "is_windows_absolute (a # b # c # _) =
     (if is_ascii_alphabetic a \<and> b = CHR '':'' \<and> is_separator c then True
      else is_separator a \<and> is_separator b)"
| "is_windows_absolute [a, b] = (is_separator a \<and> is_separator b)"
| "is_windows_absolute _ = False"

definition path_bytes :: "path \<Rightarrow> path_encoding \<times> bytes" where
  "path_bytes p = (UnixBytesBase64urlV1, p)"

definition path_from_bytes :: "path_encoding \<Rightarrow> bytes \<Rightarrow> ('io, 'json) intent_error + path" where
  "path_from_bytes encoding bs =
     (if encoding \<noteq> UnixBytesBase64urlV1 then Inl UnsupportedPathEncoding else Inr bs)"

definition from_path ::
  "(bytes \<Rightarrow> string) \<Rightarrow> endpoint_id \<Rightarrow> path \<Rightarrow> ('io, 'json) intent_error + open_intent" where
  "from_path enc endpoint p =
     (if \<not> is_absolute p then Inl TargetNotAbsolute
      else
        let (encoding, bs) = path_bytes p in
        try_bind (validate_target_bytes bs)
          (\<lambda>_. Inr \<lparr>intent_schema = OPEN_INTENT_SCHEMA_V1, intent_endpoint = endpoint,
                    intent_action = OpenArtifact,
                    intent_target = \<lparr>path_encoding = encoding, path_value = enc bs\<rparr>\<rparr>))"

definition portable_path_bytes ::
  "(string \<Rightarrow> bytes option) \<Rightarrow> open_intent \<Rightarrow> ('io, 'json) intent_error + bytes" where
  "portable_path_bytes dec i =
     (if intent_schema i \<noteq> OPEN_INTENT_SCHEMA_V1
      then Inl (UnsupportedIntentSchema (intent_schema i))
      else try_bind (ok_or InvalidTargetEncoding (dec (path_value (intent_target i))))
        (\<lambda>bs. try_bind (validate_target_bytes bs)
          (\<lambda>_. case path_encoding (intent_target i) of
             UnixBytesBase64urlV1 \<Rightarrow>
               if get_at bs 0 \<noteq> Some (CHR ''/'') then Inl TargetNotAbsolute else Inr bs
           | Utf8Base64urlV1 \<Rightarrow>
               try_bind (ok_or InvalidTargetEncoding (from_utf8 bs))
                 (\<lambda>val. if \<not> is_windows_absolute val then Inl TargetNotAbsolute else Inr bs))))"

definition intent_path ::
  "(string \<Rightarrow> bytes option) \<Rightarrow> open_intent \<Rightarrow> ('io, 'json) intent_error + path" where
  "intent_path dec i =
     try_bind (portable_path_bytes dec i)
       (\<lambda>bs. try_bind (path_from_bytes (path_encoding (intent_target i)) bs)
         (\<lambda>p. if \<not> is_absolute p then Inl TargetNotAbsolute else Inr p))"

definition validate_portable ::
  "(string \<Rightarrow> bytes option) \<Rightarrow> open_intent \<Rightarrow> ('io, 'json) intent_error + unit" where
  "validate_portable dec i = try_bind (portable_path_bytes dec i) (\<lambda>_. Inr ())"

definition intent_uri ::
  "(bytes \<Rightarrow> string) \<Rightarrow> (string \<Rightarrow> bytes option) \<Rightarrow> open_intent
     \<Rightarrow> ('io, 'json) intent_error + string" where
  "intent_uri enc dec i =
     try_bind (intent_path dec i)
       (\<lambda>p. let (_, bs) = path_bytes p in
         Inr (INTENT_URI_PREFIX_V1 @ intent_endpoint i @ ''/'' @ enc bs))"

definition parse_uri ::
  "(string \<Rightarrow> bytes option) \<Rightarrow> string \<Rightarrow> ('io, 'json) intent_error + open_intent" where
  "parse_uri dec uri =
     (if CHR ''?'' \<in> set uri \<or> CHR 0x23 \<in> set uri then Inl UnsupportedUriComponent
      else try_bind (ok_or InvalidUri (strip_prefix INTENT_URI_PREFIX_V1 uri))
        (\<lambda>suffix. case split_on (CHR ''/'') suffix of
           [] \<Rightarrow> Inl InvalidUri
         | segment # segments \<Rightarrow>
             try_bind (endpoint_parse segment)
               (\<lambda>endpoint. case segments of
                  [] \<Rightarrow> Inl InvalidUri
                | encoded # rest \<Rightarrow>
                    if encoded = [] \<or> rest \<noteq> [] then Inl InvalidUri
                    else
                      let i = \<lparr>intent_schema = OPEN_INTENT_SCHEMA_V1, intent_endpoint = endpoint,
                               intent_action = OpenArtifact,
                               intent_target = \<lparr>path_encoding = UnixBytesBase64urlV1,
                                 path_value = encoded\<rparr>\<rparr>
                      in try_bind (intent_path dec i) (\<lambda>_. Inr i))))"

section \<open>Receipts and ready records\<close>

definition delivery_forwarded :: "endpoint_id \<Rightarrow> intent_receipt" where
  "delivery_forwarded endpoint =
     \<lparr>delivery_schema = INTENT_RECEIPT_SCHEMA_V1, delivery_endpoint = endpoint,
      delivery_state = Forwarded,
      delivery_detail = ''intent was forwarded to the bound local consumer''\<rparr>"

definition delivery_rejected :: "endpoint_id \<Rightarrow> string \<Rightarrow> intent_receipt" where
  "delivery_rejected endpoint detail =
     \<lparr>delivery_schema = INTENT_RECEIPT_SCHEMA_V1, delivery_endpoint = endpoint,
      delivery_state = Rejected, delivery_detail = detail\<rparr>"

definition delivery_validate :: "intent_receipt \<Rightarrow> ('io, 'json) intent_error + unit" where
  "delivery_validate r =
     (if delivery_schema r \<noteq> INTENT_RECEIPT_SCHEMA_V1
      then Inl (UnsupportedIntentSchema (delivery_schema r))
      else if delivery_detail r = [] \<or> MAX_FRAME_BYTES < length (delivery_detail r)
      then Inl InvalidReceiptDetail
      else Inr ())"

definition ready_new :: "endpoint_id \<Rightarrow> intent_ready" where
  "ready_new endpoint =
     \<lparr>ready_schema = INTENT_READY_SCHEMA_V1, ready_endpoint = endpoint,
      ready_uri_prefix = INTENT_URI_PREFIX_V1 @ endpoint @ ''/''\<rparr>"

definition ready_validate :: "intent_ready \<Rightarrow> ('io, 'json) intent_error + unit" where
  "ready_validate r =
     (if ready_schema r \<noteq> INTENT_READY_SCHEMA_V1
      then Inl (UnsupportedIntentSchema (ready_schema r))
      else
        let expected = INTENT_URI_PREFIX_V1 @ ready_endpoint r @ ''/'' in
        if ready_uri_prefix r \<noteq> expected then Inl InvalidReadyPrefix else Inr ())"

section \<open>Frames\<close>

text \<open>\<open>u32::to_be_bytes\<close> and \<open>u32::from_be_bytes\<close>.\<close>

definition to_be_bytes :: "u32 \<Rightarrow> bytes" where
  "to_be_bytes w =
     [char_of (unat w div 16777216), char_of (unat w div 65536 mod 256),
      char_of (unat w div 256 mod 256), char_of (unat w mod 256)]"

definition from_be_bytes :: "bytes \<Rightarrow> u32" where
  "from_be_bytes bs = of_nat (foldl (\<lambda>n b. n * 256 + of_char b) 0 bs)"

definition map_frame_read_error ::
  "io_error_kind \<Rightarrow> (io_error_kind, 'json) intent_error" where
  "map_frame_read_error e = (if e = UnexpectedEof then TruncatedFrame else Io e)"

type_synonym stream = "io_error_kind byte_stream"

definition write_frame ::
  "('v \<Rightarrow> 'json + bytes) \<Rightarrow> 'v \<Rightarrow> (stream, (io_error_kind, 'json) intent_error, unit) io" where
  "write_frame to_json val =
     io_bind (io_lift (map_err Json (to_json val)))
       (\<lambda>payload.
         if MAX_FRAME_BYTES < length payload then io_fail FrameTooLarge
         else io_bind
           (io_lift (ok_or FrameTooLarge
             (if length payload < 2 ^ 32 then Some (of_nat (length payload)) else None)))
           (\<lambda>len. io_bind (io_map_err Io (write_all (to_be_bytes len)))
             (\<lambda>_. io_map_err Io (write_all payload))))"

definition read_frame ::
  "(bytes \<Rightarrow> 'json + 'v) \<Rightarrow> (stream, (io_error_kind, 'json) intent_error, 'v) io" where
  "read_frame from_json =
     io_bind (io_map_err map_frame_read_error (read_exact 4))
       (\<lambda>header.
         let len = unat (from_be_bytes header) in
         if MAX_FRAME_BYTES < len then io_fail FrameTooLarge
         else io_bind (io_map_err map_frame_read_error (read_exact len))
           (\<lambda>payload. io_lift (map_err Json (from_json payload))))"

section \<open>Listener and dispatcher\<close>

definition runtime_root :: "path option \<Rightarrow> ('io, 'json) intent_error + path" where
  "runtime_root xdg_runtime_dir =
     try_bind
       (ok_or RuntimeDirectoryUnavailable
         (case xdg_runtime_dir of None \<Rightarrow> None
          | Some p \<Rightarrow> if is_absolute p then Some p else None))
       (\<lambda>root. Inr (path_join (path_join root ''terminal-interop'') ''intent-v1''))"

definition socket_path :: "path \<Rightarrow> endpoint_id \<Rightarrow> ('io, 'json) intent_error + path" where
  "socket_path root endpoint =
     (let p = path_join root (endpoint @ ''.sock'') in
      if SOCKET_PATH_SOFT_LIMIT < length p then Inl (SocketPathTooLong p) else Inr p)"

definition prepare_runtime_root ::
  "path \<Rightarrow> (unix_world, (io_error_kind, 'json) intent_error, unit) io" where
  "prepare_runtime_root root =
     io_bind (io_map_err Io (create_dir_all root))
       (\<lambda>_. io_bind (io_map_err Io (set_permissions root 0x1C0))
       (\<lambda>_. io_bind (io_map_err Io (symlink_metadata root))
       (\<lambda>metadata.
         if node_kind metadata \<noteq> Directory \<or> and (node_mode metadata) 0x3F \<noteq> 0
         then io_fail (RuntimeDirectoryNotPrivate root)
         else io_return ())))"

record intent_listener =
  listener_socket_path :: path
  listener_endpoint :: endpoint_id

definition listener_bind ::
  "path \<Rightarrow> endpoint_id
     \<Rightarrow> (unix_world, (io_error_kind, 'json) intent_error, intent_listener) io" where
  "listener_bind root endpoint =
     io_bind (prepare_runtime_root root)
       (\<lambda>_. io_bind (io_lift (socket_path root endpoint))
       (\<lambda>socket w.
         if fs_exists socket w then io_fail (EndpointInUse socket) w
         else io_bind (io_map_err Io (bind_socket socket))
           (\<lambda>_. io_bind (io_map_err Io (set_permissions socket 0x180))
           (\<lambda>_. io_return \<lparr>listener_socket_path = socket, listener_endpoint = endpoint\<rparr>)) w))"

text \<open>Dropping the listener removes the socket and ignores the result.\<close>

definition listener_drop :: "intent_listener \<Rightarrow> unix_world \<Rightarrow> unix_world" where
  "listener_drop l w = snd (remove_file (listener_socket_path l) w)"

text \<open>\<open>let _ = op\<close>: the effect of an operation whose result is ignored.\<close>

definition io_ignore :: "('s, 'e, 'a) io \<Rightarrow> ('s, 'f, unit) io" where
  "io_ignore m s = (Inr (), snd (m s))"

definition mismatch_detail :: string where
  "mismatch_detail = ''request endpoint does not match the bound consumer''"

text \<open>\<open>accept\<close> once the operating system has handed over a connection.\<close>

definition accept_intent ::
  "(string \<Rightarrow> bytes option) \<Rightarrow> (bytes \<Rightarrow> 'json + open_intent) \<Rightarrow> (intent_receipt \<Rightarrow> 'json + bytes)
     \<Rightarrow> endpoint_id \<Rightarrow> (stream, (io_error_kind, 'json) intent_error, open_intent) io" where
  "accept_intent dec from_json to_json endpoint =
     io_bind (read_frame from_json)
       (\<lambda>i. if intent_endpoint i \<noteq> endpoint
             then io_bind
               (io_ignore (write_frame to_json (delivery_rejected endpoint mismatch_detail)))
               (\<lambda>_. io_fail EndpointMismatch)
             else io_bind (io_lift (intent_path dec i)) (\<lambda>_. io_return i))"

definition respond ::
  "(intent_receipt \<Rightarrow> 'json + bytes) \<Rightarrow> intent_receipt
     \<Rightarrow> (stream, (io_error_kind, 'json) intent_error, unit) io" where
  "respond to_json receipt = write_frame to_json receipt"

text \<open>\<open>set_read_timeout\<close> and \<open>set_write_timeout\<close> refuse a zero duration.\<close>

definition set_timeout :: "nat \<Rightarrow> (stream, io_error_kind, unit) io" where
  "set_timeout timeout_ms =
     (if timeout_ms = 0 then io_fail InvalidInput
      else io_return ())"

definition dispatch_on ::
  "(open_intent \<Rightarrow> 'json + bytes) \<Rightarrow> (bytes \<Rightarrow> 'json + intent_receipt) \<Rightarrow> open_intent \<Rightarrow> nat
     \<Rightarrow> (stream, (io_error_kind, 'json) intent_error, intent_receipt) io" where
  "dispatch_on to_json from_json i timeout_ms =
     io_bind (io_map_err Io (set_timeout timeout_ms))
       (\<lambda>_. io_bind (io_map_err Io (set_timeout timeout_ms))
       (\<lambda>_. io_bind (write_frame to_json i)
       (\<lambda>_. io_bind (read_frame from_json)
       (\<lambda>receipt. io_bind (io_lift (delivery_validate receipt))
       (\<lambda>_. if delivery_endpoint receipt \<noteq> intent_endpoint i then io_fail EndpointMismatch
             else io_return receipt)))))"

definition dispatch ::
  "(path \<Rightarrow> io_error_kind + stream) \<Rightarrow> (open_intent \<Rightarrow> 'json + bytes)
     \<Rightarrow> (bytes \<Rightarrow> 'json + intent_receipt) \<Rightarrow> path \<Rightarrow> open_intent \<Rightarrow> nat
     \<Rightarrow> (io_error_kind, 'json) intent_error + intent_receipt" where
  "dispatch connect to_json from_json root i timeout_ms =
     try_bind (socket_path root (intent_endpoint i))
       (\<lambda>socket. try_bind (map_err Io (connect socket))
         (\<lambda>s. fst (dispatch_on to_json from_json i timeout_ms s)))"

section \<open>Lemmas on endpoints and URIs\<close>

lemma endpoint_parse_Inr_iff [result_iff]:
  "endpoint_parse s = Inr e \<longleftrightarrow> e = s \<and> valid_endpoint s"
  by (auto simp: endpoint_parse_def valid_endpoint_def)

lemma hex_digit_lower: "n < 16 \<Longrightarrow> is_lower_hex (hex_digit n)"
proof -
  assume "n < 16"
  then have "hex_digit n \<in> set ''0123456789abcdef''"
    unfolding hex_digit_def by (intro nth_mem) simp
  then show ?thesis
    by (auto simp: is_lower_hex_def is_digit_def)
qed

lemma hex_digit_inj: "m < 16 \<Longrightarrow> n < 16 \<Longrightarrow> hex_digit m = hex_digit n \<longleftrightarrow> m = n"
proof -
  have "distinct ''0123456789abcdef''"
    by simp
  moreover assume "m < 16" "n < 16"
  ultimately show ?thesis
    unfolding hex_digit_def by (intro nth_eq_iff_index_eq) simp_all
qed

lemma hex_byte_parts: "of_char b div 16 < (16 :: nat)" "of_char b mod 16 < (16 :: nat)"
proof -
  have "of_char b < (16 * 16 :: nat)"
    by simp
  then show "of_char b div 16 < (16 :: nat)"
    by (rule less_mult_imp_div_less)
qed simp

lemma hex_byte_inj: "hex_byte a = hex_byte b \<longleftrightarrow> a = b"
proof
  assume "hex_byte a = hex_byte b"
  then have "of_char a div 16 = (of_char b div 16 :: nat)" "of_char a mod 16 = (of_char b mod 16 :: nat)"
    by (simp_all only: hex_byte_def hex_digit_inj hex_byte_parts list.inject)
  then have "(of_char a :: nat) = of_char b"
    by (metis mod_mult_div_eq)
  then show "a = b"
    by (simp add: of_char_eq_iff)
qed simp

lemma length_hex_byte [simp]: "length (hex_byte b) = 2"
  by (simp add: hex_byte_def)

lemma hex_string_inj: "concat (map hex_byte xs) = concat (map hex_byte ys) \<longleftrightarrow> xs = ys"
proof (induction xs arbitrary: ys)
  case Nil
  have "concat (map hex_byte ys) = [] \<longleftrightarrow> ys = []"
    by (cases ys) (simp_all add: hex_byte_def)
  then show ?case by auto
next
  case (Cons x xs)
  show ?case
  proof (cases ys)
    case Nil
    then show ?thesis by (simp add: hex_byte_def)
  next
    case (Cons y zs)
    then show ?thesis
      using Cons.IH [of zs] hex_byte_inj [of x y] by simp
  qed
qed

lemma hex_string_valid:
  "length bs = 16 \<Longrightarrow> valid_endpoint (concat (map hex_byte bs))"
proof -
  assume "length bs = 16"
  moreover have "length (concat (map hex_byte bs)) = 2 * length bs"
    by (induction bs) simp_all
  moreover have "list_all is_lower_hex (hex_byte b)" for b
    by (simp only: hex_byte_def list.pred_inject hex_digit_lower hex_byte_parts simp_thms)
  then have "list_all is_lower_hex (concat (map hex_byte bs))"
    by (induction bs) simp_all
  ultimately show ?thesis
    by (simp add: valid_endpoint_def ENDPOINT_HEX_LEN_def ENDPOINT_HEX_BYTES_def)
qed

lemma valid_endpoint_chars:
  "valid_endpoint s \<Longrightarrow> c \<in> {CHR ''/'', CHR ''?'', CHR 0x23} \<Longrightarrow> c \<notin> set s"
  by (auto simp: valid_endpoint_def list_all_iff is_lower_hex_def is_digit_def)

text \<open>A valid open intent: what \<open>from_path\<close> builds and \<open>path\<close> accepts.\<close>

definition valid_path :: "path \<Rightarrow> bool" where
  "valid_path p \<longleftrightarrow> is_absolute p \<and> length p \<le> MAX_TARGET_BYTES \<and> CHR 0x00 \<notin> set p"

lemma validate_target_bytes_Inr_iff [result_iff]:
  "validate_target_bytes bs = Inr u \<longleftrightarrow> bs \<noteq> [] \<and> length bs \<le> MAX_TARGET_BYTES \<and> CHR 0x00 \<notin> set bs"
  by (auto simp: validate_target_bytes_def)

definition carries_path :: "(string \<Rightarrow> bytes option) \<Rightarrow> open_intent \<Rightarrow> path \<Rightarrow> bool" where
  "carries_path dec i p \<longleftrightarrow>
     intent_schema i = OPEN_INTENT_SCHEMA_V1 \<and>
     path_encoding (intent_target i) = UnixBytesBase64urlV1 \<and>
     dec (path_value (intent_target i)) = Some p \<and> valid_path p"

lemma intent_path_Inr_iff [result_iff]: "intent_path dec i = Inr p \<longleftrightarrow> carries_path dec i p"
  by (cases "path_encoding (intent_target i)")
    (auto simp: intent_path_def portable_path_bytes_def path_from_bytes_def result_iff
      carries_path_def valid_path_def is_absolute_def get_at_def split: if_splits)

lemma from_path_Inr_iff [result_iff]:
  "from_path enc endpoint p = Inr i \<longleftrightarrow>
     valid_path p \<and>
     i = \<lparr>intent_schema = OPEN_INTENT_SCHEMA_V1, intent_endpoint = endpoint,
          intent_action = OpenArtifact,
          intent_target = \<lparr>path_encoding = UnixBytesBase64urlV1, path_value = enc p\<rparr>\<rparr>"
  by (auto simp: from_path_def path_bytes_def valid_path_def result_iff)

lemma intent_uri_Inr_iff [result_iff]:
  "intent_uri enc dec i = Inr u \<longleftrightarrow>
     (\<exists>p. carries_path dec i p \<and> u = INTENT_URI_PREFIX_V1 @ intent_endpoint i @ ''/'' @ enc p)"
  by (auto simp: intent_uri_def path_bytes_def result_iff)

lemma prefix_chars: "c \<in> {CHR ''?'', CHR 0x23} \<Longrightarrow> c \<notin> set INTENT_URI_PREFIX_V1"
  by (auto simp: INTENT_URI_PREFIX_V1_def)

definition unix_intent :: "endpoint_id \<Rightarrow> string \<Rightarrow> open_intent" where
  "unix_intent e v =
     \<lparr>intent_schema = OPEN_INTENT_SCHEMA_V1, intent_endpoint = e, intent_action = OpenArtifact,
      intent_target = \<lparr>path_encoding = UnixBytesBase64urlV1, path_value = v\<rparr>\<rparr>"

lemma carries_path_unix: "carries_path dec (unix_intent e v) p \<longleftrightarrow> dec v = Some p \<and> valid_path p"
  by (simp add: carries_path_def unix_intent_def)

lemma carries_path_shape:
  "carries_path dec i p \<Longrightarrow> i = unix_intent (intent_endpoint i) (path_value (intent_target i))"
  by (cases i; cases "intent_target i"; cases "intent_action i")
    (simp add: carries_path_def unix_intent_def)

lemma parse_uri_unfold:
  assumes "CHR ''?'' \<notin> set u" "CHR 0x23 \<notin> set u"
  shows "parse_uri dec u =
    try_bind (ok_or InvalidUri (strip_prefix INTENT_URI_PREFIX_V1 u))
      (\<lambda>suffix. case split_on (CHR ''/'') suffix of
         [] \<Rightarrow> Inl InvalidUri
       | segment # segments \<Rightarrow>
           try_bind (endpoint_parse segment)
             (\<lambda>endpoint. case segments of
                [] \<Rightarrow> Inl InvalidUri
              | encoded # rest \<Rightarrow>
                  if encoded = [] \<or> rest \<noteq> [] then Inl InvalidUri
                  else try_bind (intent_path dec (unix_intent endpoint encoded))
                    (\<lambda>_. Inr (unix_intent endpoint encoded))))"
  unfolding parse_uri_def unix_intent_def Let_def using assms by simp

lemma parse_uri_Inr_iff [result_iff]:
  "parse_uri dec u = Inr i \<longleftrightarrow>
     CHR ''?'' \<notin> set u \<and> CHR 0x23 \<notin> set u \<and>
     (\<exists>e v p. u = INTENT_URI_PREFIX_V1 @ e @ ''/'' @ v \<and> valid_endpoint e \<and> v \<noteq> [] \<and>
       CHR ''/'' \<notin> set v \<and> dec v = Some p \<and> valid_path p \<and> i = unix_intent e v)"
  (is "?lhs \<longleftrightarrow> ?plain \<and> ?rhs")
proof
  assume lhs: ?lhs
  have plain: "CHR ''?'' \<notin> set u" "CHR 0x23 \<notin> set u"
    using lhs by (auto simp: parse_uri_def split: if_splits)
  obtain suffix where suffix: "strip_prefix INTENT_URI_PREFIX_V1 u = Some suffix"
    using lhs unfolding parse_uri_unfold [OF plain] by (auto simp: result_iff)
  obtain e segments where seg: "split_on (CHR ''/'') suffix = e # segments"
    by (cases "split_on (CHR ''/'') suffix") auto
  have e: "valid_endpoint e"
    using lhs unfolding parse_uri_unfold [OF plain] by (auto simp: suffix seg result_iff)
  then have ep: "endpoint_parse e = (Inr e :: ('a, 'b) intent_error + endpoint_id)"
    by (simp add: endpoint_parse_Inr_iff)
  obtain v where v: "segments = [v]" "v \<noteq> []"
    using lhs unfolding parse_uri_unfold [OF plain]
    by (auto simp: suffix seg ep split: list.splits if_splits)
  then obtain p where s: "split_on (CHR ''/'') suffix = [e, v]" "dec v = Some p" "valid_path p"
    "i = unix_intent e v" "u = INTENT_URI_PREFIX_V1 @ suffix"
    using lhs suffix unfolding parse_uri_unfold [OF plain]
    by (auto simp: seg ep result_iff carries_path_unix strip_prefix_Some_iff)
  have "suffix = e @ ''/'' @ v"
    using join_split [of "CHR ''/''" suffix] s(1) by simp
  moreover have "CHR ''/'' \<notin> set v"
    using split_on_pieces [of v "CHR ''/''" suffix] s(1) by simp
  ultimately show "?plain \<and> ?rhs"
    using plain s e v(2) by blast
next
  assume "?plain \<and> ?rhs"
  then obtain e v p where *: "CHR ''?'' \<notin> set u" "CHR 0x23 \<notin> set u"
    "u = INTENT_URI_PREFIX_V1 @ e @ ''/'' @ v" "valid_endpoint e" "v \<noteq> []" "CHR ''/'' \<notin> set v"
    "dec v = Some p" "valid_path p" "i = unix_intent e v"
    by blast
  have "strip_prefix INTENT_URI_PREFIX_V1 u = Some (e @ ''/'' @ v)"
    by (simp only: *(3) strip_prefix_append)
  moreover have "split_on (CHR ''/'') (e @ ''/'' @ v) = [e, v]"
    using valid_endpoint_chars [OF *(4), of "CHR ''/''"] *(6)
    by (simp add: split_on_append split_on_no_sep)
  moreover have "endpoint_parse e = (Inr e :: ('a, 'b) intent_error + endpoint_id)"
    using *(4) by (simp add: endpoint_parse_Inr_iff)
  moreover have "intent_path dec (unix_intent e v) = (Inr p :: ('a, 'b) intent_error + path)"
    using * by (simp add: intent_path_Inr_iff carries_path_unix)
  ultimately show ?lhs
    using * by (simp add: parse_uri_unfold)
qed

section \<open>Lemmas on frames\<close>

definition frame_of :: "bytes \<Rightarrow> bytes" where
  "frame_of payload = to_be_bytes (of_nat (length payload)) @ payload"

lemma length_to_be_bytes [simp]: "length (to_be_bytes w) = 4"
  by (simp add: to_be_bytes_def)

lemma be_digits:
  fixes n :: nat
  shows "((n div 16777216 * 256 + n div 65536 mod 256) * 256 + n div 256 mod 256) * 256 + n mod 256 = n"
proof -
  have "n div 65536 = n div 256 div 256" "n div 16777216 = n div 256 div 256 div 256"
    by (simp_all add: div_mult2_eq [symmetric])
  then show ?thesis
    by (metis div_mult_mod_eq)
qed

lemma from_to_be_bytes [simp]: "from_be_bytes (to_be_bytes w) = w"
proof -
  have "unat w < 256 * 16777216"
    using unsigned_less [of w, where ?'a = nat] by simp
  then have "unat w div 16777216 < 256"
    by (rule less_mult_imp_div_less)
  then show ?thesis
    using be_digits [of "unat w"] by (simp add: from_be_bytes_def to_be_bytes_def)
qed

lemma frame_length:
  assumes "length payload \<le> MAX_FRAME_BYTES"
  shows "unat (of_nat (length payload) :: u32) = length payload"
proof -
  have "length payload < 2 ^ LENGTH(32)"
    using assms by (simp add: MAX_FRAME_BYTES_def)
  then show ?thesis
    by (simp add: unat_of_nat)
qed

lemma write_frame_ok:
  assumes "to_json v = Inr payload" "length payload \<le> MAX_FRAME_BYTES" "stream_room s = None"
  shows "write_frame to_json v s = (Inr (), s\<lparr>stream_out := stream_out s @ frame_of payload\<rparr>)"
proof -
  have "length payload < 2 ^ 32"
    using assms(2) by (simp add: MAX_FRAME_BYTES_def)
  then show ?thesis
    using assms by (simp add: write_frame_def io_bind_def io_map_err_def write_all_unlimited frame_of_def)
qed

lemma write_frame_Inr:
  assumes "write_frame (to_json :: 'v \<Rightarrow> 'json + bytes) v s = (Inr u, t)"
  obtains payload where "to_json v = Inr payload" "length payload \<le> MAX_FRAME_BYTES"
    "stream_out t = stream_out s @ frame_of payload" "stream_in t = stream_in s"
proof -
  obtain payload where p: "to_json v = Inr payload" "length payload \<le> MAX_FRAME_BYTES"
    using assms by (auto simp: write_frame_def result_iff split: if_splits)
  then have "length payload < 2 ^ 32"
    by (simp add: MAX_FRAME_BYTES_def)
  with p assms have "(io_bind (io_map_err Io (write_all (to_be_bytes (of_nat (length payload)))))
      (\<lambda>_. io_map_err Io (write_all payload)) :: (stream, (io_error_kind, 'json) intent_error, unit) io) s
      = (Inr u, t)"
    by (simp add: write_frame_def io_bind_def)
  then obtain u1 s' where 1: "write_all (to_be_bytes (of_nat (length payload))) s = (Inr u1, s')"
    and 2: "write_all payload s' = (Inr u, t)"
    by (auto simp: io_bind_Inr_iff io_map_err_Inr_iff)
  show ?thesis
    using that [OF p] write_all_Inr [OF 1] write_all_Inr [OF 2] by (simp add: frame_of_def)
qed

lemma write_frame_too_large:
  assumes "to_json v = Inr payload" "MAX_FRAME_BYTES < length payload"
  shows "write_frame to_json v s = (Inl FrameTooLarge, s)"
  using assms by (simp add: write_frame_def io_bind_def)

lemma read_frame_ok:
  assumes "stream_in s = frame_of payload @ rest" "length payload \<le> MAX_FRAME_BYTES"
  shows "read_frame from_json s = (map_err Json (from_json payload), s\<lparr>stream_in := rest\<rparr>)"
  using assms frame_length [OF assms(2)]
  by (simp add: read_frame_def io_bind_def io_map_err_def read_exact_def frame_of_def)

lemma read_frame_too_large:
  assumes "MAX_FRAME_BYTES < unat len"
  shows "read_frame from_json (s\<lparr>stream_in := to_be_bytes len @ rest\<rparr>) =
    (Inl FrameTooLarge, s\<lparr>stream_in := rest\<rparr>)"
proof -
  have "length (to_be_bytes len) = 4"
    by (simp add: to_be_bytes_def)
  then show ?thesis
    using assms by (simp add: read_frame_def io_bind_def io_map_err_def read_exact_def)
qed

lemma read_frame_Inr:
  assumes "read_frame from_json s = (Inr v, t)"
  obtains header payload where "stream_in s = header @ payload @ stream_in t"
    "length header = 4" "length payload = unat (from_be_bytes header)"
    "length payload \<le> MAX_FRAME_BYTES" "from_json payload = Inr v" "stream_out t = stream_out s"
proof -
  obtain header s1 where 1: "read_exact 4 s = (Inr header, s1)"
    and rest: "(let len = unat (from_be_bytes header) in
         if MAX_FRAME_BYTES < len then io_fail FrameTooLarge
         else io_bind (io_map_err map_frame_read_error (read_exact len))
           (\<lambda>payload. io_lift (map_err Json (from_json payload)))) s1 = (Inr v, t)"
    using assms by (auto simp: read_frame_def io_bind_Inr_iff io_map_err_Inr_iff)
  then obtain payload where len: "unat (from_be_bytes header) \<le> MAX_FRAME_BYTES"
    and 2: "read_exact (unat (from_be_bytes header)) s1 = (Inr payload, t)"
    and val: "from_json payload = Inr v"
    by (auto simp: Let_def io_bind_Inr_iff io_map_err_Inr_iff map_err_Inr_iff split: if_splits)
  have h: "length header = 4" "stream_in s = header @ stream_in s1" "stream_out s1 = stream_out s"
    using 1 by (auto simp: read_exact_def split: if_splits)
  have p: "length payload = unat (from_be_bytes header)" "stream_in s1 = payload @ stream_in t"
    "stream_out t = stream_out s1"
    using 2 by (auto simp: read_exact_def split: if_splits)
  show ?thesis
    using that [of header payload] h p len val by simp
qed

section \<open>Lemmas on the listener\<close>

lemma read_frame_out: "read_frame from_json s = (Inr v, t) \<Longrightarrow> stream_out t = stream_out s"
  by (erule read_frame_Inr) simp

lemma accept_intent_Inr:
  assumes "accept_intent dec from_json to_json endpoint s = (Inr i, t)"
  shows "intent_endpoint i = endpoint" "\<exists>p. carries_path dec i p" "stream_out t = stream_out s"
    "read_frame from_json s = (Inr i, t)"
  using assms
  by (auto simp: accept_intent_def io_bind_Inr_iff result_iff dest: read_frame_out split: if_splits)

lemma accept_intent_ok:
  assumes "stream_in s = frame_of payload" "length payload \<le> MAX_FRAME_BYTES"
    and "from_json payload = Inr i" "intent_endpoint i = endpoint" "carries_path dec i p"
  shows "accept_intent dec (from_json :: bytes \<Rightarrow> 'json + open_intent) to_json endpoint s =
    (Inr i, s\<lparr>stream_in := []\<rparr>)"
proof -
  have "read_frame from_json s = (Inr i, s\<lparr>stream_in := []\<rparr>)"
    using read_frame_ok [of s payload "[]" from_json] assms by simp
  moreover have "intent_path dec i = (Inr p :: (io_error_kind, 'json) intent_error + path)"
    using assms(5) by (simp add: intent_path_Inr_iff)
  ultimately show ?thesis
    using assms(4) by (simp add: accept_intent_def io_bind_def)
qed

lemma dispatch_on_Inr:
  assumes "dispatch_on to_json from_json i timeout_ms s = (Inr r, t)"
  obtains header payload request where "to_json i = Inr request"
    "stream_in s = header @ payload @ stream_in t" "from_json payload = Inr r"
    "length header = 4" "length payload = unat (from_be_bytes header)"
    "stream_out t = stream_out s @ frame_of request" "delivery_endpoint r = intent_endpoint i"
proof -
  obtain u s1 r' where 1: "write_frame to_json i s = (Inr u, s1)"
    and 2: "read_frame from_json s1 = (Inr r', t)" and r: "r' = r" "delivery_endpoint r = intent_endpoint i"
    using assms by (auto simp: dispatch_on_def set_timeout_def io_bind_Inr_iff io_map_err_Inr_iff
        result_iff split: if_splits)
  obtain request where "to_json i = Inr request" "stream_out s1 = stream_out s @ frame_of request"
    "stream_in s1 = stream_in s"
    by (rule write_frame_Inr [OF 1])
  moreover obtain header payload where "stream_in s1 = header @ payload @ stream_in t"
    "length header = 4" "length payload = unat (from_be_bytes header)"
    "from_json payload = Inr r'" "stream_out t = stream_out s1"
    by (rule read_frame_Inr [OF 2])
  ultimately show ?thesis
    using that [of request header payload] r by simp
qed

lemma dispatch_on_ok:
  assumes "timeout_ms \<noteq> 0" "stream_room s = None" "to_json i = Inr request"
    and "length request \<le> MAX_FRAME_BYTES" "stream_in s = frame_of response"
    and "length response \<le> MAX_FRAME_BYTES" "from_json response = Inr r"
    and "delivery_validate r = (Inr () :: (io_error_kind, 'json) intent_error + unit)"
    and "delivery_endpoint r = intent_endpoint i"
  shows "dispatch_on (to_json :: open_intent \<Rightarrow> 'json + bytes) from_json i timeout_ms s =
    (Inr r, s\<lparr>stream_in := [], stream_out := stream_out s @ frame_of request\<rparr>)"
proof -
  have "write_frame to_json i s = (Inr (), s\<lparr>stream_out := stream_out s @ frame_of request\<rparr>)"
    using assms by (intro write_frame_ok)
  moreover have "read_frame from_json (s\<lparr>stream_out := stream_out s @ frame_of request\<rparr>) =
      (Inr r, s\<lparr>stream_in := [], stream_out := stream_out s @ frame_of request\<rparr>)"
    using read_frame_ok [of "s\<lparr>stream_out := stream_out s @ frame_of request\<rparr>" response "[]" from_json]
      assms by simp
  ultimately show ?thesis
    using assms(1,8,9) by (simp add: dispatch_on_def set_timeout_def io_bind_def io_map_err_def)
qed

lemma prepare_runtime_root_Inr:
  assumes "prepare_runtime_root root w = (Inr u, w')"
  shows "\<exists>n. nodes w' root = Some n \<and> node_kind n = Directory \<and> and (node_mode n) 0x3F = 0"
    "same_except ({follow w root} \<union> set (dir_chain root)) w w'" "follow w' root = root"
proof -
  obtain u1 w1 u2 n where 1: "create_dir_all root w = (Inr u1, w1)"
    and 2: "set_permissions root 0x1C0 w1 = (Inr u2, w')"
    and n: "symlink_metadata root w' = (Inr n, w')" "node_kind n = Directory"
      "and (node_mode n) 0x3F = 0"
    using assms fs_reads_keep(1)
    by (auto simp: prepare_runtime_root_def io_bind_Inr_iff io_map_err_Inr_iff split: if_splits)
      (metis snd_conv)
  then have root: "nodes w' root = Some n"
    by (auto simp: symlink_metadata_def result_iff split: option.splits)
  with n show "\<exists>n. nodes w' root = Some n \<and> node_kind n = Directory \<and> and (node_mode n) 0x3F = 0"
    by blast
  show "follow w' root = root"
    using root n(2) by (simp add: follow_def)
  have "same_except (set (dir_chain root)) w w1"
    using create_dir_all_keeps [of root w] 1 by simp
  moreover have "same_except {follow w1 root} w1 w'"
    using set_permissions_keeps [of w1 root "0x1C0"] 2 by simp
  moreover have "follow w1 root \<in> {root, follow w root}"
    using create_dir_all_Inr [OF 1] by (auto simp: follow_def split: if_splits)
  ultimately show "same_except ({follow w root} \<union> set (dir_chain root)) w w'"
    by (intro same_except_trans [of _ w w1 w']) (auto elim!: same_except_mono)
qed

section \<open>Properties\<close>

text \<open>C29: Callback URIs are canonical: a URI parses to an intent exactly when that intent, with a
  valid endpoint, renders to the URI; so rendering and parsing are inverse to each other.\<close>

theorem intent_uri_canonical:
  assumes "url_engine enc dec"
  shows "(parse_uri dec u :: ('io, 'json) intent_error + open_intent) = Inr i \<longleftrightarrow>
    valid_endpoint (intent_endpoint i) \<and>
    (intent_uri enc dec i :: ('io, 'json) intent_error + string) = Inr u"
proof
  assume "(parse_uri dec u :: ('io, 'json) intent_error + open_intent) = Inr i"
  then obtain e v p where *: "u = INTENT_URI_PREFIX_V1 @ e @ ''/'' @ v" "valid_endpoint e"
    "dec v = Some p" "valid_path p" "i = unix_intent e v"
    by (auto simp: parse_uri_Inr_iff)
  have "enc p = v"
    using base64_engine.enc_dec [of enc dec v p] *(3) assms by (simp add: url_engine_def)
  with * show "valid_endpoint (intent_endpoint i) \<and>
      (intent_uri enc dec i :: ('io, 'json) intent_error + string) = Inr u"
    by (auto simp: intent_uri_Inr_iff carries_path_unix) (simp_all add: unix_intent_def)
next
  assume *: "valid_endpoint (intent_endpoint i) \<and>
    (intent_uri enc dec i :: ('io, 'json) intent_error + string) = Inr u"
  then obtain p where p: "carries_path dec i p"
    "u = INTENT_URI_PREFIX_V1 @ intent_endpoint i @ ''/'' @ enc p"
    by (auto simp: intent_uri_Inr_iff)
  let ?v = "path_value (intent_target i)"
  have v: "dec ?v = Some p" "valid_path p" "enc p = ?v"
    using p(1) assms base64_engine.enc_dec [of enc dec ?v p]
    by (auto simp: carries_path_def url_engine_def)
  have "p \<noteq> []"
    using v(2) by (auto simp: valid_path_def)
  then have "?v \<noteq> []"
    using url_engine.enc_nonempty [OF assms] v(3) by metis
  moreover have "CHR ''/'' \<notin> set ?v" "CHR ''?'' \<notin> set ?v" "CHR 0x23 \<notin> set ?v"
    using url_engine.enc_no_reserved [OF assms, of _ p] v(3) by simp_all
  moreover have "CHR ''?'' \<notin> set (intent_endpoint i)" "CHR 0x23 \<notin> set (intent_endpoint i)"
    using * valid_endpoint_chars [of "intent_endpoint i"] by blast+
  moreover have "i = unix_intent (intent_endpoint i) ?v"
    by (rule carries_path_shape [OF p(1)])
  ultimately have "CHR ''?'' \<notin> set u \<and> CHR 0x23 \<notin> set u \<and> ?v \<noteq> [] \<and> CHR ''/'' \<notin> set ?v \<and>
      u = INTENT_URI_PREFIX_V1 @ intent_endpoint i @ ''/'' @ ?v \<and>
      i = unix_intent (intent_endpoint i) ?v"
    using p(2) v(3) prefix_chars by simp
  with * v(1,2) show "(parse_uri dec u :: ('io, 'json) intent_error + open_intent) = Inr i"
    unfolding parse_uri_Inr_iff by blast
qed

theorem intent_uri_canonical_witness:
  "\<exists>u. (parse_uri url_decode u :: (unit, unit) intent_error + open_intent) =
     Inr (unix_intent (replicate 32 (CHR ''a'')) (url_encode ''/tmp/x.png''))"
proof -
  let ?i = "unix_intent (replicate 32 (CHR ''a'')) (url_encode ''/tmp/x.png'')"
  have "carries_path url_decode ?i ''/tmp/x.png''"
    by (simp add: carries_path_unix rfc_url.dec_enc valid_path_def MAX_TARGET_BYTES_def)
  then obtain u where "(intent_uri url_encode url_decode ?i :: (unit, unit) intent_error + string) = Inr u"
    by (auto simp: intent_uri_Inr_iff)
  moreover have "valid_endpoint (intent_endpoint ?i)"
    by (simp add: unix_intent_def valid_endpoint_def ENDPOINT_HEX_LEN_def ENDPOINT_HEX_BYTES_def
        list_all_iff is_lower_hex_def is_digit_def)
  ultimately show ?thesis
    using intent_uri_canonical [OF rfc_url.url_engine_axioms, of u ?i] by blast
qed

text \<open>An intent can be built from a path exactly when the path is absolute, within the bound
  and free of NUL, and it then carries that path: reading it back gives the same bytes, and the
  portable check accepts it too.\<close>

theorem intent_path_roundtrip:
  assumes "url_engine enc dec"
  shows "case (from_path enc endpoint p :: ('io, 'json) intent_error + open_intent) of
      Inl e \<Rightarrow> \<not> (is_absolute p \<and> length p \<le> MAX_TARGET_BYTES \<and> CHR 0x00 \<notin> set p)
    | Inr i \<Rightarrow> is_absolute p \<and> length p \<le> MAX_TARGET_BYTES \<and> CHR 0x00 \<notin> set p \<and>
        intent_endpoint i = endpoint \<and>
        (intent_path dec i :: ('io, 'json) intent_error + path) = Inr p \<and>
        (validate_portable dec i :: ('io, 'json) intent_error + unit) = Inr ()"
proof (cases "from_path enc endpoint p :: ('io, 'json) intent_error + open_intent")
  case (Inl e)
  have "\<not> valid_path p"
  proof
    assume "valid_path p"
    then have "\<exists>i. (from_path enc endpoint p :: ('io, 'json) intent_error + open_intent) = Inr i"
      by (simp add: from_path_Inr_iff)
    with Inl show False by simp
  qed
  with Inl show ?thesis
    by (simp add: valid_path_def)
next
  case (Inr i)
  then have i: "valid_path p" "i = unix_intent endpoint (enc p)"
    by (simp_all add: from_path_Inr_iff unix_intent_def)
  have "carries_path dec i p"
    using i assms by (simp add: carries_path_unix url_engine_def base64_engine.dec_enc)
  then have path: "(intent_path dec i :: ('io, 'json) intent_error + path) = Inr p"
    by (simp add: intent_path_Inr_iff)
  then have "(portable_path_bytes dec i :: ('io, 'json) intent_error + bytes) \<in> range Inr"
    by (auto simp: intent_path_def try_bind_Inr_iff)
  with Inr i path show ?thesis
    by (auto simp: valid_path_def validate_portable_def unix_intent_def)
qed

theorem intent_path_roundtrip_witness:
  "\<exists>i. (from_path url_encode ''e'' ''/a'' :: (unit, unit) intent_error + open_intent) = Inr i \<and>
     (intent_path url_decode i :: (unit, unit) intent_error + path) = Inr ''/a''"
proof -
  have "\<exists>i. (from_path url_encode ''e'' ''/a'' :: (unit, unit) intent_error + open_intent) = Inr i"
    by (simp add: from_path_Inr_iff valid_path_def MAX_TARGET_BYTES_def)
  then show ?thesis
    using intent_path_roundtrip [OF rfc_url.url_engine_axioms, where endpoint = "''e''" and
        p = "''/a''" and 'io = unit and 'json = unit] by auto
qed

text \<open>A generated endpoint is valid, hence accepted by the parser unchanged, and different
  random bytes give different endpoints.\<close>

theorem endpoint_generate_valid:
  assumes "length xs = ENDPOINT_HEX_BYTES" "length ys = ENDPOINT_HEX_BYTES"
  shows "\<exists>e. (endpoint_generate (Inr xs) :: ('io, 'json) intent_error + endpoint_id) = Inr e \<and>
      (endpoint_parse e :: ('io, 'json) intent_error + endpoint_id) = Inr e \<and>
      ((endpoint_generate (Inr ys) :: ('io, 'json) intent_error + endpoint_id) = Inr e \<longleftrightarrow> xs = ys)"
proof -
  have "valid_endpoint (concat (map hex_byte xs))"
    using assms(1) by (intro hex_string_valid) (simp add: ENDPOINT_HEX_BYTES_def)
  then show ?thesis
    by (auto simp: endpoint_generate_def endpoint_parse_Inr_iff hex_string_inj)
qed

theorem endpoint_generate_valid_witness:
  "\<exists>e. (endpoint_generate (Inr (replicate 16 (CHR 0xA7))) :: (unit, unit) intent_error + endpoint_id)
     = Inr e"
  using endpoint_generate_valid [of "replicate 16 (CHR 0xA7)" "replicate 16 (CHR 0xA7)",
      where 'io = unit and 'json = unit]
  by (auto simp: ENDPOINT_HEX_BYTES_def)

text \<open>C30: Frames are exact and bounded: what a writer puts on a stream a reader takes off it,
  leaving the rest; a payload over the bound is refused before a byte is written; and on any stream
  whose next four bytes announce a length over the bound, the reader takes these four bytes, refuses, and
  leaves all that follows them unread.\<close>

theorem frame_roundtrip:
  assumes "to_json v = Inr payload" "stream_room s = None"
    and "stream_in r = stream_out (snd (write_frame to_json v s)) @ rest" "stream_out s = []"
  shows "(if length payload \<le> MAX_FRAME_BYTES
    then fst (write_frame to_json v s) = Inr () \<and>
      read_frame from_json r = (map_err Json (from_json payload), r\<lparr>stream_in := rest\<rparr>)
    else write_frame to_json v s = (Inl FrameTooLarge, s)) \<and>
    (MAX_FRAME_BYTES < unat announced \<longrightarrow>
      read_frame from_json (q\<lparr>stream_in := to_be_bytes announced @ unread\<rparr>) =
        (Inl FrameTooLarge, q\<lparr>stream_in := unread\<rparr>))"
proof (cases "length payload \<le> MAX_FRAME_BYTES")
  case True
  have w: "write_frame to_json v s = (Inr (), s\<lparr>stream_out := stream_out s @ frame_of payload\<rparr>)"
    by (rule write_frame_ok) (use assms True in auto)
  then have "stream_in r = frame_of payload @ rest"
    using assms(3,4) by simp
  from read_frame_ok [OF this True] w True show ?thesis by (simp add: read_frame_too_large)
next
  case False
  then show ?thesis
    using write_frame_too_large [of to_json v payload s] assms(1) by (simp add: read_frame_too_large)
qed

theorem frame_roundtrip_witness:
  "(\<exists>f. read_frame (Inr :: bytes \<Rightarrow> unit + bytes) (open_stream UnexpectedEof (f @ ''tail'')) =
     (Inr ''payload'', open_stream UnexpectedEof ''tail'')) \<and>
   read_frame (Inr :: bytes \<Rightarrow> unit + bytes)
       ((open_stream UnexpectedEof [])\<lparr>stream_in := to_be_bytes (0xFFFFFFFF :: u32) @ ''tail''\<rparr>) =
     (Inl FrameTooLarge, (open_stream UnexpectedEof [])\<lparr>stream_in := ''tail''\<rparr>)"
proof -
  let ?s = "open_stream UnexpectedEof []"
  let ?f = "stream_out (snd (write_frame (Inr :: bytes \<Rightarrow> unit + bytes) ''payload'' ?s))"
  let ?r = "open_stream UnexpectedEof (?f @ ''tail'')"
  have "read_frame (Inr :: bytes \<Rightarrow> unit + bytes) ?r =
      (map_err Json (Inr ''payload''), ?r\<lparr>stream_in := ''tail''\<rparr>) \<and>
    read_frame (Inr :: bytes \<Rightarrow> unit + bytes) (?s\<lparr>stream_in := to_be_bytes (0xFFFFFFFF :: u32) @ ''tail''\<rparr>) =
      (Inl FrameTooLarge, ?s\<lparr>stream_in := ''tail''\<rparr>)"
    using frame_roundtrip [where to_json = "Inr :: bytes \<Rightarrow> unit + bytes" and v = "''payload''" and
        payload = "''payload''" and s = ?s and r = ?r and rest = "''tail''" and
        from_json = "Inr :: bytes \<Rightarrow> unit + bytes" and announced = "0xFFFFFFFF" and q = ?s and unread = "''tail''"]
    by (simp add: open_stream_def MAX_FRAME_BYTES_def)
  moreover have "?r\<lparr>stream_in := ''tail''\<rparr> = open_stream UnexpectedEof ''tail''"
    by (simp add: open_stream_def)
  ultimately show ?thesis
    by (intro conjI exI [of _ ?f]) simp_all
qed

text \<open>C31: A bound listener is private and new: its runtime root is a directory without access for
  group and others, its socket did not exist before, and nothing but the root, its parents and the
  socket changes.\<close>

theorem listener_bind_private:
  assumes "(listener_bind root endpoint w :: ((io_error_kind, 'json) intent_error + intent_listener) \<times> unix_world)
    = (Inr l, w')"
  shows "(\<exists>n. nodes w' root = Some n \<and> node_kind n = Directory \<and> and (node_mode n) 0x3F = 0) \<and>
    listener_endpoint l = endpoint \<and>
    (\<exists>n. nodes w' (listener_socket_path l) = Some n \<and> node_kind n = SocketFile \<and> node_mode n = 0x180) \<and>
    (listener_socket_path l \<notin> {follow w root} \<union> set (dir_chain root) \<longrightarrow>
      nodes w (listener_socket_path l) = None) \<and>
    same_except ({follow w root, listener_socket_path l} \<union> set (dir_chain root)) w w'"
proof -
  obtain u1 w1 socket u2 w2 u3 where 1: "(prepare_runtime_root root w
      :: ((io_error_kind, 'json) intent_error + unit) \<times> unix_world) = (Inr u1, w1)"
    and free: "\<not> fs_exists socket w1"
    and 2: "bind_socket socket w1 = (Inr u2, w2)" and 3: "set_permissions socket 0x180 w2 = (Inr u3, w')"
    and l: "l = \<lparr>listener_socket_path = socket, listener_endpoint = endpoint\<rparr>"
    using assms by (auto simp: listener_bind_def io_bind_Inr_iff io_map_err_Inr_iff split: if_splits)
  note root = prepare_runtime_root_Inr [OF 1]
  have socket: "nodes w1 socket = None"
    "w2 = put_node socket ((new_node w1)\<lparr>node_kind := SocketFile, node_bytes := []\<rparr>) w1"
    using 2 by (auto simp: bind_socket_def result_iff split: if_splits)
  then have w': "w' = put_node socket ((new_node w1)\<lparr>node_kind := SocketFile, node_bytes := [],
      node_mode := 0x180\<rparr>) w2"
    using 3 by (auto simp: set_permissions_def result_iff lookup_def follow_def split: option.splits)
  have "root \<noteq> socket"
    using root(1) socket(1) by auto
  with root(1) have "\<exists>n. nodes w' root = Some n \<and> node_kind n = Directory \<and> and (node_mode n) 0x3F = 0"
    by (auto simp: w' socket(2))
  moreover have "socket \<notin> {follow w root} \<union> set (dir_chain root) \<longrightarrow> nodes w socket = None"
    using root(2) socket(1) by (metis same_except_def)
  moreover have "same_except {socket} w1 w'"
    by (auto simp: w' socket(2) same_except_def)
  then have "same_except ({follow w root, socket} \<union> set (dir_chain root)) w w'"
    using root(2) by (auto simp: same_except_def)
  ultimately show ?thesis
    by (simp add: l w')
qed

theorem listener_bind_private_witness:
  "\<exists>l w'. (listener_bind ''/run'' ''ab'' empty_world
      :: ((io_error_kind, unit) intent_error + intent_listener) \<times> unix_world) = (Inr l, w') \<and>
    listener_endpoint l = ''ab'' \<and> same_except {''/run'', ''/run/ab.sock''} empty_world w'"
proof -
  have "\<exists>w'. (listener_bind ''/run'' ''ab'' empty_world
      :: ((io_error_kind, unit) intent_error + intent_listener) \<times> unix_world)
    = (Inr \<lparr>listener_socket_path = ''/run/ab.sock'', listener_endpoint = ''ab''\<rparr>, w')"
    by (simp add: listener_bind_def prepare_runtime_root_def io_bind_def io_map_err_def
        create_dir_all_def dir_chain_def upt_rec set_permissions_def symlink_metadata_def bind_socket_def fs_guard_def
        empty_world_def lookup_def follow_def put_node_def socket_path_def path_join_def
        is_absolute_def get_at_def SOCKET_PATH_SOFT_LIMIT_def fs_exists_def Let_def)
  then obtain w' where w': "(listener_bind ''/run'' ''ab'' empty_world
      :: ((io_error_kind, unit) intent_error + intent_listener) \<times> unix_world)
    = (Inr \<lparr>listener_socket_path = ''/run/ab.sock'', listener_endpoint = ''ab''\<rparr>, w')"
    by blast
  moreover have "follow empty_world ''/run'' = ''/run''" "set (dir_chain ''/run'') = {''/run''}"
    by (simp_all add: follow_def empty_world_def dir_chain_def upt_rec)
  ultimately show ?thesis
    using listener_bind_private [OF w'] by simp
qed

end
