(* ===== verification/Cli_Base.thy ===== *)
theory Cli_Base
  imports Kgp_Adapter Sixel_Adapter Tmux_Transport Artifact_Prep Artifact_Ref Intent_Callback
    "HOL-Library.List_Lexorder" "HOL-Library.Multiset"
begin

text \<open>
  What the commands of the binary \<open>term-interop\<close> (crate \<open>terminal-interop-cli\<close>) share: the error type,
  the limits, the hints taken from the environment and the serialization of a document.
  \<open>'json\<close> is the error of the JSON library, \<open>'img\<close> the error of the image library.
\<close>

section \<open>Constants and errors\<close>

definition DEFAULT_TTY :: path where "DEFAULT_TTY = ''/dev/tty''"

definition DEFAULT_TIMEOUT_MS :: u64 where "DEFAULT_TIMEOUT_MS = 750"

definition DEFAULT_TRANSPORT_TIMEOUT_MS :: u64 where "DEFAULT_TRANSPORT_TIMEOUT_MS = 1500"

definition TRANSPORT_ATTEMPT_TIMEOUT_MS :: nat where "TRANSPORT_ATTEMPT_TIMEOUT_MS = 100"

definition DEFAULT_MAX_RESPONSE_BYTES :: nat where "DEFAULT_MAX_RESPONSE_BYTES = 64 * 1024"

definition MAX_CONTRACT_DOCUMENT_BYTES :: nat where "MAX_CONTRACT_DOCUMENT_BYTES = 1024 * 1024"

type_synonym errno = nat

datatype ('json, 'img) app_error =
    AppIo io_error_kind
  | AppTerminal errno
  | AppJson 'json
  | AppProbeBuild probe_build_error
  | AppDisplayBuild display_build_error
  | AppArtifact "'img artifact_error"
  | AppRegistry "'json registry_error"
  | AppIntent "(io_error_kind, 'json) intent_error"
  | IntentRejected string
  | SixelEncoding string
  | AppNotRegularFile path
  | PreviewInputLimit u64 nat
  | TerminalGeometryUnavailable path
  | NoPixelRenderer string string
  | OutputExists path
  | AppClockBeforeEpoch
  | ZeroTimeout
  | TimeoutOutOfRange
  | ZeroIntentTimeout
  | ZeroTransportTimeout
  | ZeroResponseLimit
  | ContractLimit
  | ContractSchemaMissing
  | UnsupportedContractSchema string
  | ContractInvalid string

text \<open>\<open>clock\<close> is the time since the epoch in milliseconds, or none before the epoch.\<close>

definition unix_time_ms :: "nat option \<Rightarrow> ('json, 'img) app_error + u64" where
  "unix_time_ms clock = try_bind (ok_or AppClockBeforeEpoch clock) (\<lambda>ms. Inr (u64_of_usize ms))"

definition serialized_json :: "('a \<Rightarrow> 'json + bytes) \<Rightarrow> 'a \<Rightarrow> ('json, 'img) app_error + bytes" where
  "serialized_json to_json val = try_bind (map_err AppJson (to_json val)) (\<lambda>bs. Inr (bs @ [CHR 0x0A]))"

section \<open>Hints from the environment\<close>

definition VALUE_HINTS :: "string list" where
  "VALUE_HINTS = [''TERM'', ''TERM_PROGRAM'', ''COLORTERM'']"

definition PRESENCE_HINTS :: "string list" where
  "PRESENCE_HINTS = [''ZELLIJ'', ''ZELLIJ_SESSION_NAME'', ''TMUX'', ''SSH_CONNECTION'', ''SSH_TTY'']"

definition environment_hints :: "(string \<rightharpoonup> bytes) \<Rightarrow> environment_hint list" where
  "environment_hints vars = sort_key hint_name
     (List.map_filter (\<lambda>n. map_option
        (\<lambda>v. \<lparr>hint_name = n, hint_observation = Value (from_utf8_lossy v)\<rparr>) (vars n)) VALUE_HINTS
      @ List.map_filter (\<lambda>n. map_option
        (\<lambda>_. \<lparr>hint_name = n, hint_observation = Present\<rparr>) (vars n)) PRESENCE_HINTS)"

section \<open>Lemmas\<close>

lemma unix_time_ms_Inr [result_iff]:
  "unix_time_ms clock = Inr t \<longleftrightarrow> (\<exists>ms. clock = Some ms \<and> t = u64_of_usize ms)"
  by (auto simp: unix_time_ms_def result_iff)

lemma serialized_json_Inr [result_iff]:
  "serialized_json to_json val = Inr bs \<longleftrightarrow> (\<exists>text. to_json val = Inr text \<and> bs = text @ [CHR 0x0A])"
  by (auto simp: serialized_json_def result_iff)

lemma map_filter_value:
  "map hint_name (List.map_filter (\<lambda>n. map_option (\<lambda>v. \<lparr>hint_name = n, hint_observation = f v\<rparr>) (vars n)) ns)
    = filter (\<lambda>n. vars n \<noteq> None) ns"
  by (induction ns) (auto simp: map_filter_simps split: option.splits)

lemma sort_hints: "map hint_name (sort_key hint_name hs) = sort (map hint_name hs)"
  by (rule properties_for_sort [symmetric]) simp_all

lemma hint_names_sorted:
  "sort (VALUE_HINTS @ PRESENCE_HINTS) =
     [''COLORTERM'', ''SSH_CONNECTION'', ''SSH_TTY'', ''TERM'', ''TERM_PROGRAM'', ''TMUX'', ''ZELLIJ'',
      ''ZELLIJ_SESSION_NAME'']"
  by (simp add: VALUE_HINTS_def PRESENCE_HINTS_def)

lemma environment_hints_mem:
  "h \<in> set (environment_hints vars) \<longleftrightarrow>
     (\<exists>v. hint_name h \<in> set VALUE_HINTS \<and> vars (hint_name h) = Some v \<and>
        hint_observation h = Value (from_utf8_lossy v)) \<or>
     hint_name h \<in> set PRESENCE_HINTS \<and> vars (hint_name h) \<noteq> None \<and> hint_observation h = Present"
  by (cases h) (auto simp: environment_hints_def map_filter_def image_iff)

section \<open>Properties\<close>

text \<open>C40: Of the variables that may hold addresses, session names or devices no more than their
  presence is recorded, whatever they contain: a hint carries a value only for the three terminal
  variables; the hints are exactly those of the variables that are set, sorted by name.\<close>

theorem environment_hints_private:
  "list_all (\<lambda>h. hint_observation h = Present \<or>
      hint_name h \<in> {''TERM'', ''TERM_PROGRAM'', ''COLORTERM''} \<and>
      (\<exists>v. vars (hint_name h) = Some v \<and> hint_observation h = Value (from_utf8_lossy v)))
     (environment_hints vars) \<and>
   map hint_name (environment_hints vars) =
     filter (\<lambda>n. vars n \<noteq> None)
       [''COLORTERM'', ''SSH_CONNECTION'', ''SSH_TTY'', ''TERM'', ''TERM_PROGRAM'', ''TMUX'', ''ZELLIJ'',
        ''ZELLIJ_SESSION_NAME'']"
proof
  show "list_all (\<lambda>h. hint_observation h = Present \<or>
      hint_name h \<in> {''TERM'', ''TERM_PROGRAM'', ''COLORTERM''} \<and>
      (\<exists>v. vars (hint_name h) = Some v \<and> hint_observation h = Value (from_utf8_lossy v)))
     (environment_hints vars)"
    by (auto simp: list_all_iff VALUE_HINTS_def dest!: environment_hints_mem [THEN iffD1])
  have "map hint_name (environment_hints vars) =
      sort (filter (\<lambda>n. vars n \<noteq> None) (VALUE_HINTS @ PRESENCE_HINTS))"
    by (simp add: environment_hints_def sort_hints map_filter_value)
  then show "map hint_name (environment_hints vars) = filter (\<lambda>n. vars n \<noteq> None)
     [''COLORTERM'', ''SSH_CONNECTION'', ''SSH_TTY'', ''TERM'', ''TERM_PROGRAM'', ''TMUX'', ''ZELLIJ'',
      ''ZELLIJ_SESSION_NAME'']"
    by (simp only: filter_sort [symmetric] hint_names_sorted)
qed

end
