(* ===== verification/Tty_Exchange.thy ===== *)
theory Tty_Exchange
  imports Cli_Base
begin

text \<open>
  One bidirectional exchange with a terminal (\<open>execute_tty_exchange\<close>): raw mode with its guard, the
  request, and the loop that polls and reads until it may stop.  The terminal is a record: its
  attributes, what was written to it, the clock in nanoseconds, and a script of what is still to
  happen, each event with the time at which it does; after the script the terminal is silent.
  Every system call can be made to fail.
\<close>

section \<open>The terminal\<close>

text \<open>The attributes of a terminal are opaque to the code; \<open>cfmakeraw\<close> derives the raw ones.\<close>

datatype termios = Attributes string | RawOf termios

datatype tty_call =
  OpenTty path | GetAttributes | FlushInput | SetAttributes termios | CloneTty | FlushOutput

text \<open>What a poll and the read after it meet: bytes (none at the end of the input), a signal, or an
  error of either call.  \<open>tty_draw_time\<close> is how long the terminal takes for a page of the preview.\<close>

datatype tty_input = Arrives bytes | Interrupts | PollFails errno | ReadFails io_error_kind

type_synonym tty_script = "(nat \<times> tty_input) list"

record tty_world =
  tty_attributes :: termios
  tty_output :: stream
  tty_now :: nat
  tty_clock_max :: nat
  tty_script :: tty_script
  tty_io_fault :: "tty_call \<Rightarrow> io_error_kind option"
  tty_errno :: "tty_call \<Rightarrow> errno option"
  tty_draw_time :: nat

type_synonym ('json, 'img, 'a) tty_io = "(tty_world, ('json, 'img) app_error, 'a) io"

definition tty_io_call :: "tty_call \<Rightarrow> ('json, 'img, unit) tty_io" where
  "tty_io_call c w = (case tty_io_fault w c of None \<Rightarrow> (Inr (), w) | Some e \<Rightarrow> (Inl (AppIo e), w))"

definition tty_sys_call :: "tty_call \<Rightarrow> ('json, 'img, unit) tty_io" where
  "tty_sys_call c w = (case tty_errno w c of None \<Rightarrow> (Inr (), w) | Some e \<Rightarrow> (Inl (AppTerminal e), w))"

definition get_attributes :: "('json, 'img, termios) tty_io" where
  "get_attributes = io_bind (tty_sys_call GetAttributes) (\<lambda>_ w. (Inr (tty_attributes w), w))"

text \<open>\<open>tcflush\<close> drops what has arrived and was not read.\<close>

definition flush_input :: "('json, 'img, unit) tty_io" where
  "flush_input = io_bind (tty_sys_call FlushInput)
     (\<lambda>_ w. (Inr (), w\<lparr>tty_script := dropWhile (\<lambda>(t, i). t \<le> tty_now w) (tty_script w)\<rparr>))"

definition set_attributes :: "termios \<Rightarrow> ('json, 'img, unit) tty_io" where
  "set_attributes a = io_bind (tty_sys_call (SetAttributes a))
     (\<lambda>_ w. (Inr (), w\<lparr>tty_attributes := a\<rparr>))"

definition write_tty :: "bytes \<Rightarrow> ('json, 'img, unit) tty_io" where
  "write_tty bs w =
     (case write_all bs (tty_output w) of (r, s) \<Rightarrow> (map_err AppIo r, w\<lparr>tty_output := s\<rparr>))"

text \<open>Dropping the guard restores the attributes and ignores the result.\<close>

definition raw_mode_drop :: "termios \<Rightarrow> tty_world \<Rightarrow> tty_world" where
  "raw_mode_drop original w =
     snd (set_attributes original w :: ((unit, unit) app_error + unit) \<times> tty_world)"

definition with_raw_guard :: "termios \<Rightarrow> ('json, 'img, 'a) tty_io \<Rightarrow> ('json, 'img, 'a) tty_io" where
  "with_raw_guard original body w = (case body w of (r, w') \<Rightarrow> (r, raw_mode_drop original w'))"

section \<open>The exchange\<close>

record live_exchange =
  live_response :: bytes
  live_elapsed :: nat
  live_stop_reason :: stop_reason

definition remaining_timeout :: "nat \<Rightarrow> nat \<Rightarrow> nat" where
  "remaining_timeout deadline now =
     (let remaining = deadline - now; millis = remaining div 1000000 in
      if millis < 1 then 1 else if 65535 < millis then 65535 else millis)"

fun input_size :: "tty_input \<Rightarrow> nat" where
  "input_size (Arrives bs) = Suc (length bs)"
| "input_size _ = 1"

definition script_size :: "tty_script \<Rightarrow> nat" where
  "script_size script = sum_list (map (\<lambda>(t, i). input_size i) script)"

lemma script_size_simps [simp]:
  "script_size [] = 0" "script_size ((t, i) # script) = input_size i + script_size script"
  by (simp_all add: script_size_def)

text \<open>The loop.  \<open>limit\<close> is \<open>max_response_bytes\<close>.  A read takes what fits into its buffer; the rest
  stays readable.\<close>

function tty_loop ::
  "nat \<Rightarrow> (bytes \<Rightarrow> stop_reason option) \<Rightarrow> nat \<Rightarrow> bytes \<Rightarrow> nat \<Rightarrow> tty_script
     \<Rightarrow> (('json, 'img) app_error + bytes \<times> stop_reason) \<times> nat \<times> tty_script" where
  "tty_loop limit stop_when deadline response now script =
     (case stop_when response of
        Some reason \<Rightarrow> (Inr (response, reason), now, script)
      | None \<Rightarrow>
          if limit \<le> length response then (Inr (response, ResourceLimit), now, script)
          else if deadline \<le> now then (Inr (response, Timeout), now, script)
          else
            let poll_end = now + remaining_timeout deadline now * 1000000 in
            case script of
              [] \<Rightarrow> (Inr (response, Timeout), poll_end, [])
            | (t, input) # rest \<Rightarrow>
                if poll_end < t then (Inr (response, Timeout), poll_end, script)
                else
                  let now' = max now t in
                  case input of
                    Interrupts \<Rightarrow> tty_loop limit stop_when deadline response now' rest
                  | PollFails e \<Rightarrow> (Inl (AppTerminal e), now', rest)
                  | ReadFails e \<Rightarrow> (Inl (AppIo e), now', rest)
                  | Arrives bs \<Rightarrow>
                      let available = limit - length response;
                          bytes_read = take (min available 4096) bs;
                          unread = drop (min available 4096) bs;
                          rest' = (if unread = [] then rest else (t, Arrives unread) # rest)
                      in if bytes_read = [] then (Inr (response, EndOfInput), now', rest)
                         else tty_loop limit stop_when deadline (response @ bytes_read) now' rest')"
  by pat_completeness auto
termination
  by (relation "measure (\<lambda>(limit, stop_when, deadline, response, now, script). script_size script)")
    (auto simp: Let_def)

declare tty_loop.simps [simp del]

definition raw_exchange ::
  "bytes \<Rightarrow> nat \<Rightarrow> nat \<Rightarrow> (bytes \<Rightarrow> stop_reason option) \<Rightarrow> ('json, 'img, live_exchange) tty_io" where
  "raw_exchange request timeout limit stop_when =
     io_bind (write_tty request) (\<lambda>_. io_bind (tty_io_call FlushOutput)
       (\<lambda>_ w.
         let started = tty_now w; deadline = started + timeout in
         if tty_clock_max w < deadline then (Inl TimeoutOutOfRange, w)
         else
           case tty_loop limit stop_when deadline [] started (tty_script w) of
             (r, now, script) \<Rightarrow>
               (case r of
                  Inl e \<Rightarrow> Inl e
                | Inr (response, reason) \<Rightarrow> Inr
                    \<lparr>live_response = response, live_elapsed = now - started,
                     live_stop_reason = reason\<rparr>,
                w\<lparr>tty_now := now, tty_script := script\<rparr>)))"

text \<open>\<open>timeout\<close> is in nanoseconds.  The descriptor for the guard is cloned after raw mode is set.\<close>

definition execute_tty_exchange ::
  "path \<Rightarrow> bytes \<Rightarrow> nat \<Rightarrow> nat \<Rightarrow> (bytes \<Rightarrow> stop_reason option)
     \<Rightarrow> ('json, 'img, live_exchange) tty_io" where
  "execute_tty_exchange tty_path request timeout limit stop_when =
     (if timeout = 0 then io_fail ZeroTimeout
      else if limit = 0 then io_fail ZeroResponseLimit
      else
        io_bind (tty_io_call (OpenTty tty_path))
       (\<lambda>_. io_bind get_attributes
       (\<lambda>original. io_bind flush_input
       (\<lambda>_. io_bind (set_attributes (RawOf original))
       (\<lambda>_. io_bind (tty_io_call CloneTty)
       (\<lambda>_. with_raw_guard original (raw_exchange request timeout limit stop_when)))))))"

definition kgp_stop_reason :: "(bytes \<Rightarrow> string) \<Rightarrow> bytes \<Rightarrow> u32 \<Rightarrow> stop_reason option" where
  "kgp_stop_reason enc response correlation_id =
     (let parsed = kgp_parse_exchange enc response correlation_id in
      if \<not> barrier_seen parsed then None
      else Some (if correlated_reply_seen parsed then CapabilityAndBarrierObserved
                 else BarrierObserved))"

definition da1_stop_reason :: "(bytes \<Rightarrow> string) \<Rightarrow> bytes \<Rightarrow> stop_reason option" where
  "da1_stop_reason enc response =
     (if parse_responses enc response \<noteq> [] then Some BarrierObserved else None)"

section \<open>The loop\<close>

text \<open>The bytes a script holds, in order.\<close>

fun input_bytes :: "tty_input \<Rightarrow> bytes" where
  "input_bytes (Arrives bs) = bs"
| "input_bytes _ = []"

definition arriving :: "tty_script \<Rightarrow> bytes" where
  "arriving script = concat (map (\<lambda>(t, i). input_bytes i) script)"

lemma arriving_simps [simp]:
  "arriving [] = []" "arriving ((t, i) # script) = input_bytes i @ arriving script"
  by (simp_all add: arriving_def)

lemma remaining_timeout_bounds:
  "1 \<le> remaining_timeout deadline now" "remaining_timeout deadline now \<le> 65535"
  "now < deadline \<Longrightarrow> now + remaining_timeout deadline now * 1000000 \<le> deadline + 1000000"
proof -
  show "1 \<le> remaining_timeout deadline now" "remaining_timeout deadline now \<le> 65535"
    by (simp_all add: remaining_timeout_def Let_def)
  assume "now < deadline"
  obtain m where m: "(deadline - now) div 1000000 = m" "m * 1000000 \<le> deadline - now"
    using div_times_less_eq_dividend [of "deadline - now" 1000000] by blast
  with \<open>now < deadline\<close> show "now + remaining_timeout deadline now * 1000000 \<le> deadline + 1000000"
    unfolding remaining_timeout_def Let_def m(1) by (auto split: if_splits)
qed

text \<open>Why the loop ended, with what it had read.\<close>

definition stop_explained ::
  "nat \<Rightarrow> (bytes \<Rightarrow> stop_reason option) \<Rightarrow> bytes \<Rightarrow> stop_reason \<Rightarrow> bool" where
  "stop_explained limit stop_when response reason \<longleftrightarrow>
     (case stop_when response of
        Some r \<Rightarrow> reason = r
      | None \<Rightarrow> if length response = limit then reason = ResourceLimit
               else reason = Timeout \<or> reason = EndOfInput)"

text \<open>The steps of the loop, one rule for each way an iteration can go.\<close>

definition waits ::
  "nat \<Rightarrow> (bytes \<Rightarrow> stop_reason option) \<Rightarrow> nat \<Rightarrow> bytes \<Rightarrow> nat \<Rightarrow> bool" where
  "waits limit stop_when deadline response now \<longleftrightarrow>
     stop_when response = None \<and> length response < limit \<and> now < deadline"

abbreviation poll_end :: "nat \<Rightarrow> nat \<Rightarrow> nat" where
  "poll_end deadline now \<equiv> now + remaining_timeout deadline now * 1000000"

lemma tty_loop_ends:
  "\<not> waits limit stop_when deadline response now \<Longrightarrow>
     \<exists>reason. tty_loop limit stop_when deadline response now script = (Inr (response, reason), now, script) \<and>
       (case stop_when response of Some r \<Rightarrow> reason = r
        | None \<Rightarrow> reason = (if limit \<le> length response then ResourceLimit else Timeout))"
  by (subst tty_loop.simps) (auto simp: waits_def split: option.splits)

lemma tty_loop_silent:
  "waits limit stop_when deadline response now \<Longrightarrow>
     tty_loop limit stop_when deadline response now [] = (Inr (response, Timeout), poll_end deadline now, [])"
  "waits limit stop_when deadline response now \<Longrightarrow> poll_end deadline now < t \<Longrightarrow>
     tty_loop limit stop_when deadline response now ((t, i) # rest) =
       (Inr (response, Timeout), poll_end deadline now, (t, i) # rest)"
  by (simp_all add: tty_loop.simps [of limit stop_when deadline response now] waits_def Let_def)

lemma tty_loop_input:
  assumes "waits limit stop_when deadline response now" "t \<le> poll_end deadline now"
  shows "tty_loop limit stop_when deadline response now ((t, Interrupts) # rest) =
      tty_loop limit stop_when deadline response (max now t) rest"
    "tty_loop limit stop_when deadline response now ((t, PollFails errno) # rest) =
      (Inl (AppTerminal errno), max now t, rest)"
    "tty_loop limit stop_when deadline response now ((t, ReadFails e) # rest) =
      (Inl (AppIo e), max now t, rest)"
    "tty_loop limit stop_when deadline response now ((t, Arrives []) # rest) =
      (Inr (response, EndOfInput), max now t, rest)"
  using assms
  by (simp_all add: tty_loop.simps [of limit stop_when deadline response now] waits_def Let_def)

text \<open>What one read takes, and what it leaves.\<close>

definition read_size :: "nat \<Rightarrow> bytes \<Rightarrow> nat" where
  "read_size limit response = min (limit - length response) 4096"

definition after_read :: "nat \<Rightarrow> nat \<Rightarrow> bytes \<Rightarrow> tty_script \<Rightarrow> tty_script" where
  "after_read k t bs rest = (if drop k bs = [] then rest else (t, Arrives (drop k bs)) # rest)"

lemma tty_loop_arrives:
  assumes "waits limit stop_when deadline response now" "t \<le> poll_end deadline now" "bs \<noteq> []"
  shows "tty_loop limit stop_when deadline response now ((t, Arrives bs) # rest) =
    tty_loop limit stop_when deadline (response @ take (read_size limit response) bs) (max now t)
      (after_read (read_size limit response) t bs rest)"
proof -
  have "min (limit - length response) 4096 \<noteq> 0"
    using assms(1) by (simp add: waits_def)
  with assms show ?thesis
    by (simp add: tty_loop.simps [of limit stop_when deadline response now] waits_def Let_def
        read_size_def after_read_def) (simp add: min_def)
qed

lemma after_read:
  "arriving (after_read k t bs rest) = drop k bs @ arriving rest"
  "0 < k \<Longrightarrow> bs \<noteq> [] \<Longrightarrow> script_size (after_read k t bs rest) < script_size ((t, Arrives bs) # rest)"
  by (simp_all add: after_read_def)

lemma read_size_pos: "waits limit stop_when deadline response now \<Longrightarrow> 0 < read_size limit response"
  by (simp add: waits_def read_size_def)

text \<open>An iteration that waits, when the loop ends well: silence, the end of the input, an interrupted poll,
  or a read.\<close>

lemma tty_loop_waits_cases [consumes 2, case_names silent hangup interrupted bytes_read]:
  assumes "tty_loop limit stop_when deadline response now script =
      (Inr (response', reason) :: ('json, 'img) app_error + bytes \<times> stop_reason, now', script')"
    and "waits limit stop_when deadline response now"
  obtains "response' = response" "reason = Timeout" "now' = poll_end deadline now" "script' = script"
      "list_all (\<lambda>(t, i). poll_end deadline now < t) (take 1 script)"
    | t rest where "script = (t, Arrives []) # rest" "t \<le> poll_end deadline now" "response' = response"
      "reason = EndOfInput" "now' = max now t" "script' = rest"
    | t rest where "script = (t, Interrupts) # rest" "t \<le> poll_end deadline now"
      "tty_loop limit stop_when deadline response (max now t) rest =
        (Inr (response', reason) :: ('json, 'img) app_error + bytes \<times> stop_reason, now', script')"
    | t bs rest where "script = (t, Arrives bs) # rest" "t \<le> poll_end deadline now" "bs \<noteq> []"
      "tty_loop limit stop_when deadline (response @ take (read_size limit response) bs) (max now t)
          (after_read (read_size limit response) t bs rest) =
        (Inr (response', reason) :: ('json, 'img) app_error + bytes \<times> stop_reason, now', script')"
proof (cases script)
  case Nil
  with assms show ?thesis
    using that(1) by (simp add: tty_loop_silent(1))
next
  case (Cons e rest)
  obtain t i where e: "e = (t, i)" by (cases e)
  show ?thesis
  proof (cases "poll_end deadline now < t")
    case True
    with assms show ?thesis
      by (intro that(1)) (auto simp: Cons e tty_loop_silent(2))
  next
    case False
    then have t: "t \<le> poll_end deadline now" by simp
    show ?thesis
    proof (cases i)
      case Interrupts
      with assms t show ?thesis
        using that(3) by (simp add: Cons e tty_loop_input)
    next
      case (Arrives bs)
      with assms t that(2,4) show ?thesis
        by (cases "bs = []") (auto simp: Cons e tty_loop_input tty_loop_arrives)
    qed (use assms t in \<open>simp_all add: Cons e tty_loop_input\<close>)
  qed
qed

text \<open>Between \<open>since\<close> and the end of a poll of the greatest timeout nothing could be read: all that was taken
  from the script had come by then, and what is left comes later.\<close>

definition silent_poll :: "nat \<Rightarrow> tty_script \<Rightarrow> nat \<Rightarrow> tty_script \<Rightarrow> bool" where
  "silent_poll now script now' script' \<longleftrightarrow>
     (\<exists>since taken. now \<le> since \<and> now' = since + 65535 * 1000000 \<and> script = taken @ script' \<and>
        list_all (\<lambda>(t, i). t \<le> since) taken \<and> list_all (\<lambda>(t, i). now' < t) (take 1 script'))"

text \<open>What the two reasons of the loop itself say: the deadline is less than a millisecond away or over, or
  the terminal was silent for the greatest poll timeout; the input had ended.\<close>

definition ending_true ::
  "(bytes \<Rightarrow> stop_reason option) \<Rightarrow> nat \<Rightarrow> nat \<Rightarrow> tty_script \<Rightarrow> bytes \<Rightarrow> stop_reason \<Rightarrow> nat \<Rightarrow> tty_script \<Rightarrow> bool"
where
  "ending_true stop_when deadline now script response' reason now' script' \<longleftrightarrow>
     (stop_when response' = None \<and> reason = Timeout \<longrightarrow>
        deadline < now' + 1000000 \<or> silent_poll now script now' script') \<and>
     (stop_when response' = None \<and> reason = EndOfInput \<longrightarrow>
        (\<exists>t \<le> now'. suffix ((t, Arrives []) # script') script))"

lemma silent_poll_step:
  assumes "silent_poll (max now t) script1 now' script'"
    and "script1 = rest \<or> (\<exists>u. script1 = (t, Arrives u) # rest)"
  shows "silent_poll now ((t, i) # rest) now' script'"
proof -
  obtain since taken where *: "max now t \<le> since" "now' = since + 65535 * 1000000" "script1 = taken @ script'"
    "list_all (\<lambda>(t, i). t \<le> since) taken" "list_all (\<lambda>(t, i). now' < t) (take 1 script')"
    using assms(1) by (auto simp: silent_poll_def)
  obtain taken' where "rest = taken' @ script'" "list_all (\<lambda>(t, i). t \<le> since) taken'"
    using assms(2) * by (cases taken) (auto simp: Cons_eq_append_conv)
  with * show ?thesis
    unfolding silent_poll_def by (intro exI [of _ since] exI [of _ "(t, i) # taken'"]) simp
qed

lemma ending_true_step:
  assumes "ending_true stop_when deadline (max now t) script1 response' reason now' script'"
    and "script1 = rest \<or> (\<exists>u. u \<noteq> [] \<and> script1 = (t, Arrives u) # rest)"
  shows "ending_true stop_when deadline now ((t, i) # rest) response' reason now' script'"
  using assms silent_poll_step [of now t script1 now' script' rest i]
  unfolding ending_true_def by (auto simp: suffix_Cons)

text \<open>A poll that times out has lasted until less than a millisecond before the deadline, or longer, or for
  the greatest poll timeout.\<close>

lemma poll_end_cases:
  "deadline < poll_end deadline now + 1000000 \<or> poll_end deadline now = now + 65535 * 1000000"
proof -
  have "deadline - now < Suc ((deadline - now) div 1000000) * 1000000"
    using dividend_less_div_times [of 1000000 "deadline - now"] by simp
  then have "deadline < now + (deadline - now) div 1000000 * 1000000 + 1000000"
    by simp
  then show ?thesis
    by (auto simp: remaining_timeout_def Let_def)
qed

lemma ending_true_silent:
  assumes "list_all (\<lambda>(t, i). poll_end deadline now < t) (take 1 script)"
  shows "ending_true stop_when deadline now script response' Timeout (poll_end deadline now) script"
proof (cases "deadline < poll_end deadline now + 1000000")
  case False
  then have "poll_end deadline now = now + 65535 * 1000000"
    using poll_end_cases by blast
  with assms have "silent_poll now script (poll_end deadline now) script"
    unfolding silent_poll_def by (intro exI [of _ now] exI [of _ "[]"]) simp
  then show ?thesis
    by (simp add: ending_true_def)
qed (simp add: ending_true_def)

text \<open>The result: no byte is lost or read twice, the limit is kept, the reason is the true one, and
  the deadline is missed by no more than the least poll timeout, a millisecond.\<close>

definition loop_result ::
  "nat \<Rightarrow> (bytes \<Rightarrow> stop_reason option) \<Rightarrow> nat \<Rightarrow> bytes \<Rightarrow> nat \<Rightarrow> tty_script
     \<Rightarrow> bytes \<Rightarrow> stop_reason \<Rightarrow> nat \<Rightarrow> tty_script \<Rightarrow> bool" where
  "loop_result limit stop_when deadline response now script response' reason now' script' \<longleftrightarrow>
     response' @ arriving script' = response @ arriving script \<and> length response' \<le> limit \<and>
     stop_explained limit stop_when response' reason \<and>
     ending_true stop_when deadline now script response' reason now' script' \<and>
     script_size script' \<le> script_size script \<and> now \<le> now' \<and>
     now' \<le> max now (deadline + 1000000)"

lemma tty_loop_result:
  assumes "tty_loop limit stop_when deadline response now script =
      (Inr (response', reason) :: ('json, 'img) app_error + bytes \<times> stop_reason, now', script')"
    and "length response \<le> limit"
  shows "loop_result limit stop_when deadline response now script response' reason now' script'"
  using assms
proof (induction "script_size script" arbitrary: response now script rule: less_induct)
  case less
  note run = less.prems(1)
  show ?case
  proof (cases "waits limit stop_when deadline response now")
    case False
    from tty_loop_ends [OF this, of script] obtain reason0 where
      "tty_loop limit stop_when deadline response now script =
        (Inr (response, reason0) :: ('json, 'img) app_error + bytes \<times> stop_reason, now, script)"
      and 0: "case stop_when response of Some r \<Rightarrow> reason0 = r
        | None \<Rightarrow> reason0 = (if limit \<le> length response then ResourceLimit else Timeout)"
      by blast
    then have "response' = response \<and> reason = reason0 \<and> now' = now \<and> script' = script"
      unfolding run by simp
    with 0 less.prems(2) False show ?thesis
      by (auto simp: loop_result_def stop_explained_def ending_true_def waits_def
          split: option.splits if_splits)
  next
    case True
    then have waiting: "stop_when response = None" "length response < limit" "now < deadline"
      by (simp_all add: waits_def)
    note bound = remaining_timeout_bounds(3) [OF waiting(3)]
    from run True show ?thesis
    proof (cases rule: tty_loop_waits_cases)
      case silent
      with waiting bound ending_true_silent [OF silent(5)] show ?thesis
        by (simp add: loop_result_def stop_explained_def)
    next
      case (hangup t rest)
      then have "ending_true stop_when deadline now script response' reason now' script'"
        by (auto simp: ending_true_def intro: exI [of _ t])
      with hangup waiting bound show ?thesis
        by (auto simp: loop_result_def stop_explained_def)
    next
      case (interrupted t rest)
      then have "loop_result limit stop_when deadline response (max now t) rest response' reason now' script'"
        using less.prems(2) by (intro less.hyps) simp_all
      with interrupted bound waiting(3) ending_true_step [of stop_when deadline now t rest] show ?thesis
        by (auto simp: loop_result_def)
    next
      case (bytes_read t bs rest)
      let ?k = "read_size limit response"
      have smaller: "script_size (after_read ?k t bs rest) < script_size script"
        using after_read(2) [OF read_size_pos [OF True] bytes_read(3)] bytes_read(1) by simp
      moreover have "length (response @ take ?k bs) \<le> limit"
        using waiting(2) by (simp add: read_size_def)
      ultimately have "loop_result limit stop_when deadline (response @ take ?k bs) (max now t)
          (after_read ?k t bs rest) response' reason now' script'"
        using bytes_read(4) by (intro less.hyps)
      moreover have "after_read ?k t bs rest = rest \<or>
          (\<exists>u. u \<noteq> [] \<and> after_read ?k t bs rest = (t, Arrives u) # rest)"
        by (simp add: after_read_def)
      note ending_true_step [OF _ this, of stop_when deadline now response' reason now' script' "Arrives bs"]
      ultimately show ?thesis
        using bytes_read(1,2) bound waiting(3) smaller by (auto simp: loop_result_def after_read(1))
    qed
  qed
qed

text \<open>An iteration that waits makes progress: something of the script is consumed or time passes.\<close>

lemma tty_loop_progress:
  assumes "tty_loop limit stop_when deadline response now script =
      (Inr (response', reason) :: ('json, 'img) app_error + bytes \<times> stop_reason, now', script')"
    and wait: "waits limit stop_when deadline response now"
  shows "script_size script' < script_size script \<or> now < now'"
  using assms
proof (cases rule: tty_loop_waits_cases)
  case silent
  then show ?thesis
    using remaining_timeout_bounds(1) [of deadline now] by simp
next
  case (interrupted t rest)
  then have "loop_result limit stop_when deadline response (max now t) rest response' reason now' script'"
    using wait by (intro tty_loop_result) (simp_all add: waits_def)
  with interrupted(1) show ?thesis
    by (simp add: loop_result_def)
next
  case (bytes_read t bs rest)
  let ?k = "read_size limit response"
  have "length (response @ take ?k bs) \<le> limit"
    using wait by (auto simp: waits_def read_size_def)
  from tty_loop_result [OF bytes_read(4) this] show ?thesis
    using after_read(2) [OF read_size_pos [OF wait] bytes_read(3), of t rest] bytes_read(1)
    by (simp add: loop_result_def)
qed simp

section \<open>The exchange\<close>

lemma tty_io_call_Inr [result_iff]:
  "tty_io_call c w = (Inr u, w') \<longleftrightarrow> tty_io_fault w c = None \<and> w' = w"
  by (auto simp: tty_io_call_def split: option.splits)

lemma tty_sys_call_Inr [result_iff]:
  "tty_sys_call c w = (Inr u, w') \<longleftrightarrow> tty_errno w c = None \<and> w' = w"
  by (auto simp: tty_sys_call_def split: option.splits)

lemma get_attributes_Inr [result_iff]:
  "get_attributes w = (Inr a, w') \<longleftrightarrow> tty_errno w GetAttributes = None \<and> a = tty_attributes w \<and> w' = w"
  by (auto simp: get_attributes_def result_iff)

lemma set_attributes_Inr [result_iff]:
  "set_attributes a w = (Inr u, w') \<longleftrightarrow>
     tty_errno w (SetAttributes a) = None \<and> w' = w\<lparr>tty_attributes := a\<rparr>"
  by (auto simp: set_attributes_def result_iff)

text \<open>The pending input that a flush leaves.\<close>

definition flushed :: "tty_world \<Rightarrow> tty_script" where
  "flushed w = dropWhile (\<lambda>(t, i). t \<le> tty_now w) (tty_script w)"

lemma flush_input_Inr [result_iff]:
  "flush_input w = (Inr u, w') \<longleftrightarrow> tty_errno w FlushInput = None \<and> w' = w\<lparr>tty_script := flushed w\<rparr>"
  by (auto simp: flush_input_def flushed_def result_iff)

lemma script_size_flushed: "script_size (flushed w) \<le> script_size (tty_script w)"
proof -
  have "script_size (dropWhile P s) \<le> script_size s" for P s
    by (induction s) auto
  then show ?thesis
    by (simp add: flushed_def)
qed

lemma raw_mode_drop:
  "raw_mode_drop a w =
     (if tty_errno w (SetAttributes a) = None then w\<lparr>tty_attributes := a\<rparr> else w)"
  by (auto simp: raw_mode_drop_def set_attributes_def tty_sys_call_def io_bind_def split: option.splits)

lemma raw_mode_drop_keeps [simp]:
  "tty_now (raw_mode_drop a w) = tty_now w" "tty_script (raw_mode_drop a w) = tty_script w"
  "tty_output (raw_mode_drop a w) = tty_output w" "tty_io_fault (raw_mode_drop a w) = tty_io_fault w"
  "tty_errno (raw_mode_drop a w) = tty_errno w" "tty_clock_max (raw_mode_drop a w) = tty_clock_max w"
  by (simp_all add: raw_mode_drop)

lemma write_tty_Inr:
  "write_tty bs w = (Inr u, w') \<longleftrightarrow>
     (\<exists>s. write_all bs (tty_output w) = (Inr (), s) \<and> w' = w\<lparr>tty_output := s\<rparr>)"
  by (auto simp: write_tty_def map_err_def split: prod.splits sum.splits)

lemma with_raw_guard_Inr:
  "with_raw_guard a m w = (Inr x, w') \<longleftrightarrow> (\<exists>v. m w = (Inr x, v) \<and> w' = raw_mode_drop a v)"
  by (auto simp: with_raw_guard_def split: prod.splits)

text \<open>What a successful exchange did.\<close>

lemma raw_exchange_Inr:
  assumes "raw_exchange request timeout limit stop_when w = (Inr live, w')"
  shows "\<exists>s now script. write_all request (tty_output w) = (Inr (), s) \<and>
    loop_result limit stop_when (tty_now w + timeout) [] (tty_now w) (tty_script w)
      (live_response live) (live_stop_reason live) now script \<and>
    (waits limit stop_when (tty_now w + timeout) [] (tty_now w) \<longrightarrow>
      script_size script < script_size (tty_script w) \<or> tty_now w < now) \<and>
    live_elapsed live = now - tty_now w \<and>
    w' = w\<lparr>tty_output := s, tty_now := now, tty_script := script\<rparr>"
proof -
  from assms obtain s response reason now script where
    s: "write_all request (tty_output w) = (Inr (), s)" and
    run: "tty_loop limit stop_when (tty_now w + timeout) [] (tty_now w) (tty_script w) =
      (Inr (response, reason) :: ('a, 'b) app_error + bytes \<times> stop_reason, now, script)" and
    rest: "live = \<lparr>live_response = response, live_elapsed = now - tty_now w, live_stop_reason = reason\<rparr>"
      "w' = w\<lparr>tty_output := s, tty_now := now, tty_script := script\<rparr>"
    by (auto simp: raw_exchange_def io_bind_Inr_iff write_tty_Inr tty_io_call_Inr Let_def
        split: if_splits prod.splits sum.splits)
  from tty_loop_result [OF run] tty_loop_progress [OF run] s rest show ?thesis
    by auto
qed

lemma execute_tty_exchange_Inr:
  assumes "execute_tty_exchange p request timeout limit stop_when w =
    (Inr live :: ('json, 'img) app_error + live_exchange, w')"
  shows "\<exists>s now script. 0 < timeout \<and> 0 < limit \<and> write_all request (tty_output w) = (Inr (), s) \<and>
    loop_result limit stop_when (tty_now w + timeout) [] (tty_now w) (flushed w)
      (live_response live) (live_stop_reason live) now script \<and>
    (waits limit stop_when (tty_now w + timeout) [] (tty_now w) \<longrightarrow>
      script_size script < script_size (flushed w) \<or> tty_now w < now) \<and>
    live_elapsed live = now - tty_now w \<and>
    w' = raw_mode_drop (tty_attributes w)
      (w\<lparr>tty_attributes := RawOf (tty_attributes w), tty_output := s, tty_now := now, tty_script := script\<rparr>)"
proof -
  let ?raw = "w\<lparr>tty_script := flushed w, tty_attributes := RawOf (tty_attributes w)\<rparr>"
  from assms obtain v where positive: "0 < timeout" "0 < limit"
    and v: "raw_exchange request timeout limit stop_when ?raw =
      (Inr live :: ('json, 'img) app_error + live_exchange, v)"
      "w' = raw_mode_drop (tty_attributes w) v"
    by (auto simp: execute_tty_exchange_def io_bind_Inr_iff with_raw_guard_Inr tty_io_call_Inr
        get_attributes_Inr flush_input_Inr set_attributes_Inr split: if_splits)
  from raw_exchange_Inr [OF v(1)] positive v(2) show ?thesis
    by auto
qed

lemma raw_exchange_keeps:
  "tty_attributes (snd (raw_exchange request timeout limit stop_when w)) = tty_attributes w"
  "tty_errno (snd (raw_exchange request timeout limit stop_when w)) = tty_errno w"
  by (auto simp: raw_exchange_def io_bind_def write_tty_def tty_io_call_def Let_def
      split: prod.splits sum.splits option.splits)

section \<open>Properties\<close>

text \<open>The terminal is left as it was found, whatever happens in between: after every exchange,
  failed or not, the attributes are the original ones if restoring them is not refused, with one
  exception: when the descriptor for the guard cannot be cloned, after raw mode has been set, the
  terminal stays raw.\<close>

theorem tty_exchange_restores:
  assumes "tty_errno w (SetAttributes (tty_attributes w)) = None"
  shows "tty_attributes (snd (execute_tty_exchange p request timeout limit stop_when w)) =
    (if timeout \<noteq> 0 \<and> limit \<noteq> 0 \<and> tty_io_fault w (OpenTty p) = None \<and>
        list_all (\<lambda>c. tty_errno w c = None)
          [GetAttributes, FlushInput, SetAttributes (RawOf (tty_attributes w))] \<and>
        tty_io_fault w CloneTty \<noteq> None
     then RawOf (tty_attributes w) else tty_attributes w)"
  using assms
  by (auto simp: execute_tty_exchange_def io_bind_def tty_io_call_def tty_sys_call_def get_attributes_def
      flush_input_def set_attributes_def with_raw_guard_def raw_mode_drop raw_exchange_keeps
      prod.case_eq_if split: option.splits)

text \<open>A working terminal with a given script, for concrete instances.\<close>

definition demo_tty :: "tty_script \<Rightarrow> tty_world" where
  "demo_tty script =
     \<lparr>tty_attributes = Attributes ''cooked'', tty_output = open_stream UnexpectedEof [], tty_now = 0,
      tty_clock_max = 2 ^ 63, tty_script = script, tty_io_fault = (\<lambda>_. None), tty_errno = (\<lambda>_. None),
      tty_draw_time = 0\<rparr>"

theorem tty_exchange_restores_witness:
  "tty_attributes (snd (execute_tty_exchange ''/dev/tty'' ''q'' 1000000 4 (\<lambda>_. None)
      (demo_tty [(5, PollFails 9)]))) = Attributes ''cooked''"
  using tty_exchange_restores [of "demo_tty [(5, PollFails 9)]" "''/dev/tty''" "''q''" 1000000 4 "\<lambda>_. None"]
  by (simp add: demo_tty_def)

text \<open>C6: An exchange keeps its bounds and tells the truth: the response is within the limit and a
  prefix of what arrives, no byte lost or doubled; the stop reason is the one the caller's test gives
  for exactly this response; with the test still open and the limit reached it is \<open>ResourceLimit\<close>, and
  otherwise it is \<open>Timeout\<close> only when less than a millisecond of the timeout is left (poll timeouts are
  rounded down to milliseconds) or when nothing could be read for 65535 milliseconds (the greatest poll
  timeout, which ends the exchange even if the timeout is longer), and \<open>EndOfInput\<close> only when the input had
  ended right after what was read.  The exchange takes no longer than the timeout and one millisecond,
  and it sends exactly the request.\<close>

theorem tty_exchange_result:
  assumes "execute_tty_exchange p request timeout limit stop_when w = (Inr live, w')"
  shows "length (live_response live) \<le> limit \<and>
    live_response live @ arriving (tty_script w') = arriving (flushed w) \<and>
    (case stop_when (live_response live) of
       Some r \<Rightarrow> live_stop_reason live = r
     | None \<Rightarrow> if length (live_response live) = limit then live_stop_reason live = ResourceLimit
              else (live_stop_reason live = Timeout \<and>
                      (timeout < live_elapsed live + 1000000 \<or>
                       silent_poll (tty_now w) (flushed w) (tty_now w') (tty_script w'))) \<or>
                   (live_stop_reason live = EndOfInput \<and>
                      (\<exists>t \<le> tty_now w'. suffix ((t, Arrives []) # tty_script w') (flushed w)))) \<and>
    tty_now w' = tty_now w + live_elapsed live \<and>
    live_elapsed live \<le> timeout + 1000000 \<and>
    stream_out (tty_output w') = stream_out (tty_output w) @ request"
proof -
  from execute_tty_exchange_Inr [OF assms] obtain s now script where
    s: "write_all request (tty_output w) = (Inr (), s)"
    and run: "loop_result limit stop_when (tty_now w + timeout) [] (tty_now w) (flushed w)
      (live_response live) (live_stop_reason live) now script"
    and live: "live_elapsed live = now - tty_now w" "tty_script w' = script" "tty_output w' = s" "tty_now w' = now"
    by auto
  from run live(1) show ?thesis
    using write_all_Inr [OF s]
    by (auto simp: loop_result_def stop_explained_def ending_true_def live(2,3,4)
        split: option.splits if_splits)
qed

text \<open>A whole exchange on the demonstration terminal: one reply arrives in two pieces.\<close>

lemma demo_exchange:
  "\<exists>live w'. execute_tty_exchange ''/dev/tty'' ''q'' 1000000 4
      (\<lambda>bs. if bs = ''ab'' then Some BarrierObserved else None)
      (demo_tty [(5, Arrives ''a''), (9, Arrives ''b''), (10, Arrives ''c'')]) =
    (Inr live :: (unit, unit) app_error + live_exchange, w') \<and> live_response live = ''ab''"
proof -
  let ?stop = "\<lambda>bs. if bs = ''ab'' then Some BarrierObserved else None"
  have end1: "remaining_timeout 1000000 0 = 1" "remaining_timeout 1000000 5 = 1"
    by (simp_all add: remaining_timeout_def Let_def)
  have "tty_loop 4 ?stop 1000000 [] 0 [(5, Arrives ''a''), (9, Arrives ''b''), (10, Arrives ''c'')] =
      (Inr (''ab'', BarrierObserved) :: (unit, unit) app_error + bytes \<times> stop_reason, 9, [(10, Arrives ''c'')])"
    by (simp add: tty_loop_arrives waits_def end1 read_size_def after_read_def) (simp add: tty_loop.simps)
  then show ?thesis
    by (simp add: execute_tty_exchange_def io_bind_def tty_io_call_def tty_sys_call_def get_attributes_def
        flush_input_def set_attributes_def with_raw_guard_def raw_exchange_def write_tty_def write_all_def
        demo_tty_def open_stream_def map_err_def)
qed

theorem tty_exchange_result_witness:
  "\<exists>(live :: live_exchange) (w' :: tty_world). live_response live = ''ab'' \<and>
     live_response live @ arriving (tty_script w') = ''abc'' \<and> live_stop_reason live = BarrierObserved \<and>
     live_elapsed live \<le> 2000000"
proof -
  obtain live and w' :: tty_world where run: "execute_tty_exchange ''/dev/tty'' ''q'' 1000000 4
      (\<lambda>bs. if bs = ''ab'' then Some BarrierObserved else None)
      (demo_tty [(5, Arrives ''a''), (9, Arrives ''b''), (10, Arrives ''c'')]) =
    (Inr live :: (unit, unit) app_error + live_exchange, w')" and ab: "live_response live = ''ab''"
    using demo_exchange by blast
  from tty_exchange_result [OF run] have "live_response live @ arriving (tty_script w') = ''abc''"
    "live_stop_reason live = BarrierObserved" "live_elapsed live \<le> 2000000"
    by (simp_all add: ab flushed_def demo_tty_def)
  then show ?thesis
    using ab by blast
qed

text \<open>The poll timeout is kept in 16 bits, and a poll that times out ends the exchange: on a silent
  terminal an exchange with a timeout in milliseconds ends after that time only up to 65535
  milliseconds, and after 65535 milliseconds whenever the timeout is larger.\<close>

theorem tty_timeout_truncated:
  assumes "0 < ms" "0 < limit" "stop_when [] = None" "tty_script w = []"
    and "tty_io_fault w = (\<lambda>_. None)" "tty_errno w = (\<lambda>_. None)" "stream_room (tty_output w) = None"
    and "tty_now w + ms * 1000000 \<le> tty_clock_max w"
  shows "\<exists>w'. execute_tty_exchange p request (ms * 1000000) limit stop_when w =
    (Inr \<lparr>live_response = [], live_elapsed = min ms 65535 * 1000000, live_stop_reason = Timeout\<rparr>
      :: ('json, 'img) app_error + live_exchange, w')"
proof -
  let ?deadline = "tty_now w + ms * 1000000"
  have "remaining_timeout ?deadline (tty_now w) = min ms 65535"
    using assms(1) by (simp add: remaining_timeout_def Let_def)
  moreover have "waits limit stop_when ?deadline [] (tty_now w)"
    using assms(1-3) by (simp add: waits_def)
  ultimately have "tty_loop limit stop_when ?deadline [] (tty_now w) [] =
      (Inr ([], Timeout) :: ('json, 'img) app_error + bytes \<times> stop_reason,
       tty_now w + min ms 65535 * 1000000, [])"
    by (simp add: tty_loop_silent(1))
  then show ?thesis
    using assms
    by (simp add: execute_tty_exchange_def io_bind_def tty_io_call_def tty_sys_call_def get_attributes_def
        flush_input_def set_attributes_def with_raw_guard_def raw_exchange_def write_tty_def
        write_all_unlimited map_err_def Let_def)
qed

theorem tty_timeout_truncated_witness:
  "\<exists>w'. execute_tty_exchange ''/dev/tty'' ''q'' (120000 * 1000000) 4 (\<lambda>_. None) (demo_tty []) =
    (Inr \<lparr>live_response = [], live_elapsed = 65535000000, live_stop_reason = Timeout\<rparr>, w')"
  using tty_timeout_truncated [of 120000 4 "\<lambda>_. None" "demo_tty []" "''/dev/tty''" "''q''"]
  by (simp add: demo_tty_def open_stream_def)

text \<open>The stop tests of the two probes.\<close>

lemma da1_stop_reason_Nil [simp]: "da1_stop_reason enc [] = None"
  by (simp add: da1_stop_reason_def parse_responses_def parse_responses_from.simps)

end
