(* ===== verification/Probe_Receipts.thy ===== *)
theory Probe_Receipts
  imports Tty_Exchange Probe_Contract
begin

text \<open>
  The probes of the binary: preparing the transport, one exchange with the terminal, and the receipt
  built from it.  The Base64 encoder, the environment, the wall clock and the version of the crates
  are the fields of \<open>probe_env\<close>.
\<close>

section \<open>Arguments\<close>

datatype transport_kind = Direct | TmuxPassthrough

record tty_probe_args =
  probe_timeout_ms :: u64
  probe_max_response_bytes :: nat
  probe_tty :: path
  probe_transport :: transport_kind
  probe_transport_timeout_ms :: u64
  probe_output :: "path option"
  probe_pretty :: bool

record kgp_probe_args =
  kgp_correlation_id :: u32
  kgp_common :: tty_probe_args

record sixel_probe_args =
  sixel_common :: tty_probe_args

record probe_env =
  probe_encode :: "bytes \<Rightarrow> string"
  probe_vars :: "string \<rightharpoonup> bytes"
  probe_clock :: "nat option"
  probe_version :: string

section \<open>Evidence of one exchange\<close>

definition direct_transport_identity :: "string \<Rightarrow> adapter_identity" where
  "direct_transport_identity ver = \<lparr>adapter_name = ''direct-tty'', adapter_version = ver\<rparr>"

definition live_wire_exchange ::
  "(bytes \<Rightarrow> string) \<Rightarrow> bytes \<Rightarrow> bytes \<Rightarrow> live_exchange \<Rightarrow> wire_event list \<Rightarrow> wire_exchange" where
  "live_wire_exchange enc logical_request wire_request live events =
     \<lparr>logical_request_base64 = enc logical_request, wire_request_base64 = enc wire_request,
      response_base64 = enc (live_response live), exchange_events = events,
      elapsed_ms = u64_of_usize (live_elapsed live div 1000000),
      exchange_stop_reason = live_stop_reason live\<rparr>"

section \<open>Preparing the transport\<close>

definition da1_barrier_events :: "(bytes \<Rightarrow> string) \<Rightarrow> bytes \<Rightarrow> wire_event list" where
  "da1_barrier_events enc response = da1_events BarrierReply (parse_responses enc response)"

text \<open>One attempt of the readiness loop, with what remains of the time.\<close>

definition readiness_attempt ::
  "probe_env \<Rightarrow> tty_probe_args \<Rightarrow> nat \<Rightarrow> ('json, 'img, live_exchange) tty_io" where
  "readiness_attempt env args remaining =
     execute_tty_exchange (probe_tty args) build_readiness_query
       (min remaining (TRANSPORT_ATTEMPT_TIMEOUT_MS * 1000000)) (probe_max_response_bytes args)
       (da1_stop_reason (probe_encode env))"

lemma readiness_attempt_progress:
  assumes "readiness_attempt env args (deadline - tty_now w) w =
      (Inr live :: ('json, 'img) app_error + live_exchange, w')"
    and "tty_now w < deadline"
  shows "script_size (tty_script w') + (deadline - tty_now w') <
    script_size (tty_script w) + (deadline - tty_now w)"
proof -
  let ?timeout = "min (deadline - tty_now w) (TRANSPORT_ATTEMPT_TIMEOUT_MS * 1000000)"
  from execute_tty_exchange_Inr [OF assms(1) [unfolded readiness_attempt_def]] obtain s now script where
    pos: "0 < probe_max_response_bytes args"
    and run: "loop_result (probe_max_response_bytes args) (da1_stop_reason (probe_encode env))
      (tty_now w + ?timeout) [] (tty_now w) (flushed w) (live_response live) (live_stop_reason live) now script"
    and progress: "waits (probe_max_response_bytes args) (da1_stop_reason (probe_encode env))
        (tty_now w + ?timeout) [] (tty_now w) \<longrightarrow>
      script_size script < script_size (flushed w) \<or> tty_now w < now"
    and w': "tty_script w' = script" "tty_now w' = now"
    by auto
  have "0 < ?timeout"
    using assms(2) by (simp add: TRANSPORT_ATTEMPT_TIMEOUT_MS_def)
  then have "script_size script < script_size (flushed w) \<or> tty_now w < now"
    using pos progress by (simp add: waits_def)
  moreover have "script_size script \<le> script_size (flushed w)" "tty_now w \<le> now"
    using run by (simp_all add: loop_result_def)
  moreover note script_size_flushed [of w]
  ultimately show ?thesis
    using assms(2) by (auto simp: w')
qed

function readiness_loop ::
  "probe_env \<Rightarrow> tty_probe_args \<Rightarrow> nat \<Rightarrow> wire_exchange list
     \<Rightarrow> ('json, 'img, wire_exchange list \<times> transport_readiness) tty_io" where
  "readiness_loop env args deadline exchanges w =
     (let remaining = deadline - tty_now w in
      if remaining = 0 then (Inr (exchanges, ReadinessUnknown), w)
      else
        case (readiness_attempt env args remaining w
            :: (('json, 'img) app_error + live_exchange) \<times> tty_world) of
          (Inl e, w') \<Rightarrow> (Inl e, w')
        | (Inr live, w') \<Rightarrow>
            let responses = parse_responses (probe_encode env) (live_response live);
                events = da1_events BarrierReply responses;
                exchanges' = exchanges @
                  [live_wire_exchange (probe_encode env) (ESC # ''[c'') build_readiness_query live events]
            in if responses \<noteq> [] then (Inr (exchanges', Ready), w')
               else readiness_loop env args deadline exchanges' w')"
  by pat_completeness auto
termination
  by (relation "measure (\<lambda>(env, args, deadline, exchanges, w).
      script_size (tty_script w) + (deadline - tty_now w))")
    (auto dest: readiness_attempt_progress [OF sym])

declare readiness_loop.simps [simp del]

definition prepare_transport ::
  "probe_env \<Rightarrow> tty_probe_args \<Rightarrow> ('json, 'img, transport_evidence) tty_io" where
  "prepare_transport env args =
     (if probe_transport args = Direct then
        io_return \<lparr>transport_adapter = direct_transport_identity (probe_version env),
          transport_readiness = NotRequired, preparation_exchanges = []\<rparr>
      else if probe_transport_timeout_ms args = 0 then io_fail ZeroTransportTimeout
      else (\<lambda>w.
        let deadline = tty_now w + unat (probe_transport_timeout_ms args) * 1000000 in
        if tty_clock_max w < deadline then io_fail TimeoutOutOfRange w
        else io_bind (readiness_loop env args deadline [])
          (\<lambda>(exchanges, readiness). io_return
            \<lparr>transport_adapter = tmux_adapter_identity (probe_version env),
             transport_readiness = readiness, preparation_exchanges = exchanges\<rparr>) w))"

section \<open>Receipts\<close>

definition wire_request :: "transport_kind \<Rightarrow> bytes \<Rightarrow> bytes" where
  "wire_request transport protocol_request =
     (case transport of Direct \<Rightarrow> protocol_request | TmuxPassthrough \<Rightarrow> wrap_passthrough protocol_request)"

definition kgp_receipt ::
  "probe_env \<Rightarrow> kgp_probe_args \<Rightarrow> ('json, 'img, probe_receipt) tty_io" where
  "kgp_receipt env args =
     (let common = kgp_common args; enc = probe_encode env; ident = kgp_correlation_id args in
      io_bind (io_lift (map_err AppProbeBuild (kgp_build_query ident)))
     (\<lambda>protocol_request. io_bind (prepare_transport env common)
     (\<lambda>transport. let wire = wire_request (probe_transport common) protocol_request in
       io_bind (execute_tty_exchange (probe_tty common) wire
         (unat (probe_timeout_ms common) * 1000000) (probe_max_response_bytes common)
         (\<lambda>response. kgp_stop_reason enc response ident))
     (\<lambda>live. let parsed = kgp_parse_exchange enc (live_response live) ident in
       io_bind (io_lift (unix_time_ms (probe_clock env)))
     (\<lambda>now. io_return
       \<lparr>receipt_schema = PROBE_RECEIPT_SCHEMA_V1, observed_at_unix_ms = now,
        receipt_capability = kgp_capability_id, receipt_adapter = kgp_adapter_identity (probe_version env),
        receipt_correlation = Some \<lparr>correlation_namespace = ''org.kitty.image-id'',
          correlation_value = dec_string (unat ident)\<rparr>,
        receipt_context = \<lparr>tty_endpoint = from_utf8_lossy (probe_tty common),
          context_transport = transport, context_hints = environment_hints (probe_vars env),
          context_topology = TopologyUnknown\<rparr>,
        receipt_exchange = live_wire_exchange enc protocol_request wire live (kgp_events parsed),
        receipt_assessment = kgp_assessment parsed\<rparr>)))))"

definition sixel_receipt ::
  "probe_env \<Rightarrow> sixel_probe_args \<Rightarrow> ('json, 'img, probe_receipt) tty_io" where
  "sixel_receipt env args =
     (let common = sixel_common args; enc = probe_encode env; protocol_request = sixel_build_query in
      io_bind (prepare_transport env common)
     (\<lambda>transport. let wire = wire_request (probe_transport common) protocol_request in
       io_bind (execute_tty_exchange (probe_tty common) wire
         (unat (probe_timeout_ms common) * 1000000) (probe_max_response_bytes common)
         (da1_stop_reason enc))
     (\<lambda>live. let parsed = sixel_parse_exchange enc (live_response live) in
       io_bind (io_lift (unix_time_ms (probe_clock env)))
     (\<lambda>now. io_return
       \<lparr>receipt_schema = PROBE_RECEIPT_SCHEMA_V1, observed_at_unix_ms = now,
        receipt_capability = sixel_capability_id,
        receipt_adapter = sixel_adapter_identity (probe_version env), receipt_correlation = None,
        receipt_context = \<lparr>tty_endpoint = from_utf8_lossy (probe_tty common),
          context_transport = transport, context_hints = environment_hints (probe_vars env),
          context_topology = TopologyUnknown\<rparr>,
        receipt_exchange = live_wire_exchange enc protocol_request wire live (sixel_events parsed),
        receipt_assessment = sixel_assessment parsed\<rparr>))))"

section \<open>Lemmas\<close>

interpretation barrier_probe: probe_adapter enc "da1_barrier_events enc" for enc
  by unfold_locales (simp_all add: da1_barrier_events_def da1_events_canonical da1_events_quoted)

lemma live_wire_exchange_sel [simp]:
  "logical_request_base64 (live_wire_exchange enc l r live es) = enc l"
  "wire_request_base64 (live_wire_exchange enc l r live es) = enc r"
  "response_base64 (live_wire_exchange enc l r live es) = enc (live_response live)"
  "exchange_events (live_wire_exchange enc l r live es) = es"
  "exchange_stop_reason (live_wire_exchange enc l r live es) = live_stop_reason live"
  by (simp_all add: live_wire_exchange_def)

text \<open>Exchanges built with an adapter's events are well formed; one rule for each adapter.\<close>

lemma live_exchange_well_formed:
  assumes "\<And>bs. dec (enc bs) = Some bs"
  shows "exchange_well_formed dec (live_wire_exchange enc l r live
      (kgp_events (kgp_parse_exchange enc (live_response live) cid)))"
    "exchange_well_formed dec (live_wire_exchange enc l r live
      (sixel_events (sixel_parse_exchange enc (live_response live))))"
    "exchange_well_formed dec (live_wire_exchange enc l r live
      (da1_events BarrierReply (parse_responses enc (live_response live))))"
proof -
  show "exchange_well_formed dec (live_wire_exchange enc l r live
      (kgp_events (kgp_parse_exchange enc (live_response live) cid)))"
    by (rule kgp_probe.exchange_well_formed) (simp_all add: assms)
  show "exchange_well_formed dec (live_wire_exchange enc l r live
      (sixel_events (sixel_parse_exchange enc (live_response live))))"
    by (rule sixel_probe.exchange_well_formed) (simp_all add: assms)
  show "exchange_well_formed dec (live_wire_exchange enc l r live
      (da1_events BarrierReply (parse_responses enc (live_response live))))"
    by (rule barrier_probe.exchange_well_formed) (simp_all add: assms da1_barrier_events_def)
qed

lemma da1_events_Nil_iff: "da1_events role responses = [] \<longleftrightarrow> responses = []"
  by (cases responses) (simp_all add: da1_events_def)

text \<open>The readiness loop adds exchanges without a report, and one with a report exactly when it ends
  with the transport ready.\<close>

definition readiness_evidence :: "wire_exchange list \<Rightarrow> transport_readiness \<Rightarrow> bool" where
  "readiness_evidence exchanges readiness \<longleftrightarrow>
     list_all (\<lambda>ex. exchange_events ex = []) (butlast exchanges) \<and>
     (case readiness of
        NotRequired \<Rightarrow> exchanges = []
      | ReadinessUnknown \<Rightarrow> list_all (\<lambda>ex. exchange_events ex = []) exchanges
      | Ready \<Rightarrow> exchanges \<noteq> [] \<and> exchange_events (last exchanges) \<noteq> [])"

lemma readiness_loop_Inr:
  assumes "readiness_loop env args deadline exchanges w =
      (Inr (exchanges', readiness) :: ('json, 'img) app_error + wire_exchange list \<times> transport_readiness, w')"
    and "\<And>bs. dec (probe_encode env bs) = Some bs"
    and "list_all (exchange_well_formed dec) exchanges"
    and "list_all (\<lambda>ex. exchange_events ex = []) exchanges"
  shows "list_all (exchange_well_formed dec) exchanges' \<and> readiness_evidence exchanges' readiness \<and>
    readiness \<noteq> NotRequired"
  using assms
proof (induction env args deadline exchanges w
    rule: readiness_loop.induct [where 'a = 'json and 'b = 'img])
  case (1 env args deadline exchanges w)
  show ?case
  proof (cases "tty_now w < deadline")
    case False
    with 1 show ?thesis
      by (auto simp: readiness_loop.simps [of env args deadline exchanges w] readiness_evidence_def
          list_all_iff dest: in_set_butlastD)
  next
    case True
    then obtain live v where live: "readiness_attempt env args (deadline - tty_now w) w =
        (Inr live :: ('json, 'img) app_error + live_exchange, v)"
      using "1.prems"(1)
      by (auto simp: readiness_loop.simps [of env args deadline exchanges w] Let_def split: sum.splits prod.splits)
    define ex where "ex = live_wire_exchange (probe_encode env) (ESC # ''[c'') build_readiness_query live
      (da1_events BarrierReply (parse_responses (probe_encode env) (live_response live)))"
    have ex: "exchange_well_formed dec ex"
      unfolding ex_def by (rule live_exchange_well_formed(3)) (rule "1.prems"(2))
    show ?thesis
    proof (cases "parse_responses (probe_encode env) (live_response live) = []")
      case silent: True
      then have rec: "readiness_loop env args deadline (exchanges @ [ex]) v =
          (Inr (exchanges', readiness) :: ('json, 'img) app_error + wire_exchange list \<times> transport_readiness, w')"
        using "1.prems"(1) live True
        by (simp add: readiness_loop.simps [of env args deadline exchanges w] ex_def)
      have "exchange_events ex = []"
        using silent by (simp add: ex_def da1_events_Nil_iff)
      then show ?thesis
        using "1.IH" [OF refl _ live [symmetric] refl refl refl refl, folded ex_def] rec ex "1.prems" silent True
        by simp
    next
      case False
      then have "exchanges' = exchanges @ [ex]" "readiness = Ready"
        using "1.prems"(1) live True
        by (simp_all add: readiness_loop.simps [of env args deadline exchanges w] ex_def)
      then show ?thesis
        using "1.prems" ex False by (simp add: readiness_evidence_def ex_def da1_events_Nil_iff)
    qed
  qed
qed

lemma prepare_transport_Inr:
  assumes "prepare_transport env args w = (Inr te :: ('json, 'img) app_error + transport_evidence, w')"
    and "\<And>bs. dec (probe_encode env bs) = Some bs"
  shows "list_all (exchange_well_formed dec) (preparation_exchanges te) \<and>
    readiness_evidence (preparation_exchanges te) (transport_readiness te) \<and>
    (transport_readiness te = NotRequired \<longleftrightarrow> probe_transport args = Direct)"
proof (cases "probe_transport args = Direct")
  case True
  with assms(1) show ?thesis
    by (auto simp: prepare_transport_def readiness_evidence_def)
next
  case False
  then obtain deadline exchanges readiness v where
    run: "readiness_loop env args deadline [] w =
      (Inr (exchanges, readiness) :: ('json, 'img) app_error + wire_exchange list \<times> transport_readiness, v)"
    and te: "preparation_exchanges te = exchanges" "transport_readiness te = readiness"
    using assms(1) by (auto simp: prepare_transport_def io_bind_Inr_iff Let_def split: if_splits)
  from readiness_loop_Inr [OF run assms(2)] False te show ?thesis
    by simp
qed

text \<open>What a probe puts on the terminal last is its wire request.\<close>

lemma execute_written:
  assumes "execute_tty_exchange p request timeout limit stop_when w =
    (Inr live :: ('json, 'img) app_error + live_exchange, w')"
  shows "suffix request (stream_out (tty_output w')) \<and> length (live_response live) \<le> limit \<and>
    stop_explained limit stop_when (live_response live) (live_stop_reason live)"
proof -
  from execute_tty_exchange_Inr [OF assms] obtain s now script where
    "write_all request (tty_output w) = (Inr (), s)" "tty_output w' = s"
    "loop_result limit stop_when (tty_now w + timeout) [] (tty_now w) (flushed w)
      (live_response live) (live_stop_reason live) now script"
    by auto
  then show ?thesis
    using write_all_Inr by (fastforce simp: loop_result_def suffix_def)
qed

lemma find_list_ex: "find P xs = Some x \<Longrightarrow> list_ex P xs"
  using find_None_list_ex [of P xs] by simp

text \<open>A conformant assessment is only reached at the stop for both replies.\<close>

lemma kgp_conformant_stop:
  assumes "assessed_conformance (kgp_assessment (kgp_parse_exchange enc response cid)) = Conformant"
    and "stop_explained limit (\<lambda>r. kgp_stop_reason enc r cid) response reason"
  shows "reason = CapabilityAndBarrierObserved"
proof -
  have "correlated_reply_seen (kgp_parse_exchange enc response cid)"
    "barrier_seen (kgp_parse_exchange enc response cid)"
    using assms(1) by (auto simp: kgp_exchange_observed kgp_assess_conformant dest: find_list_ex)
  then show ?thesis
    using assms(2) by (simp add: stop_explained_def kgp_stop_reason_def)
qed

text \<open>What both receipts share: the context and the evidence of the exchange.\<close>

definition receipt_evidence ::
  "(string \<Rightarrow> bytes option) \<Rightarrow> tty_probe_args \<Rightarrow> bytes \<Rightarrow> tty_world \<Rightarrow> probe_receipt \<Rightarrow> bytes \<Rightarrow> bool" where
  "receipt_evidence dec args request w' r response \<longleftrightarrow>
     (let ex = receipt_exchange r; te = context_transport (receipt_context r);
          wire = wire_request (probe_transport args) request in
      dec (logical_request_base64 ex) = Some request \<and> dec (wire_request_base64 ex) = Some wire \<and>
      dec (response_base64 ex) = Some response \<and>
      suffix wire (stream_out (tty_output w')) \<and> length response \<le> probe_max_response_bytes args \<and>
      readiness_evidence (preparation_exchanges te) (transport_readiness te) \<and>
      (transport_readiness te = NotRequired \<longleftrightarrow> probe_transport args = Direct))"

lemma list_all_well_formed:
  "list_all (exchange_well_formed dec) exs \<longleftrightarrow> (\<forall>ex \<in> set exs. exchange_well_formed dec ex)"
  by (simp add: list_all_iff)

lemma kgp_receipt_Inr:
  assumes "kgp_receipt env args w = (Inr r :: ('json, 'img) app_error + probe_receipt, w')"
    and "\<And>bs. dec (probe_encode env bs) = Some bs"
  shows "\<exists>request response. kgp_build_query (kgp_correlation_id args) = Inr request \<and>
    receipt_well_formed dec r \<and> receipt_evidence dec (kgp_common args) request w' r response \<and>
    receipt_assessment r =
      kgp_assessment (kgp_parse_exchange (probe_encode env) response (kgp_correlation_id args)) \<and>
    exchange_events (receipt_exchange r) =
      kgp_events (kgp_parse_exchange (probe_encode env) response (kgp_correlation_id args)) \<and>
    stop_explained (probe_max_response_bytes (kgp_common args))
      (\<lambda>bs. kgp_stop_reason (probe_encode env) bs (kgp_correlation_id args)) response
      (exchange_stop_reason (receipt_exchange r))"
proof -
  from assms(1) obtain request te u live now where
    request: "kgp_build_query (kgp_correlation_id args) = Inr request"
    and te: "prepare_transport env (kgp_common args) w =
      (Inr te :: ('json, 'img) app_error + transport_evidence, u)"
    and live: "execute_tty_exchange (probe_tty (kgp_common args))
        (wire_request (probe_transport (kgp_common args)) request)
        (unat (probe_timeout_ms (kgp_common args)) * 1000000)
        (probe_max_response_bytes (kgp_common args))
        (\<lambda>response. kgp_stop_reason (probe_encode env) response (kgp_correlation_id args)) u =
      (Inr live :: ('json, 'img) app_error + live_exchange, w')"
    and r: "receipt_schema r = PROBE_RECEIPT_SCHEMA_V1" "context_transport (receipt_context r) = te"
      "receipt_exchange r = live_wire_exchange (probe_encode env) request
        (wire_request (probe_transport (kgp_common args)) request) live
        (kgp_events (kgp_parse_exchange (probe_encode env) (live_response live) (kgp_correlation_id args)))"
      "receipt_assessment r =
        kgp_assessment (kgp_parse_exchange (probe_encode env) (live_response live) (kgp_correlation_id args))"
    by (auto simp: kgp_receipt_def Let_def io_bind_Inr_iff io_lift_Inr_iff map_err_Inr)
  from prepare_transport_Inr [OF te assms(2)] execute_written [OF live] live_exchange_well_formed(1) [where enc = "probe_encode env" and dec = dec, OF assms(2)]
  show ?thesis
    by (intro exI [of _ request] exI [of _ "live_response live"])
      (simp add: request r assms(2) receipt_evidence_def receipt_well_formed_def list_all_well_formed)
qed

lemma sixel_receipt_Inr:
  assumes "sixel_receipt env args w = (Inr r :: ('json, 'img) app_error + probe_receipt, w')"
    and "\<And>bs. dec (probe_encode env bs) = Some bs"
  shows "\<exists>response. receipt_well_formed dec r \<and>
    receipt_evidence dec (sixel_common args) sixel_build_query w' r response \<and>
    receipt_assessment r = sixel_assessment (sixel_parse_exchange (probe_encode env) response) \<and>
    exchange_events (receipt_exchange r) = sixel_events (sixel_parse_exchange (probe_encode env) response) \<and>
    stop_explained (probe_max_response_bytes (sixel_common args)) (da1_stop_reason (probe_encode env))
      response (exchange_stop_reason (receipt_exchange r))"
proof -
  from assms(1) obtain te u live now where
    te: "prepare_transport env (sixel_common args) w =
      (Inr te :: ('json, 'img) app_error + transport_evidence, u)"
    and live: "execute_tty_exchange (probe_tty (sixel_common args))
        (wire_request (probe_transport (sixel_common args)) sixel_build_query)
        (unat (probe_timeout_ms (sixel_common args)) * 1000000)
        (probe_max_response_bytes (sixel_common args)) (da1_stop_reason (probe_encode env)) u =
      (Inr live :: ('json, 'img) app_error + live_exchange, w')"
    and r: "receipt_schema r = PROBE_RECEIPT_SCHEMA_V1" "context_transport (receipt_context r) = te"
      "receipt_exchange r = live_wire_exchange (probe_encode env) sixel_build_query
        (wire_request (probe_transport (sixel_common args)) sixel_build_query) live
        (sixel_events (sixel_parse_exchange (probe_encode env) (live_response live)))"
      "receipt_assessment r = sixel_assessment (sixel_parse_exchange (probe_encode env) (live_response live))"
    by (auto simp: sixel_receipt_def Let_def io_bind_Inr_iff io_lift_Inr_iff)
  from prepare_transport_Inr [OF te assms(2)] execute_written [OF live] live_exchange_well_formed(2) [where enc = "probe_encode env" and dec = dec, OF assms(2)]
  show ?thesis
    by (intro exI [of _ "live_response live"])
      (simp add: r assms(2) receipt_evidence_def receipt_well_formed_def list_all_well_formed)
qed

text \<open>A terminal that delivers everything at once, within the time of one poll.\<close>

lemma execute_one_read:
  assumes "tty_io_fault w = (\<lambda>_. None)" "tty_errno w = (\<lambda>_. None)" "stream_room (tty_output w) = None"
    and "tty_now w + ms * 1000000 \<le> tty_clock_max w" "0 < ms"
    and "tty_script w = (t, Arrives bs) # rest" "tty_now w < t" "t \<le> tty_now w + min ms 65535 * 1000000"
    and "bs \<noteq> []" "length bs \<le> limit" "length bs \<le> 4096" "stop_when [] = None" "stop_when bs = Some reason"
  shows "execute_tty_exchange p request (ms * 1000000) limit stop_when w =
    (Inr \<lparr>live_response = bs, live_elapsed = t - tty_now w, live_stop_reason = reason\<rparr>
       :: ('json, 'img) app_error + live_exchange,
     w\<lparr>tty_output := (tty_output w)\<lparr>stream_out := stream_out (tty_output w) @ request\<rparr>,
       tty_now := t, tty_script := rest\<rparr>)"
proof -
  let ?deadline = "tty_now w + ms * 1000000"
  have limit: "0 < limit"
    using assms(9,10) by (cases limit) auto
  have timeout: "remaining_timeout ?deadline (tty_now w) = min ms 65535"
    using assms(5) by (simp add: remaining_timeout_def Let_def)
  have waiting: "waits limit stop_when ?deadline [] (tty_now w)"
    using assms(5,12) limit by (simp add: waits_def)
  have "read_size limit [] = min limit 4096"
    by (simp add: read_size_def)
  then have read: "take (read_size limit []) bs = bs" "after_read (read_size limit []) t bs rest = rest"
    using assms(10,11) by (simp_all add: after_read_def)
  have "tty_loop limit stop_when ?deadline [] (tty_now w) ((t, Arrives bs) # rest) =
      tty_loop limit stop_when ?deadline bs t rest"
    using tty_loop_arrives [OF waiting _ assms(9), of t rest] assms(7,8) by (simp add: timeout read max_def)
  also have "\<dots> = (Inr (bs, reason), t, rest)"
    using assms(13) by (simp add: tty_loop.simps)
  finally have "tty_loop limit stop_when ?deadline [] (tty_now w) (flushed w) =
      (Inr (bs, reason) :: ('json, 'img) app_error + bytes \<times> stop_reason, t, rest)"
    using assms(6,7) by (simp add: flushed_def)
  moreover have "dropWhile (\<lambda>(t, i). t \<le> tty_now w) (tty_script w) = flushed w"
    by (simp add: flushed_def)
  ultimately show ?thesis
    using assms(1-5) limit
    by (simp add: execute_tty_exchange_def io_bind_def tty_io_call_def tty_sys_call_def get_attributes_def
        flush_input_def set_attributes_def with_raw_guard_def raw_exchange_def write_tty_def
        write_all_unlimited map_err_def raw_mode_drop Let_def)
qed

lemma kgp_stop_reason_Nil [simp]: "kgp_stop_reason enc [] cid = None"
  by (simp add: kgp_stop_reason_def kgp_parse_exchange_def kgp_observe.simps)

text \<open>What a conforming terminal sends: the reply to the query and the DA1 report.\<close>

abbreviation kgp_ok_reply :: "bytes \<Rightarrow> bytes \<Rightarrow> bytes \<Rightarrow> u32 \<Rightarrow> u16 list \<Rightarrow> bytes" where
  "kgp_ok_reply n0 n1 n2 cid ps \<equiv> kgp_reply_stream n0 n1 n2 (kgp_reply_body cid ''OK'') ps"

lemma kgp_receipt_live:
  assumes "kgp_correlation_id args \<noteq> 0" "probe_transport (kgp_common args) = Direct"
    and "tty_io_fault w = (\<lambda>_. None)" "tty_errno w = (\<lambda>_. None)" "stream_room (tty_output w) = None"
    and "probe_clock env \<noteq> None" "0 < unat (probe_timeout_ms (kgp_common args))"
    and "tty_now w + unat (probe_timeout_ms (kgp_common args)) * 1000000 \<le> tty_clock_max w"
    and "ESC \<notin> set n0" "ESC \<notin> set n1" "ESC \<notin> set n2" "ps \<noteq> []"
    and "tty_script w = (t, Arrives (kgp_ok_reply n0 n1 n2 (kgp_correlation_id args) ps)) # rest"
    and "tty_now w < t"
    and "t \<le> tty_now w + min (unat (probe_timeout_ms (kgp_common args))) 65535 * 1000000"
    and "length (kgp_ok_reply n0 n1 n2 (kgp_correlation_id args) ps)
      \<le> min (probe_max_response_bytes (kgp_common args)) 4096"
  shows "\<exists>r request. kgp_receipt env args w = (Inr r :: ('json, 'img) app_error + probe_receipt,
      w\<lparr>tty_output := (tty_output w)\<lparr>stream_out := stream_out (tty_output w) @ request\<rparr>,
        tty_now := t, tty_script := rest\<rparr>) \<and>
    receipt_is_eligible r \<and>
    exchange_stop_reason (receipt_exchange r) = CapabilityAndBarrierObserved"
proof -
  let ?id = "kgp_correlation_id args"
  let ?reply = "kgp_ok_reply n0 n1 n2 ?id ps"
  note ok = kgp_ok_stream [OF assms(9-12), of "probe_encode env" ?id, unfolded Let_def]
  have stop: "kgp_stop_reason (probe_encode env) ?reply ?id = Some CapabilityAndBarrierObserved"
    using ok by (simp add: kgp_stop_reason_def)
  have "?reply \<noteq> []"
    by (simp add: kgp_reply_stream_def apc_text_def)
  then have run: "execute_tty_exchange (probe_tty (kgp_common args)) request
      (unat (probe_timeout_ms (kgp_common args)) * 1000000)
      (probe_max_response_bytes (kgp_common args)) (\<lambda>bs. kgp_stop_reason (probe_encode env) bs ?id) w =
    (Inr \<lparr>live_response = ?reply, live_elapsed = t - tty_now w,
       live_stop_reason = CapabilityAndBarrierObserved\<rparr> :: ('json, 'img) app_error + live_exchange,
     w\<lparr>tty_output := (tty_output w)\<lparr>stream_out := stream_out (tty_output w) @ request\<rparr>,
       tty_now := t, tty_script := rest\<rparr>)" for request
    using assms stop by (intro execute_one_read) simp_all
  obtain request where "kgp_build_query ?id = Inr request"
    using assms(1) by (simp add: kgp_build_query_def)
  moreover obtain now where "unix_time_ms (probe_clock env) = (Inr now :: ('json, 'img) app_error + u64)"
    using assms(6) by (auto simp: unix_time_ms_def ok_or_def)
  ultimately show ?thesis
    using assms(2) run ok
    by (simp add: kgp_receipt_def Let_def io_bind_def prepare_transport_def wire_request_def
        receipt_is_eligible_def) blast
qed

lemma sixel_receipt_live:
  assumes "probe_transport (sixel_common args) = Direct"
    and "tty_io_fault w = (\<lambda>_. None)" "tty_errno w = (\<lambda>_. None)" "stream_room (tty_output w) = None"
    and "probe_clock env \<noteq> None" "0 < unat (probe_timeout_ms (sixel_common args))"
    and "tty_now w + unat (probe_timeout_ms (sixel_common args)) * 1000000 \<le> tty_clock_max w"
    and "tty_script w = (t, Arrives (da1_reply (render_parameters ps))) # rest" "4 \<in> set (tl ps)"
    and "tty_now w < t"
    and "t \<le> tty_now w + min (unat (probe_timeout_ms (sixel_common args))) 65535 * 1000000"
    and "length (da1_reply (render_parameters ps))
      \<le> min (probe_max_response_bytes (sixel_common args)) 4096"
  shows "\<exists>r. sixel_receipt env args w = (Inr r :: ('json, 'img) app_error + probe_receipt,
      w\<lparr>tty_output := (tty_output w)\<lparr>stream_out := stream_out (tty_output w) @ sixel_build_query\<rparr>,
        tty_now := t, tty_script := rest\<rparr>) \<and> receipt_is_eligible r"
proof -
  let ?reply = "da1_reply (render_parameters ps)"
  let ?enc = "probe_encode env"
  have "ps \<noteq> []"
    using assms(9) by auto
  then obtain r where r: "r \<in> set (parse_responses ?enc ?reply)" "da1_parameters r = ps"
    using sixel_reply_seen by blast
  then have stop: "da1_stop_reason ?enc ?reply = Some BarrierObserved"
    by (auto simp: da1_stop_reason_def)
  have "?reply \<noteq> []"
    by (simp add: da1_reply_def)
  then have run: "execute_tty_exchange (probe_tty (sixel_common args)) sixel_build_query
      (unat (probe_timeout_ms (sixel_common args)) * 1000000)
      (probe_max_response_bytes (sixel_common args)) (da1_stop_reason ?enc) w =
    (Inr \<lparr>live_response = ?reply, live_elapsed = t - tty_now w, live_stop_reason = BarrierObserved\<rparr>
       :: ('json, 'img) app_error + live_exchange,
     w\<lparr>tty_output := (tty_output w)\<lparr>stream_out := stream_out (tty_output w) @ sixel_build_query\<rparr>,
       tty_now := t, tty_script := rest\<rparr>)"
    using assms stop by (intro execute_one_read) simp_all
  have "advertises r SIXEL_DA1_EXTENSION"
    using assms(9) by (cases ps) (auto simp: advertises_def r(2) get_from_def SIXEL_DA1_EXTENSION_def)
  with r(1) have "assessed_availability (sixel_assessment (sixel_parse_exchange ?enc ?reply)) = Available"
    "assessed_conformance (sixel_assessment (sixel_parse_exchange ?enc ?reply)) = Conformant"
    by (auto simp: sixel_parse_exchange_def Let_def list_ex_iff)
  moreover obtain now where "unix_time_ms (probe_clock env) = (Inr now :: ('json, 'img) app_error + u64)"
    using assms(5) by (auto simp: unix_time_ms_def ok_or_def)
  ultimately show ?thesis
    using assms(1) run by (simp add: sixel_receipt_def Let_def io_bind_def prepare_transport_def
        wire_request_def receipt_is_eligible_def)
qed

section \<open>Properties\<close>

text \<open>C3: A KGP receipt is evidence for what it claims: it passes the structural validation; it quotes
  the query, the bytes last written to the terminal and a response within the limit; events and
  assessment are those of the quoted response; a conformant one records the stop at which both
  replies were observed; and the transport is claimed ready exactly when the last of the quoted
  preparation exchanges holds a report.\<close>

theorem kgp_receipt_sound:
  assumes "base64_engine (probe_encode env) dec"
    and "kgp_receipt env args w = (Inr r :: ('json, 'img) app_error + probe_receipt, w')"
  shows "validate_receipt dec r = Inr () \<and>
    (\<exists>request response. kgp_build_query (kgp_correlation_id args) = Inr request \<and>
      receipt_evidence dec (kgp_common args) request w' r response \<and>
      (let ex = kgp_parse_exchange (probe_encode env) response (kgp_correlation_id args) in
       receipt_assessment r = kgp_assessment ex \<and> exchange_events (receipt_exchange r) = kgp_events ex)) \<and>
    (if assessed_conformance (receipt_assessment r) = Conformant
     then exchange_stop_reason (receipt_exchange r) = CapabilityAndBarrierObserved else True)"
proof -
  have dec: "dec (probe_encode env bs) = Some bs" for bs
    using assms(1) by (rule base64_engine.dec_enc)
  from kgp_receipt_Inr [OF assms(2) dec] show ?thesis
    using kgp_conformant_stop by (auto simp: validate_receipt_Inr_iff Let_def)
qed

text \<open>A concrete probe: the terminal answers 5 ms after the query.\<close>

definition demo_probe_env :: probe_env where
  "demo_probe_env = \<lparr>probe_encode = std_encode, probe_vars = Map.empty, probe_clock = Some 7,
     probe_version = ''0.1.0''\<rparr>"

definition demo_probe_args :: tty_probe_args where
  "demo_probe_args = \<lparr>probe_timeout_ms = DEFAULT_TIMEOUT_MS,
     probe_max_response_bytes = DEFAULT_MAX_RESPONSE_BYTES, probe_tty = DEFAULT_TTY,
     probe_transport = Direct, probe_transport_timeout_ms = DEFAULT_TRANSPORT_TIMEOUT_MS,
     probe_output = None, probe_pretty = False\<rparr>"

lemmas demo_probe_defs = demo_probe_env_def demo_probe_args_def demo_tty_def open_stream_def
  DEFAULT_TIMEOUT_MS_def DEFAULT_MAX_RESPONSE_BYTES_def

lemma demo_reply_length: "length (kgp_ok_reply [] [] [] 31 [62, 4]) \<le> 4096"
  by (simp add: kgp_reply_stream_def kgp_reply_body_def apc_text_def da1_reply_def render_parameters_def
      render_fields_def eval_simps)

lemma demo_kgp_receipt:
  "\<exists>r w'. kgp_receipt demo_probe_env \<lparr>kgp_correlation_id = 31, kgp_common = demo_probe_args\<rparr>
      (demo_tty [(5000000, Arrives (kgp_ok_reply [] [] [] 31 [62, 4]))]) =
    (Inr r :: (unit, unit) app_error + probe_receipt, w') \<and> receipt_is_eligible r"
  using kgp_receipt_live [of "\<lparr>kgp_correlation_id = 31, kgp_common = demo_probe_args\<rparr>"
      "demo_tty [(5000000, Arrives (kgp_ok_reply [] [] [] 31 [62, 4]))]" demo_probe_env "[]" "[]" "[]"
      "[62, 4]" 5000000 "[]", where 'json = unit and 'img = unit] demo_reply_length
  by (auto simp: demo_probe_defs)

theorem kgp_receipt_sound_witness:
  "\<exists>r. receipt_is_eligible r \<and> validate_receipt std_decode r = Inr () \<and>
     exchange_stop_reason (receipt_exchange r) = CapabilityAndBarrierObserved"
proof -
  obtain r w' where run: "kgp_receipt demo_probe_env \<lparr>kgp_correlation_id = 31, kgp_common = demo_probe_args\<rparr>
      (demo_tty [(5000000, Arrives (kgp_ok_reply [] [] [] 31 [62, 4]))]) =
    (Inr r :: (unit, unit) app_error + probe_receipt, w')" and eligible: "receipt_is_eligible r"
    using demo_kgp_receipt by blast
  have "base64_engine (probe_encode demo_probe_env) std_decode"
    using rfc_standard.base64_engine_axioms by (simp add: demo_probe_env_def)
  from kgp_receipt_sound [OF this run] eligible show ?thesis
    by (auto simp: receipt_is_eligible_def)
qed

text \<open>A Sixel receipt is evidence for what it claims, in the same way; and one that records a
  silent terminal has an unknown availability.\<close>

theorem sixel_receipt_sound:
  assumes "base64_engine (probe_encode env) dec"
    and "sixel_receipt env args w = (Inr r :: ('json, 'img) app_error + probe_receipt, w')"
  shows "validate_receipt dec r = Inr () \<and>
    (\<exists>response. receipt_evidence dec (sixel_common args) sixel_build_query w' r response \<and>
      (let ex = sixel_parse_exchange (probe_encode env) response in
       receipt_assessment r = sixel_assessment ex \<and>
       exchange_events (receipt_exchange r) = sixel_events ex)) \<and>
    (exchange_stop_reason (receipt_exchange r) = BarrierObserved \<longleftrightarrow>
       assessed_availability (receipt_assessment r) \<noteq> AvailabilityUnknown)"
proof -
  have dec: "dec (probe_encode env bs) = Some bs" for bs
    using assms(1) by (rule base64_engine.dec_enc)
  from sixel_receipt_Inr [OF assms(2) dec] obtain response where *: "receipt_well_formed dec r"
    "receipt_evidence dec (sixel_common args) sixel_build_query w' r response"
    "receipt_assessment r = sixel_assessment (sixel_parse_exchange (probe_encode env) response)"
    "exchange_events (receipt_exchange r) = sixel_events (sixel_parse_exchange (probe_encode env) response)"
    "stop_explained (probe_max_response_bytes (sixel_common args)) (da1_stop_reason (probe_encode env))
      response (exchange_stop_reason (receipt_exchange r))"
    by blast
  have "exchange_stop_reason (receipt_exchange r) = BarrierObserved \<longleftrightarrow>
      parse_responses (probe_encode env) response \<noteq> []"
    using *(5) by (auto simp: stop_explained_def da1_stop_reason_def split: if_splits)
  moreover have "assessed_availability (receipt_assessment r) = AvailabilityUnknown \<longleftrightarrow>
      parse_responses (probe_encode env) response = []"
    by (auto simp: *(3) sixel_parse_exchange_def sixel_assess_def Let_def)
  ultimately show ?thesis
    using *(1-4) by (auto simp: validate_receipt_Inr_iff Let_def)
qed

lemma demo_report_length: "length (da1_reply (render_parameters [62, 4])) \<le> 4096"
  by (simp add: da1_reply_def render_parameters_def eval_simps)

lemma demo_sixel_receipt:
  "\<exists>r w'. sixel_receipt demo_probe_env \<lparr>sixel_common = demo_probe_args\<rparr>
      (demo_tty [(5000000, Arrives (da1_reply (render_parameters [62, 4])))]) =
    (Inr r :: (unit, unit) app_error + probe_receipt, w') \<and> receipt_is_eligible r"
  using sixel_receipt_live [of "\<lparr>sixel_common = demo_probe_args\<rparr>"
      "demo_tty [(5000000, Arrives (da1_reply (render_parameters [62, 4])))]" demo_probe_env 5000000
      "[62, 4]" "[]", where 'json = unit and 'img = unit] demo_report_length
  by (auto simp: demo_probe_defs)

theorem sixel_receipt_sound_witness:
  "\<exists>r. validate_receipt std_decode r = Inr () \<and>
     exchange_stop_reason (receipt_exchange r) = BarrierObserved"
proof -
  obtain r w' where run: "sixel_receipt demo_probe_env \<lparr>sixel_common = demo_probe_args\<rparr>
      (demo_tty [(5000000, Arrives (da1_reply (render_parameters [62, 4])))]) =
    (Inr r :: (unit, unit) app_error + probe_receipt, w')"
    and available: "receipt_is_eligible r"
    using demo_sixel_receipt by blast
  have "base64_engine (probe_encode demo_probe_env) std_decode"
    using rfc_standard.base64_engine_axioms by (simp add: demo_probe_env_def)
  from sixel_receipt_sound [OF this run] available show ?thesis
    by (auto simp: receipt_is_eligible_def)
qed

text \<open>C16: A terminal that answers in one piece is recognised end to end.  The probe uses the direct
  transport with a positive correlation identifier and timeout, no call fails, and the clocks can be read and can
  represent the deadline.  The first input after the start is one piece that holds the positive reply
  and then the report, in any bytes without ESC around them; it comes before the timeout and before
  65535 milliseconds (the greatest poll timeout) have passed, and it fits into the limit and into one
  read of 4096 bytes.  Then the probe succeeds with an eligible receipt that records the stop at both
  replies, and the attributes of the terminal are the original ones.\<close>

theorem kgp_probe_recognises:
  assumes "kgp_correlation_id args \<noteq> 0" "probe_transport (kgp_common args) = Direct"
    and "tty_io_fault w = (\<lambda>_. None)" "tty_errno w = (\<lambda>_. None)" "stream_room (tty_output w) = None"
    and "probe_clock env \<noteq> None" "0 < unat (probe_timeout_ms (kgp_common args))"
    and "tty_now w + unat (probe_timeout_ms (kgp_common args)) * 1000000 \<le> tty_clock_max w"
    and "ESC \<notin> set n0" "ESC \<notin> set n1" "ESC \<notin> set n2" "ps \<noteq> []"
    and "tty_script w = (t, Arrives (kgp_ok_reply n0 n1 n2 (kgp_correlation_id args) ps)) # rest"
    and "tty_now w < t"
    and "t \<le> tty_now w + min (unat (probe_timeout_ms (kgp_common args))) 65535 * 1000000"
    and "length (kgp_ok_reply n0 n1 n2 (kgp_correlation_id args) ps)
      \<le> min (probe_max_response_bytes (kgp_common args)) 4096"
  shows "\<exists>r w'. kgp_receipt env args w = (Inr r :: ('json, 'img) app_error + probe_receipt, w') \<and>
    receipt_is_eligible r \<and>
    exchange_stop_reason (receipt_exchange r) = CapabilityAndBarrierObserved \<and>
    tty_attributes w' = tty_attributes w"
  using kgp_receipt_live [OF assms, where 'json = 'json and 'img = 'img] by auto

theorem kgp_probe_recognises_witness:
  "\<exists>r w'. kgp_receipt demo_probe_env \<lparr>kgp_correlation_id = 31, kgp_common = demo_probe_args\<rparr>
      (demo_tty [(5000000, Arrives (kgp_ok_reply [] [] [] 31 [62, 4]))]) =
    (Inr r :: (unit, unit) app_error + probe_receipt, w') \<and> receipt_is_eligible r"
  using kgp_probe_recognises [of "\<lparr>kgp_correlation_id = 31, kgp_common = demo_probe_args\<rparr>"
      "demo_tty [(5000000, Arrives (kgp_ok_reply [] [] [] 31 [62, 4]))]" demo_probe_env "[]" "[]" "[]"
      "[62, 4]" 5000000 "[]", where 'json = unit and 'img = unit] demo_reply_length
  by (auto simp: demo_probe_defs)

end
