(* ===== verification/Cli_Commands.thy ===== *)
theory Cli_Commands
  imports Probe_Receipts
begin

text \<open>
  The commands of the binary that are not a preview: output to standard output or to a new file,
  probing, negotiation, artifact references, endpoints and URIs, and the validation of a contract
  document.  The state is the file world, standard input and output and the terminal; the JSON
  library and the texts of errors are fields of \<open>contract_codec\<close>.
\<close>

section \<open>The world of a command\<close>

record cli_world =
  cli_files :: unix_world
  cli_stdout :: stream
  cli_stdin :: bytes
  cli_stdin_fault :: "io_error_kind option"
  cli_tty :: tty_world

type_synonym ('json, 'img, 'a) cli_io = "(cli_world, ('json, 'img) app_error, 'a) io"

definition on_files :: "(unix_world, 'e, 'a) io \<Rightarrow> (cli_world, 'e, 'a) io" where
  "on_files m w = (case m (cli_files w) of (r, f) \<Rightarrow> (r, w\<lparr>cli_files := f\<rparr>))"

definition on_stdout :: "(stream, 'e, 'a) io \<Rightarrow> (cli_world, 'e, 'a) io" where
  "on_stdout m w = (case m (cli_stdout w) of (r, s) \<Rightarrow> (r, w\<lparr>cli_stdout := s\<rparr>))"

definition on_tty :: "(tty_world, 'e, 'a) io \<Rightarrow> (cli_world, 'e, 'a) io" where
  "on_tty m w = (case m (cli_tty w) of (r, t) \<Rightarrow> (r, w\<lparr>cli_tty := t\<rparr>))"

section \<open>Output\<close>

text \<open>\<open>Path::parent\<close>, with the current directory where it is none or empty.\<close>

definition drop_slashes :: "path \<Rightarrow> path" where
  "drop_slashes p = rev (dropWhile (\<lambda>c. c = CHR ''/'') (rev p))"

definition parent_dir :: "path \<Rightarrow> path" where
  "parent_dir p =
     (let dir = rev (dropWhile (\<lambda>c. c \<noteq> CHR ''/'') (rev (drop_slashes p))) in
      if dir = [] then ''.'' else if drop_slashes dir = [] then ''/'' else drop_slashes dir)"

definition write_output :: "path option \<Rightarrow> bytes \<Rightarrow> ('json, 'img, unit) cli_io" where
  "write_output dest bs =
     (case dest of
        None \<Rightarrow> io_map_err AppIo (on_stdout (write_all bs))
      | Some p \<Rightarrow> (\<lambda>w.
          if fs_exists p (cli_files w) then io_fail (OutputExists p) w
          else io_bind (io_map_err AppIo (on_files (temp_file (parent_dir p))))
            (\<lambda>_. io_map_err AppIo (on_files (persist_noclobber p bs))) w))"

section \<open>Documents\<close>

record 'json contract_codec =
  schema_of_document :: "bytes \<Rightarrow> 'json + string option"
  receipt_of_json :: "bytes \<Rightarrow> 'json + probe_receipt"
  negotiation_of_json :: "bytes \<Rightarrow> 'json + capability_negotiation"
  reference_of_json :: "bytes \<Rightarrow> 'json + artifact_ref"
  intent_of_json :: "bytes \<Rightarrow> 'json + open_intent"
  delivery_of_json :: "bytes \<Rightarrow> 'json + intent_receipt"
  ready_of_json :: "bytes \<Rightarrow> 'json + intent_ready"
  receipt_to_json :: "bool \<Rightarrow> probe_receipt \<Rightarrow> 'json + bytes"
  negotiation_to_json :: "bool \<Rightarrow> capability_negotiation \<Rightarrow> 'json + bytes"
  reference_to_json :: "bool \<Rightarrow> artifact_ref \<Rightarrow> 'json + bytes"
  intent_to_json :: "bool \<Rightarrow> open_intent \<Rightarrow> 'json + bytes"
  delivery_to_json :: "bool \<Rightarrow> intent_receipt \<Rightarrow> 'json + bytes"
  ready_to_json :: "bool \<Rightarrow> intent_ready \<Rightarrow> 'json + bytes"
  custom_negotiation_error :: "negotiation_validation_error \<Rightarrow> 'json"
  custom_endpoint_error :: "(io_error_kind, 'json) intent_error \<Rightarrow> 'json"
  receipt_error_text :: "probe_receipt_validation_error \<Rightarrow> string"
  negotiation_error_text :: "negotiation_validation_error \<Rightarrow> string"
  reference_error_text :: "artifact_ref_validation_error \<Rightarrow> string"
  intent_error_text :: "(io_error_kind, 'json) intent_error \<Rightarrow> string"
  standard_decode :: "string \<Rightarrow> bytes option"
  url_safe_decode :: "string \<Rightarrow> bytes option"

text \<open>The endpoint inside a document is checked while it is deserialized.\<close>

definition with_endpoint ::
  "'json contract_codec \<Rightarrow> ('a \<Rightarrow> endpoint_id) \<Rightarrow> 'json + 'a \<Rightarrow> 'json + 'a" where
  "with_endpoint codec endpoint parsed =
     try_bind parsed
       (\<lambda>a. try_bind (endpoint_deserialize (Inr (endpoint a)) (custom_endpoint_error codec)) (\<lambda>_. Inr a))"

section \<open>Validation of a contract document\<close>

text \<open>Reading with a bound: what is read holds at most one byte more than the bound.  An error of the
  input is met only after all bytes before it.\<close>

definition read_stdin :: "('json, 'img, bytes) cli_io" where
  "read_stdin w =
     (let bound = MAX_CONTRACT_DOCUMENT_BYTES + 1; bs = take bound (cli_stdin w);
          w' = w\<lparr>cli_stdin := drop bound (cli_stdin w)\<rparr> in
      if length bs < bound \<and> cli_stdin_fault w \<noteq> None then (Inl (AppIo (the (cli_stdin_fault w))), w')
      else (Inr bs, w'))"

definition read_contract_document :: "path \<Rightarrow> ('json, 'img, bytes) cli_io" where
  "read_contract_document p =
     io_bind
       (if p = ''-'' then read_stdin
        else io_bind (io_map_err AppIo (on_files (open_file p)))
          (\<lambda>file. io_bind (io_map_err AppIo (on_files (read_file p file)))
          (\<lambda>bs. io_return (take (MAX_CONTRACT_DOCUMENT_BYTES + 1) bs))))
       (\<lambda>bs. if MAX_CONTRACT_DOCUMENT_BYTES < length bs then io_fail ContractLimit else io_return bs)"

text \<open>The match on the schema, with the parser and the validation of each document.\<close>

definition check_contract ::
  "'json contract_codec \<Rightarrow> string \<Rightarrow> bytes \<Rightarrow> ('json, 'img) app_error + unit" where
  "check_contract codec schema bs =
     (if schema = PROBE_RECEIPT_SCHEMA_V1 then
        try_bind (map_err AppJson (receipt_of_json codec bs))
          (\<lambda>r. map_err (\<lambda>e. ContractInvalid (receipt_error_text codec e))
            (validate_receipt (standard_decode codec) r))
      else if schema = CAPABILITY_NEGOTIATION_SCHEMA_V1 then
        try_bind (map_err AppJson (deserialize_negotiation (negotiation_of_json codec)
            (custom_negotiation_error codec) (standard_decode codec) bs))
          (\<lambda>n. map_err (\<lambda>e. ContractInvalid (negotiation_error_text codec e))
            (validate_negotiation (standard_decode codec) n))
      else if schema = ARTIFACT_REF_SCHEMA_V1 then
        try_bind (map_err AppJson (reference_of_json codec bs))
          (\<lambda>r. map_err (\<lambda>e. ContractInvalid (reference_error_text codec e))
            (validate_ref (standard_decode codec) r))
      else if schema = OPEN_INTENT_SCHEMA_V1 then
        try_bind (map_err AppJson (with_endpoint codec intent_endpoint (intent_of_json codec bs)))
          (\<lambda>i. map_err (\<lambda>e. ContractInvalid (intent_error_text codec e))
            (validate_portable (url_safe_decode codec) i))
      else if schema = INTENT_RECEIPT_SCHEMA_V1 then
        try_bind (map_err AppJson (with_endpoint codec delivery_endpoint (delivery_of_json codec bs)))
          (\<lambda>r. map_err (\<lambda>e. ContractInvalid (intent_error_text codec e)) (delivery_validate r))
      else if schema = INTENT_READY_SCHEMA_V1 then
        try_bind (map_err AppJson (with_endpoint codec ready_endpoint (ready_of_json codec bs)))
          (\<lambda>r. map_err (\<lambda>e. ContractInvalid (intent_error_text codec e)) (ready_validate r))
      else Inl (UnsupportedContractSchema schema))"

record validate_args =
  validate_input :: path
  validate_quiet :: bool

definition validate_contract ::
  "'json contract_codec \<Rightarrow> validate_args \<Rightarrow> ('json, 'img, unit) cli_io" where
  "validate_contract codec args =
     io_bind (read_contract_document (validate_input args))
       (\<lambda>bs. io_bind (io_lift (map_err AppJson (schema_of_document codec bs)))
       (\<lambda>field. io_bind (io_lift (ok_or ContractSchemaMissing field))
       (\<lambda>schema. io_bind (io_lift (check_contract codec schema bs))
       (\<lambda>_. if \<not> validate_quiet args
         then write_output None (''valid'' @ [CHR 0x09] @ schema @ [CHR 0x0A])
         else io_return ()))))"

section \<open>Probe and negotiation\<close>

definition emit_probe_receipt ::
  "'json contract_codec \<Rightarrow> probe_receipt \<Rightarrow> tty_probe_args \<Rightarrow> ('json, 'img, unit) cli_io" where
  "emit_probe_receipt codec r args =
     io_bind (io_lift (serialized_json (receipt_to_json codec (probe_pretty args)) r))
       (\<lambda>bs. write_output (probe_output args) bs)"

datatype negotiation_transport = AutoTransport | DirectTransport | TmuxTransport

definition resolved_negotiation_transport :: "negotiation_transport \<Rightarrow> bool \<Rightarrow> transport_kind" where
  "resolved_negotiation_transport requested tmux_present =
     (case requested of
        AutoTransport \<Rightarrow> if tmux_present then TmuxPassthrough else Direct
      | DirectTransport \<Rightarrow> Direct
      | TmuxTransport \<Rightarrow> TmuxPassthrough)"

record pixel_negotiation_args =
  pixel_timeout_ms :: u64
  pixel_max_response_bytes :: nat
  pixel_tty :: path
  pixel_transport :: negotiation_transport
  pixel_transport_timeout_ms :: u64
  pixel_output :: "path option"
  pixel_pretty :: bool

definition negotiation_probe_args :: "probe_env \<Rightarrow> pixel_negotiation_args \<Rightarrow> tty_probe_args" where
  "negotiation_probe_args env args =
     \<lparr>probe_timeout_ms = pixel_timeout_ms args,
      probe_max_response_bytes = pixel_max_response_bytes args, probe_tty = pixel_tty args,
      probe_transport = resolved_negotiation_transport (pixel_transport args)
        (probe_vars env ''TMUX'' \<noteq> None),
      probe_transport_timeout_ms = pixel_transport_timeout_ms args, probe_output = None,
      probe_pretty = False\<rparr>"

definition negotiate_pixel ::
  "probe_env \<Rightarrow> 'json contract_codec \<Rightarrow> u32 \<Rightarrow> pixel_negotiation_args \<Rightarrow> ('json, 'img, unit) cli_io" where
  "negotiate_pixel env codec process_id args =
     (let common = negotiation_probe_args env args in
      io_bind (on_tty (kgp_receipt env \<lparr>kgp_correlation_id = max process_id 1, kgp_common = common\<rparr>))
     (\<lambda>kgp. io_bind (on_tty (sixel_receipt env \<lparr>sixel_common = common\<rparr>))
     (\<lambda>sixel. io_bind (io_lift (serialized_json (negotiation_to_json codec (pixel_pretty args))
         (negotiate_capabilities_v1 [kgp, sixel])))
     (\<lambda>bs. write_output (pixel_output args) bs))))"

section \<open>References, endpoints and URIs\<close>

datatype offer_format = ShortFormat | UriFormat | JsonFormat

record offer_args =
  offer_path :: path
  offer_format :: offer_format

definition offer_artifact ::
  "probe_env \<Rightarrow> 'json contract_codec \<Rightarrow> ('st, 'json) ref_env \<Rightarrow> (nat \<Rightarrow> 'r + bytes) \<Rightarrow> offer_args
     \<Rightarrow> ('json, 'img, unit) cli_io" where
  "offer_artifact env codec renv fill args =
     io_bind (io_lift (map_err AppRegistry (discover (probe_vars env ''TERM_INTEROP_STATE_DIR'')
         (probe_vars env ''XDG_STATE_HOME'') (probe_vars env ''HOME''))))
     (\<lambda>reg. io_bind (io_map_err AppRegistry (on_files
         (register renv reg (map_option u64_of_usize (probe_clock env)) fill (offer_path args))))
     (\<lambda>entry. io_bind (io_lift
         (case offer_format args of
            ShortFormat \<Rightarrow> Inr (short_ref entry @ [CHR 0x0A])
          | UriFormat \<Rightarrow> Inr (ref_uri entry @ [CHR 0x0A])
          | JsonFormat \<Rightarrow> serialized_json (reference_to_json codec True) entry))
     (\<lambda>bs. write_output None bs)))"

definition intent_endpoint_command :: "string + bytes \<Rightarrow> ('json, 'img, unit) cli_io" where
  "intent_endpoint_command fill =
     io_bind (io_lift (map_err AppIntent (endpoint_generate fill)))
       (\<lambda>endpoint. write_output None (endpoint @ [CHR 0x0A]))"

definition intent_uri_command ::
  "(bytes \<Rightarrow> string) \<Rightarrow> (string \<Rightarrow> bytes option) \<Rightarrow> string \<Rightarrow> path \<Rightarrow> ('json, 'img, unit) cli_io" where
  "intent_uri_command enc dec endpoint p =
     io_bind (io_lift (map_err AppIntent (endpoint_parse endpoint)))
       (\<lambda>e. io_bind (io_lift (map_err AppIntent (from_path enc e p)))
       (\<lambda>i. io_bind (io_lift (map_err AppIntent (intent_uri enc dec i)))
       (\<lambda>uri. write_output None (uri @ [CHR 0x0A]))))"

section \<open>Lemmas\<close>

lemma on_Inr [result_iff]:
  "on_files m w = (Inr a, w') \<longleftrightarrow> (\<exists>f. m (cli_files w) = (Inr a, f) \<and> w' = w\<lparr>cli_files := f\<rparr>)"
  "on_stdout n w = (Inr b, w') \<longleftrightarrow> (\<exists>s. n (cli_stdout w) = (Inr b, s) \<and> w' = w\<lparr>cli_stdout := s\<rparr>)"
  "on_tty k w = (Inr c, w') \<longleftrightarrow> (\<exists>t. k (cli_tty w) = (Inr c, t) \<and> w' = w\<lparr>cli_tty := t\<rparr>)"
  by (auto simp: on_files_def on_stdout_def on_tty_def split: prod.splits)

lemma write_output_stdout:
  "write_output None bs w = (Inr u, w') \<longleftrightarrow>
     (\<exists>s. write_all bs (cli_stdout w) = (Inr (), s) \<and> w' = w\<lparr>cli_stdout := s\<rparr>)"
  by (auto simp: write_output_def result_iff)

lemma write_output_unlimited:
  "stream_room (cli_stdout w) = None \<Longrightarrow> write_output None bs w =
     (Inr (), w\<lparr>cli_stdout := (cli_stdout w)\<lparr>stream_out := stream_out (cli_stdout w) @ bs\<rparr>\<rparr>)"
  by (simp add: write_output_def io_map_err_def on_stdout_def write_all_unlimited map_err_def)

text \<open>Documents of one kind are read back as what was written, with their schema.\<close>

definition reads_back ::
  "(bytes \<Rightarrow> 'json + string option) \<Rightarrow> (bytes \<Rightarrow> 'json + 'a) \<Rightarrow> (bool \<Rightarrow> 'a \<Rightarrow> 'json + bytes)
     \<Rightarrow> ('a \<Rightarrow> string) \<Rightarrow> bool" where
  "reads_back schema_of of_json to_json schema \<longleftrightarrow>
     (\<forall>pretty a bs. to_json pretty a = Inr bs \<longrightarrow>
        of_json (bs @ [CHR 0x0A]) = Inr a \<and> schema_of (bs @ [CHR 0x0A]) = Inr (Some (schema a)))"

lemma schemas_distinct:
  "distinct [PROBE_RECEIPT_SCHEMA_V1, CAPABILITY_NEGOTIATION_SCHEMA_V1, ARTIFACT_REF_SCHEMA_V1,
     OPEN_INTENT_SCHEMA_V1, INTENT_RECEIPT_SCHEMA_V1, INTENT_READY_SCHEMA_V1]"
  by (simp add: PROBE_RECEIPT_SCHEMA_V1_def CAPABILITY_NEGOTIATION_SCHEMA_V1_def ARTIFACT_REF_SCHEMA_V1_def
      OPEN_INTENT_SCHEMA_V1_def INTENT_RECEIPT_SCHEMA_V1_def INTENT_READY_SCHEMA_V1_def)

text \<open>A document on standard input that passes its check is accepted.\<close>

lemma validate_contract_ok:
  assumes "length bs \<le> MAX_CONTRACT_DOCUMENT_BYTES" "cli_stdin w = bs" "cli_stdin_fault w = None"
    and "schema_of_document codec bs = Inr (Some schema)"
    and "check_contract codec schema bs = (Inr () :: ('json, 'img) app_error + unit)"
  shows "fst (validate_contract codec \<lparr>validate_input = ''-'', validate_quiet = True\<rparr> w) =
    (Inr () :: ('json, 'img) app_error + unit)"
proof -
  have "read_contract_document ''-'' w =
      (Inr bs :: ('json, 'img) app_error + bytes, w\<lparr>cli_stdin := []\<rparr>)"
    using assms(1-3) by (simp add: read_contract_document_def read_stdin_def io_bind_def Let_def)
  then show ?thesis
    using assms(4,5) by (simp add: validate_contract_def io_bind_def)
qed

lemma receipt_capabilities:
  "kgp_receipt env kargs w = (Inr r :: ('json, 'img) app_error + probe_receipt, w') \<Longrightarrow>
     receipt_capability r = kgp_capability_id"
  "sixel_receipt env sargs w = (Inr r :: ('json, 'img) app_error + probe_receipt, w') \<Longrightarrow>
     receipt_capability r = sixel_capability_id"
  by (auto simp: kgp_receipt_def sixel_receipt_def Let_def io_bind_Inr_iff)

text \<open>What a negotiation writes.\<close>

lemma negotiate_pixel_Inr:
  assumes "negotiate_pixel env codec process_id args w = (Inr () :: ('json, 'img) app_error + unit, w')"
    and "\<And>bs. dec (probe_encode env bs) = Some bs"
  shows "\<exists>kgp sixel doc v. receipt_well_formed dec kgp \<and> receipt_well_formed dec sixel \<and>
    receipt_capability kgp = kgp_capability_id \<and> receipt_capability sixel = sixel_capability_id \<and>
    negotiation_to_json codec (pixel_pretty args) (negotiate_capabilities_v1 [kgp, sixel]) = Inr doc \<and>
    write_output (pixel_output args) (doc @ [CHR 0x0A]) v = (Inr () :: ('json, 'img) app_error + unit, w') \<and>
    cli_stdout v = cli_stdout w \<and> cli_files v = cli_files w"
proof -
  let ?common = "negotiation_probe_args env args"
  from assms(1) obtain kgp t sixel u doc where
    1: "kgp_receipt env \<lparr>kgp_correlation_id = max process_id 1, kgp_common = ?common\<rparr> (cli_tty w) =
      (Inr kgp :: ('json, 'img) app_error + probe_receipt, t)" and
    2: "sixel_receipt env \<lparr>sixel_common = ?common\<rparr> t =
      (Inr sixel :: ('json, 'img) app_error + probe_receipt, u)" and
    doc: "negotiation_to_json codec (pixel_pretty args) (negotiate_capabilities_v1 [kgp, sixel]) = Inr doc" and
    out: "write_output (pixel_output args) (doc @ [CHR 0x0A]) (w\<lparr>cli_tty := u\<rparr>) =
      (Inr () :: ('json, 'img) app_error + unit, w')"
    by (auto simp: negotiate_pixel_def Let_def io_bind_Inr_iff io_lift_Inr_iff on_Inr serialized_json_Inr)
  from kgp_receipt_Inr [OF 1 assms(2)] sixel_receipt_Inr [OF 2 assms(2)] receipt_capabilities(1) [OF 1]
    receipt_capabilities(2) [OF 2] doc out
  show ?thesis
    by (intro exI [of _ kgp] exI [of _ sixel] exI [of _ doc] exI [of _ "w\<lparr>cli_tty := u\<rparr>"]) auto
qed

lemma check_negotiation_ok:
  assumes "negotiation_of_json codec bs = Inr (negotiate_capabilities_v1 rs)"
    and "list_all (receipt_well_formed (standard_decode codec)) rs"
  shows "check_contract codec CAPABILITY_NEGOTIATION_SCHEMA_V1 bs = (Inr () :: ('json, 'img) app_error + unit)"
proof -
  have receipts: "map candidate_receipt (negotiation_candidates (negotiate_capabilities_v1 rs)) = rs"
    by (simp add: negotiate_eq)
  have valid: "validate_negotiation (standard_decode codec) (negotiate_capabilities_v1 rs) = Inr ()"
    using assms(2) by (simp add: validate_negotiation_Inr_iff receipts list_all_iff del: map_eq_conv)
  then have "deserialize_negotiation (negotiation_of_json codec) (custom_negotiation_error codec)
      (standard_decode codec) bs = Inr (negotiate_capabilities_v1 rs)"
    using assms(1) by (simp add: deserialize_negotiation_Inr_iff)
  then show ?thesis
    using valid schemas_distinct not_sym [of PROBE_RECEIPT_SCHEMA_V1 CAPABILITY_NEGOTIATION_SCHEMA_V1]
    by (simp add: check_contract_def)
qed

text \<open>What a document has to be under each schema.\<close>

definition conforms :: "'json contract_codec \<Rightarrow> string \<Rightarrow> bytes \<Rightarrow> bool" where
  "conforms codec schema bs \<longleftrightarrow>
     schema = PROBE_RECEIPT_SCHEMA_V1 \<and>
       (\<exists>r. receipt_of_json codec bs = Inr r \<and> receipt_well_formed (standard_decode codec) r) \<or>
     schema = CAPABILITY_NEGOTIATION_SCHEMA_V1 \<and>
       (\<exists>rs. negotiation_of_json codec bs = Inr (negotiate_capabilities_v1 rs) \<and>
          list_all (receipt_well_formed (standard_decode codec)) rs) \<or>
     schema = ARTIFACT_REF_SCHEMA_V1 \<and>
       (\<exists>r. reference_of_json codec bs = Inr r \<and>
          validate_ref (standard_decode codec) r = (Inr () :: artifact_ref_validation_error + unit)) \<or>
     schema = OPEN_INTENT_SCHEMA_V1 \<and>
       (\<exists>i p. intent_of_json codec bs = Inr i \<and> valid_endpoint (intent_endpoint i) \<and>
          intent_schema i = OPEN_INTENT_SCHEMA_V1 \<and>
          url_safe_decode codec (path_value (intent_target i)) = Some p \<and>
          length p \<le> MAX_TARGET_BYTES \<and> CHR 0x00 \<notin> set p \<and>
          (case path_encoding (intent_target i) of
             UnixBytesBase64urlV1 \<Rightarrow> is_absolute p
           | Utf8Base64urlV1 \<Rightarrow> utf8_valid p \<and> is_windows_absolute p)) \<or>
     schema = INTENT_RECEIPT_SCHEMA_V1 \<and>
       (\<exists>r. delivery_of_json codec bs = Inr r \<and> valid_endpoint (delivery_endpoint r) \<and>
          delivery_schema r = INTENT_RECEIPT_SCHEMA_V1 \<and> delivery_detail r \<noteq> [] \<and>
          length (delivery_detail r) \<le> MAX_FRAME_BYTES) \<or>
     schema = INTENT_READY_SCHEMA_V1 \<and>
       (\<exists>r. ready_of_json codec bs = Inr r \<and> valid_endpoint (ready_endpoint r) \<and>
          r = ready_new (ready_endpoint r))"

lemma with_endpoint_Inr [result_iff]:
  "with_endpoint codec endpoint parsed = Inr a \<longleftrightarrow> parsed = Inr a \<and> valid_endpoint (endpoint a)"
  by (auto simp: with_endpoint_def endpoint_deserialize_def result_iff valid_endpoint_def)

lemma validate_portable_Inr [result_iff]:
  "validate_portable dec i = Inr u \<longleftrightarrow>
     intent_schema i = OPEN_INTENT_SCHEMA_V1 \<and>
     (\<exists>p. dec (path_value (intent_target i)) = Some p \<and>
        length p \<le> MAX_TARGET_BYTES \<and> CHR 0x00 \<notin> set p \<and>
        (case path_encoding (intent_target i) of
           UnixBytesBase64urlV1 \<Rightarrow> is_absolute p
         | Utf8Base64urlV1 \<Rightarrow> utf8_valid p \<and> is_windows_absolute p))"
proof (cases "path_encoding (intent_target i)")
  case UnixBytesBase64urlV1
  then show ?thesis
    by (auto simp: validate_portable_def portable_path_bytes_def result_iff is_absolute_def get_at_def
        split: if_splits)
next
  case Utf8Base64urlV1
  have "is_windows_absolute p \<Longrightarrow> p \<noteq> []" for p
    by auto
  with Utf8Base64urlV1 show ?thesis
    by (auto simp: validate_portable_def portable_path_bytes_def try_bind_Inr_iff ok_or_Inr_iff
        from_utf8_def validate_target_bytes_Inr_iff split: if_splits)
qed

lemma delivery_validate_Inr [result_iff]:
  "delivery_validate r = Inr u \<longleftrightarrow>
     delivery_schema r = INTENT_RECEIPT_SCHEMA_V1 \<and> delivery_detail r \<noteq> [] \<and>
     length (delivery_detail r) \<le> MAX_FRAME_BYTES"
  by (auto simp: delivery_validate_def)

lemma ready_validate_Inr [result_iff]:
  "ready_validate r = Inr u \<longleftrightarrow> r = ready_new (ready_endpoint r)"
  by (cases r) (auto simp: ready_validate_def ready_new_def Let_def)

text \<open>The branches of the match, one lemma for each schema.\<close>

lemma check_contract_branches:
  "(check_contract codec PROBE_RECEIPT_SCHEMA_V1 bs :: ('json, 'img) app_error + unit) = Inr u \<longleftrightarrow>
     (\<exists>r. receipt_of_json codec bs = Inr r \<and> receipt_well_formed (standard_decode codec) r)"
  "(check_contract codec ARTIFACT_REF_SCHEMA_V1 bs :: ('json, 'img) app_error + unit) = Inr u \<longleftrightarrow>
     (\<exists>r. reference_of_json codec bs = Inr r \<and>
        validate_ref (standard_decode codec) r = (Inr () :: artifact_ref_validation_error + unit))"
  "(check_contract codec INTENT_RECEIPT_SCHEMA_V1 bs :: ('json, 'img) app_error + unit) = Inr u \<longleftrightarrow>
     (\<exists>r. delivery_of_json codec bs = Inr r \<and> valid_endpoint (delivery_endpoint r) \<and>
        delivery_schema r = INTENT_RECEIPT_SCHEMA_V1 \<and> delivery_detail r \<noteq> [] \<and>
        length (delivery_detail r) \<le> MAX_FRAME_BYTES)"
  "(check_contract codec INTENT_READY_SCHEMA_V1 bs :: ('json, 'img) app_error + unit) = Inr u \<longleftrightarrow>
     (\<exists>r. ready_of_json codec bs = Inr r \<and> valid_endpoint (ready_endpoint r) \<and>
        r = ready_new (ready_endpoint r))"
  using schemas_distinct by (auto simp: check_contract_def result_iff)

lemma check_contract_intent:
  "(check_contract codec OPEN_INTENT_SCHEMA_V1 bs :: ('json, 'img) app_error + unit) = Inr u \<longleftrightarrow>
     (\<exists>i. intent_of_json codec bs = Inr i \<and> valid_endpoint (intent_endpoint i) \<and>
        validate_portable (url_safe_decode codec) i = (Inr () :: (io_error_kind, 'json) intent_error + unit))"
  using schemas_distinct by (auto simp: check_contract_def result_iff)

lemma check_contract_negotiation:
  "(check_contract codec CAPABILITY_NEGOTIATION_SCHEMA_V1 bs :: ('json, 'img) app_error + unit) = Inr u \<longleftrightarrow>
     (\<exists>rs. negotiation_of_json codec bs = Inr (negotiate_capabilities_v1 rs) \<and>
        list_all (receipt_well_formed (standard_decode codec)) rs)"
  (is "?checks \<longleftrightarrow> _")
proof
  assume ?checks
  then obtain n where n: "negotiation_of_json codec bs = Inr n"
    "n = negotiate_capabilities_v1 (map candidate_receipt (negotiation_candidates n))"
    "\<forall>r \<in> set (map candidate_receipt (negotiation_candidates n)).
       receipt_well_formed (standard_decode codec) r"
    using schemas_distinct by (auto simp: check_contract_def result_iff)
  show "\<exists>rs. negotiation_of_json codec bs = Inr (negotiate_capabilities_v1 rs) \<and>
      list_all (receipt_well_formed (standard_decode codec)) rs"
    using n(1,3) by (subst (asm) n(2)) (auto simp only: list_all_iff)
next
  assume "\<exists>rs. negotiation_of_json codec bs = Inr (negotiate_capabilities_v1 rs) \<and>
      list_all (receipt_well_formed (standard_decode codec)) rs"
  then show ?checks
    by (auto simp: check_negotiation_ok)
qed

lemma check_contract_other:
  "schema \<notin> {PROBE_RECEIPT_SCHEMA_V1, CAPABILITY_NEGOTIATION_SCHEMA_V1, ARTIFACT_REF_SCHEMA_V1,
     OPEN_INTENT_SCHEMA_V1, INTENT_RECEIPT_SCHEMA_V1, INTENT_READY_SCHEMA_V1} \<Longrightarrow>
   check_contract codec schema bs = Inl (UnsupportedContractSchema schema)"
  by (simp add: check_contract_def)

lemma check_contract_Inr:
  "check_contract codec schema bs = (Inr u :: ('json, 'img) app_error + unit) \<longleftrightarrow> conforms codec schema bs"
proof (cases "schema \<in> {PROBE_RECEIPT_SCHEMA_V1, CAPABILITY_NEGOTIATION_SCHEMA_V1, ARTIFACT_REF_SCHEMA_V1,
     OPEN_INTENT_SCHEMA_V1, INTENT_RECEIPT_SCHEMA_V1, INTENT_READY_SCHEMA_V1}")
  case True
  then show ?thesis
    using schemas_distinct
    by (elim insertE emptyE)
      (simp_all add: conforms_def check_contract_branches check_contract_intent check_contract_negotiation
        validate_portable_Inr not_sym)
next
  case False
  then show ?thesis
    using False by (auto simp: conforms_def check_contract_def)
qed

text \<open>The bytes of a document within the bound.\<close>

definition document_within ::
  "path \<Rightarrow> cli_world \<Rightarrow> bytes \<Rightarrow> bool" where
  "document_within p w bs \<longleftrightarrow> length bs \<le> 1048576 \<and>
     (if p = ''-'' then cli_stdin_fault w = None \<and> cli_stdin w = bs
      else faults (cli_files w) (OpenFile p) = None \<and> faults (cli_files w) (ReadFile p) = None \<and>
        (\<exists>n. lookup (cli_files w) p = Some n \<and> node_kind n = RegularFile \<and> node_bytes n = bs))"

lemma take_short: "length (take n xs) < n \<longleftrightarrow> length xs < n"
  by (simp add: min_def)

lemma read_contract_document_Inr:
  "(\<exists>w'. read_contract_document p w = (Inr bs :: ('json, 'img) app_error + bytes, w')) \<longleftrightarrow>
     document_within p w bs"
proof (cases "p = ''-''")
  case True
  then show ?thesis
    by (auto simp: read_contract_document_def read_stdin_def io_bind_Inr_iff document_within_def Let_def
        MAX_CONTRACT_DOCUMENT_BYTES_def min_def split: if_splits)
next
  case False
  have kind: "node_kind n = RegularFile \<longleftrightarrow> openable n \<and> node_kind n \<noteq> Directory" for n
    by (auto simp: openable_def)
  have bound: "xs = bs" if "length bs \<le> 1048576" "take 1048577 xs = bs" for xs
    using that by (auto simp: min_def split: if_splits)
  have cut: "take 1048577 bs = bs" if "length bs \<le> 1048576"
    using that by simp
  show ?thesis
    using False bound cut
    by (auto simp: read_contract_document_def io_bind_Inr_iff result_iff on_Inr document_within_def
        MAX_CONTRACT_DOCUMENT_BYTES_def kind not_less simp del: take_all_iff) blast+
qed

section \<open>Properties\<close>

text \<open>C14: Output to a file is atomic and never overwrites: either the command fails and no file and
  no byte of standard output has changed, or the path was free, it now is a regular file with exactly
  the bytes, and nothing else has changed.\<close>

theorem write_output_atomic:
  "case (write_output (Some p) bs w :: (('json, 'img) app_error + unit) \<times> cli_world) of
     (Inl e, w') \<Rightarrow> w' = w
   | (Inr u, w') \<Rightarrow> nodes (cli_files w) p = None \<and>
       w' = w\<lparr>cli_files := put_node p
         ((new_node (cli_files w))\<lparr>node_kind := RegularFile, node_bytes := bs\<rparr>) (cli_files w)\<rparr>"
  by (auto simp: write_output_def io_bind_def io_map_err_def on_files_def temp_file_def fs_guard_def
      persist_noclobber_def split: option.splits sum.splits prod.splits if_splits)

text \<open>C12: The document check, with quiet output, accepts exactly the documents within a mebibyte that name one of the
  six schemas and conform to it: well-formed receipts, negotiations that are the outcome of
  well-formed receipts, records of files, intents for an absolute path, deliveries with a detail and
  ready records that announce their own prefix.\<close>

theorem validate_contract_exact:
  "fst (validate_contract codec \<lparr>validate_input = p, validate_quiet = True\<rparr> w) =
     (Inr () :: ('json, 'img) app_error + unit) \<longleftrightarrow>
   (\<exists>bs schema. document_within p w bs \<and> schema_of_document codec bs = Inr (Some schema) \<and>
      conforms codec schema bs)"
proof -
  have "fst (validate_contract codec \<lparr>validate_input = p, validate_quiet = True\<rparr> w) =
      (Inr () :: ('json, 'img) app_error + unit) \<longleftrightarrow>
    (\<exists>w'. validate_contract codec \<lparr>validate_input = p, validate_quiet = True\<rparr> w =
      (Inr () :: ('json, 'img) app_error + unit, w'))"
    by (cases "validate_contract codec \<lparr>validate_input = p, validate_quiet = True\<rparr> w
      :: (('json, 'img) app_error + unit) \<times> cli_world") simp
  also have "\<dots> \<longleftrightarrow> (\<exists>bs schema.
      (\<exists>w'. read_contract_document p w = (Inr bs :: ('json, 'img) app_error + bytes, w')) \<and>
      schema_of_document codec bs = Inr (Some schema) \<and>
      check_contract codec schema bs = (Inr () :: ('json, 'img) app_error + unit))"
    by (auto simp: validate_contract_def io_bind_Inr_iff result_iff)
  finally show ?thesis
    by (simp only: read_contract_document_Inr check_contract_Inr)
qed

text \<open>A terminal that answers both probes, and a codec for the outcome of the two.\<close>

definition demo_codec :: "capability_negotiation \<Rightarrow> unit contract_codec" where
  "demo_codec n =
     \<lparr>schema_of_document = (\<lambda>_. Inr (Some (negotiation_schema n))), receipt_of_json = (\<lambda>_. Inl ()),
      negotiation_of_json = (\<lambda>_. Inr n), reference_of_json = (\<lambda>_. Inl ()), intent_of_json = (\<lambda>_. Inl ()),
      delivery_of_json = (\<lambda>_. Inl ()), ready_of_json = (\<lambda>_. Inl ()), receipt_to_json = (\<lambda>_ _. Inl ()),
      negotiation_to_json = (\<lambda>_ m. if m = n then Inr ''document'' else Inl ()),
      reference_to_json = (\<lambda>_ _. Inl ()), intent_to_json = (\<lambda>_ _. Inl ()),
      delivery_to_json = (\<lambda>_ _. Inl ()), ready_to_json = (\<lambda>_ _. Inl ()),
      custom_negotiation_error = (\<lambda>_. ()), custom_endpoint_error = (\<lambda>_. ()),
      receipt_error_text = (\<lambda>_. []), negotiation_error_text = (\<lambda>_. []), reference_error_text = (\<lambda>_. []),
      intent_error_text = (\<lambda>_. []), standard_decode = std_decode, url_safe_decode = (\<lambda>_. None)\<rparr>"

definition demo_pixel_args :: pixel_negotiation_args where
  "demo_pixel_args = \<lparr>pixel_timeout_ms = DEFAULT_TIMEOUT_MS,
     pixel_max_response_bytes = DEFAULT_MAX_RESPONSE_BYTES, pixel_tty = DEFAULT_TTY,
     pixel_transport = AutoTransport, pixel_transport_timeout_ms = DEFAULT_TRANSPORT_TIMEOUT_MS,
     pixel_output = None, pixel_pretty = True\<rparr>"

definition demo_cli :: "tty_script \<Rightarrow> bytes \<Rightarrow> cli_world" where
  "demo_cli script input = \<lparr>cli_files = empty_world, cli_stdout = open_stream UnexpectedEof [],
     cli_stdin = input, cli_stdin_fault = None, cli_tty = demo_tty script\<rparr>"

abbreviation demo_kgp_event :: "nat \<times> tty_input" where
  "demo_kgp_event \<equiv> (5000000, Arrives (kgp_ok_reply [] [] [] 31 [62, 4]))"

abbreviation demo_sixel_event :: "nat \<times> tty_input" where
  "demo_sixel_event \<equiv> (9000000, Arrives (da1_reply (render_parameters [62, 4])))"

lemma demo_two_receipts:
  "\<exists>kgp t sixel u. kgp_receipt demo_probe_env \<lparr>kgp_correlation_id = 31, kgp_common = demo_probe_args\<rparr>
      (demo_tty [demo_kgp_event, demo_sixel_event]) = (Inr kgp :: (unit, unit) app_error + probe_receipt, t) \<and>
    sixel_receipt demo_probe_env \<lparr>sixel_common = demo_probe_args\<rparr> t =
      (Inr sixel :: (unit, unit) app_error + probe_receipt, u) \<and> receipt_is_eligible kgp"
proof -
  let ?w = "demo_tty [demo_kgp_event, demo_sixel_event]"
  obtain kgp request where 1: "kgp_receipt demo_probe_env
      \<lparr>kgp_correlation_id = 31, kgp_common = demo_probe_args\<rparr> ?w =
    (Inr kgp :: (unit, unit) app_error + probe_receipt,
     ?w\<lparr>tty_output := (tty_output ?w)\<lparr>stream_out := stream_out (tty_output ?w) @ request\<rparr>,
       tty_now := 5000000, tty_script := [demo_sixel_event]\<rparr>)" and "receipt_is_eligible kgp"
    using kgp_receipt_live [of "\<lparr>kgp_correlation_id = 31, kgp_common = demo_probe_args\<rparr>" ?w
        demo_probe_env "[]" "[]" "[]" "[62, 4]" 5000000 "[demo_sixel_event]", where 'json = unit and 'img = unit]
      demo_reply_length
    by (auto simp: demo_probe_defs)
  let ?t = "?w\<lparr>tty_output := (tty_output ?w)\<lparr>stream_out := stream_out (tty_output ?w) @ request\<rparr>,
       tty_now := 5000000, tty_script := [demo_sixel_event]\<rparr>"
  have "\<exists>sixel u. sixel_receipt demo_probe_env \<lparr>sixel_common = demo_probe_args\<rparr> ?t =
      (Inr sixel :: (unit, unit) app_error + probe_receipt, u)"
    using sixel_receipt_live [of "\<lparr>sixel_common = demo_probe_args\<rparr>" ?t demo_probe_env 9000000
        "[62, 4]" "[]", where 'json = unit and 'img = unit] demo_report_length
    by (auto simp: demo_probe_defs)
  with 1 \<open>receipt_is_eligible kgp\<close> show ?thesis by blast
qed

lemma demo_negotiation:
  "\<exists>n w'. negotiate_pixel demo_probe_env (demo_codec n) 31 demo_pixel_args
      (demo_cli [demo_kgp_event, demo_sixel_event] []) = (Inr () :: (unit, unit) app_error + unit, w') \<and>
    stream_out (cli_stdout w') = ''document'' @ [CHR 0x0A]"
proof -
  let ?w = "demo_cli [demo_kgp_event, demo_sixel_event] []"
  obtain kgp t sixel u where *: "kgp_receipt demo_probe_env
      \<lparr>kgp_correlation_id = 31, kgp_common = demo_probe_args\<rparr> (cli_tty ?w) =
      (Inr kgp :: (unit, unit) app_error + probe_receipt, t)"
    "sixel_receipt demo_probe_env \<lparr>sixel_common = demo_probe_args\<rparr> t =
      (Inr sixel :: (unit, unit) app_error + probe_receipt, u)"
    using demo_two_receipts by (auto simp: demo_cli_def)
  let ?codec = "demo_codec (negotiate_capabilities_v1 [kgp, sixel])"
  let ?w' = "?w\<lparr>cli_tty := u, cli_stdout := (cli_stdout ?w)\<lparr>stream_out := ''document'' @ [CHR 0x0A]\<rparr>\<rparr>"
  have "negotiation_probe_args demo_probe_env demo_pixel_args = demo_probe_args"
    by (simp add: negotiation_probe_args_def demo_pixel_args_def demo_probe_env_def demo_probe_args_def
        resolved_negotiation_transport_def)
  then have "negotiate_pixel demo_probe_env ?codec 31 demo_pixel_args ?w =
      (Inr () :: (unit, unit) app_error + unit, ?w')"
    using * by (simp add: negotiate_pixel_def Let_def io_bind_def on_tty_def serialized_json_def
        map_err_def demo_codec_def demo_pixel_args_def write_output_unlimited demo_cli_def open_stream_def)
  then show ?thesis by fastforce
qed

end
