(* ===== verification/Intent_Service.thy ===== *)
theory Intent_Service
  imports Cli_Commands
begin

text \<open>
  The two ends of the intent callback in the binary: the listener that forwards intents to its
  consumer on standard output, and the dispatcher.  The listener's loop runs over the connections
  that arrive; after the last of them it waits, which is the result \<open>None\<close>.  What it prints to
  standard error about a rejected connection is in \<open>Error_Texts\<close>.
\<close>

section \<open>The listener\<close>

datatype connection = AcceptFails io_error_kind | Connected stream

datatype ('json, 'img) outcome =
    Malformed "(io_error_kind, 'json) intent_error"
  | Ended "('json, 'img) app_error"
  | Delivered open_intent

text \<open>The frames of both ends carry documents with a checked endpoint.\<close>

definition intent_reader :: "'json contract_codec \<Rightarrow> bytes \<Rightarrow> 'json + open_intent" where
  "intent_reader codec bs = with_endpoint codec intent_endpoint (intent_of_json codec bs)"

definition delivery_reader :: "'json contract_codec \<Rightarrow> bytes \<Rightarrow> 'json + intent_receipt" where
  "delivery_reader codec bs = with_endpoint codec delivery_endpoint (delivery_of_json codec bs)"

definition handoff_failed :: string where
  "handoff_failed = ''consumer handoff failed: ''"

text \<open>One iteration of the loop once a connection is there.  \<open>err_text\<close> is \<open>Display\<close> of the error.\<close>

definition serve_one ::
  "'json contract_codec \<Rightarrow> (('json, 'img) app_error \<Rightarrow> string) \<Rightarrow> endpoint_id \<Rightarrow> stream \<Rightarrow> cli_world
     \<Rightarrow> ('json, 'img) outcome \<times> stream \<times> cli_world" where
  "serve_one codec err_text endpoint s w =
     (case accept_intent (url_safe_decode codec) (intent_reader codec) (delivery_to_json codec False)
         endpoint s of
        (Inl e, s') \<Rightarrow> (Malformed e, s', w)
      | (Inr i, s') \<Rightarrow>
          (case serialized_json (intent_to_json codec False) i of
             Inl e \<Rightarrow> (Ended e, s', w)
           | Inr bs \<Rightarrow>
               (case write_output None bs w of
                  (forward_result, w') \<Rightarrow>
                    let receipt =
                      (case forward_result of
                         Inr _ \<Rightarrow> delivery_forwarded endpoint
                       | Inl e \<Rightarrow> delivery_rejected endpoint (handoff_failed @ err_text e)) in
                    (case respond (delivery_to_json codec False) receipt s' of
                       (Inl e, s'') \<Rightarrow> (Ended (AppIntent e), s'', w')
                     | (Inr _, s'') \<Rightarrow>
                         (case forward_result of
                            Inl e \<Rightarrow> (Ended e, s'', w')
                          | Inr _ \<Rightarrow> (Delivered i, s'', w'))))))"

text \<open>The loop: its result, the connections it has served, and the world.\<close>

fun listen_loop ::
  "'json contract_codec \<Rightarrow> (('json, 'img) app_error \<Rightarrow> string) \<Rightarrow> endpoint_id \<Rightarrow> bool \<Rightarrow> connection list
     \<Rightarrow> cli_world \<Rightarrow> (('json, 'img) app_error + unit) option \<times> stream list \<times> cli_world" where
  "listen_loop codec err_text endpoint once [] w = (None, [], w)"
| "listen_loop codec err_text endpoint once (AcceptFails e # conns) w =
     listen_loop codec err_text endpoint once conns w"
| "listen_loop codec err_text endpoint once (Connected s # conns) w =
     (case serve_one codec err_text endpoint s w of
        (Malformed e, s', w') \<Rightarrow>
          (case listen_loop codec err_text endpoint once conns w' of
             (r, served, w'') \<Rightarrow> (r, s' # served, w''))
      | (Ended e, s', w') \<Rightarrow> (Some (Inl e), [s'], w')
      | (Delivered i, s', w') \<Rightarrow>
          if once then (Some (Inr ()), [s'], w')
          else (case listen_loop codec err_text endpoint once conns w' of
             (r, served, w'') \<Rightarrow> (r, s' # served, w'')))"

definition listen_for_intents ::
  "probe_env \<Rightarrow> 'json contract_codec \<Rightarrow> (('json, 'img) app_error \<Rightarrow> string) \<Rightarrow> string \<Rightarrow> bool
     \<Rightarrow> connection list \<Rightarrow> cli_world
     \<Rightarrow> (('json, 'img) app_error + unit) option \<times> stream list \<times> cli_world" where
  "listen_for_intents env codec err_text endpoint_text once conns w =
     (case io_bind (io_lift (map_err AppIntent (endpoint_parse endpoint_text)))
         (\<lambda>endpoint. io_bind (io_lift (map_err AppIntent (runtime_root (probe_vars env ''XDG_RUNTIME_DIR''))))
         (\<lambda>root. io_map_err AppIntent (on_files (listener_bind root endpoint)))) w of
        (Inl e, w1) \<Rightarrow> (Some (Inl e), [], w1)
      | (Inr l, w1) \<Rightarrow>
          (case (case io_bind (io_lift (serialized_json (ready_to_json codec False)
                       (ready_new (listener_endpoint l)))) (write_output None) w1 of
               (Inl e, w2) \<Rightarrow> (Some (Inl e), [], w2)
             | (Inr _, w2) \<Rightarrow> listen_loop codec err_text (listener_endpoint l) once conns w2) of
             (r, served, w3) \<Rightarrow>
               (r, served,
                if r = None then w3 else w3\<lparr>cli_files := listener_drop l (cli_files w3)\<rparr>)))"

section \<open>The dispatcher\<close>

definition dispatch_callback ::
  "probe_env \<Rightarrow> 'json contract_codec \<Rightarrow> (path \<Rightarrow> io_error_kind + stream) \<Rightarrow> string \<Rightarrow> u64 \<Rightarrow> bool
     \<Rightarrow> ('json, 'img, unit) cli_io" where
  "dispatch_callback env codec connect uri timeout_ms quiet =
     (if timeout_ms = 0 then io_fail ZeroIntentTimeout
      else
        io_bind (io_lift (map_err AppIntent (parse_uri (url_safe_decode codec) uri)))
       (\<lambda>i. io_bind (io_lift (map_err AppIntent (runtime_root (probe_vars env ''XDG_RUNTIME_DIR''))))
       (\<lambda>root. io_bind (io_lift (map_err AppIntent (dispatch connect (intent_to_json codec False)
           (delivery_reader codec) root i (unat timeout_ms))))
       (\<lambda>receipt. io_bind (io_lift (map_err AppIntent (delivery_validate receipt)))
       (\<lambda>_. if delivery_state receipt \<noteq> Forwarded then io_fail (IntentRejected (delivery_detail receipt))
         else if \<not> quiet
         then io_bind (io_lift (serialized_json (delivery_to_json codec False) receipt)) (write_output None)
         else io_return ())))))"

section \<open>Lemmas\<close>

text \<open>What has been written of a frame: all of it, or a part that is not a frame.\<close>

definition partly :: "bytes \<Rightarrow> bytes \<Rightarrow> bool" where
  "partly out frame \<longleftrightarrow> (\<exists>k < length frame. out = take k frame)"

lemma write_all_cases:
  "write_all bs s = (Inr (), t) \<and> stream_out t = stream_out s @ bs \<or>
   (\<exists>e k. write_all bs s = (Inl e, t) \<and> k < length bs \<and> stream_out t = stream_out s @ take k bs)"
  if "write_all bs s = (r, t)"
proof (cases "\<exists>k. stream_room s = Some k \<and> k < length bs")
  case True
  then obtain k where "stream_room s = Some k" "k < length bs" by blast
  with that show ?thesis
    by (intro disjI2 exI [of _ "stream_fault s"] exI [of _ k]) (auto simp: write_all_def)
next
  case False
  with that show ?thesis
    by (auto simp: write_all_def not_less split: option.splits if_splits)
qed

text \<open>Two pieces written in turn are the piece they make together.\<close>

lemma write_two_cases:
  assumes "io_bind (io_map_err f (write_all bs)) (\<lambda>_. io_map_err f (write_all cs)) s = (r, t)"
  shows "r = Inr () \<and> stream_out t = stream_out s @ bs @ cs \<or>
    (\<exists>e k. r = Inl (f e) \<and> k < length (bs @ cs) \<and> stream_out t = stream_out s @ take k (bs @ cs))"
proof -
  obtain r1 s1 r2 s2 where 1: "write_all bs s = (r1, s1)" and 2: "write_all cs s1 = (r2, s2)"
    by fastforce
  from write_all_cases [OF 1] consider (part) e k where "write_all bs s = (Inl e, s1)" "k < length bs"
      "stream_out s1 = stream_out s @ take k bs"
    | (whole) "write_all bs s = (Inr (), s1)" "stream_out s1 = stream_out s @ bs"
    by blast
  then show ?thesis
  proof cases
    case (part e k)
    with assms show ?thesis
      by (intro disjI2 exI [of _ e] exI [of _ k]) (auto simp: io_bind_def io_map_err_def map_err_def)
  next
    case whole
    from write_all_cases [OF 2] whole assms show ?thesis
    proof (elim disjE exE conjE)
      fix e k
      assume "write_all cs s1 = (Inl e, s2)" "k < length cs" "stream_out s2 = stream_out s1 @ take k cs"
      with whole assms show ?thesis
        by (intro disjI2 exI [of _ e] exI [of _ "length bs + k"]) (auto simp: io_bind_def io_map_err_def map_err_def)
    qed (auto simp: io_bind_def io_map_err_def map_err_def)
  qed
qed

lemma write_frame_cases:
  assumes "write_frame to_json v s = (r, t)"
  shows "(\<exists>payload. to_json v = Inr payload \<and> length payload \<le> MAX_FRAME_BYTES \<and>
      (r = Inr () \<and> stream_out t = stream_out s @ frame_of payload \<or>
       (\<exists>e out. r = Inl (Io e) \<and> stream_out t = stream_out s @ out \<and> partly out (frame_of payload)))) \<or>
    (\<exists>e. r = Inl e \<and> t = s)"
proof (cases "to_json v")
  case (Inl e)
  with assms show ?thesis
    by (auto simp: write_frame_def io_bind_def map_err_def)
next
  case (Inr payload)
  show ?thesis
  proof (cases "MAX_FRAME_BYTES < length payload")
    case True
    with assms write_frame_too_large [of to_json v payload s] Inr show ?thesis by auto
  next
    case False
    then have "length payload < 2 ^ 32"
      by (simp add: MAX_FRAME_BYTES_def)
    with False Inr have "io_bind (io_map_err Io (write_all (to_be_bytes (of_nat (length payload)))))
        (\<lambda>_. io_map_err Io (write_all payload)) s = (r, t)"
      using assms by (simp add: write_frame_def io_bind_def)
    from write_two_cases [OF this, folded frame_of_def] show ?thesis
      using Inr False unfolding partly_def by fastforce
  qed
qed

lemma read_exact_out: "read_exact n s = (r, t) \<Longrightarrow> stream_out t = stream_out s"
  by (auto simp: read_exact_def split: if_splits)

lemma read_frame_keeps_out: "stream_out (snd (read_frame from_json s)) = stream_out s"
  by (auto simp: read_frame_def io_bind_def io_map_err_def map_err_def Let_def
      split: sum.splits prod.splits dest!: read_exact_out)

lemma read_frame_short: "length (stream_in s) < 4 \<Longrightarrow> \<exists>e. fst (read_frame from_json s) = Inl e"
  by (simp add: read_frame_def io_bind_def io_map_err_def read_exact_def map_err_def)

lemma read_frame_partly:
  assumes "partly (stream_in s) (frame_of payload)" "length payload \<le> MAX_FRAME_BYTES"
  shows "\<exists>e. fst (read_frame from_json s) = Inl e"
proof -
  obtain k where k: "k < length (frame_of payload)" "stream_in s = take k (frame_of payload)"
    using assms(1) by (auto simp: partly_def)
  show ?thesis
  proof (cases "k < 4")
    case True
    with k show ?thesis by (intro read_frame_short) simp
  next
    case False
    then have "stream_in s = to_be_bytes (of_nat (length payload)) @ take (k - 4) payload"
      using k(2) by (simp add: frame_of_def)
    moreover have "\<not> length payload \<le> k - 4"
      using False k(1) by (simp add: frame_of_def)
    ultimately show ?thesis using assms(2)
      by (simp add: read_frame_def io_bind_def io_map_err_def read_exact_def map_err_def
          frame_length frame_of_def less_diff_conv2)
  qed
qed

text \<open>What the dispatcher finds on its connection: nothing, or one receipt, perhaps cut short.\<close>

definition answered ::
  "'json contract_codec \<Rightarrow> intent_receipt \<Rightarrow> stream \<Rightarrow> stream \<Rightarrow> bool" where
  "answered codec receipt s s' \<longleftrightarrow>
     stream_out s' = stream_out s \<or>
     (\<exists>payload out. delivery_to_json codec False receipt = Inr payload \<and> length payload \<le> MAX_FRAME_BYTES \<and>
        stream_out s' = stream_out s @ out \<and> (out = frame_of payload \<or> partly out (frame_of payload)))"

lemma respond_answered:
  "write_frame (delivery_to_json codec False) receipt s = (r, s') \<Longrightarrow> answered codec receipt s s'"
  unfolding answered_def by (drule write_frame_cases) auto

text \<open>Messages survive serialization.\<close>

definition frames_back :: "(bytes \<Rightarrow> 'json + 'a) \<Rightarrow> (bool \<Rightarrow> 'a \<Rightarrow> 'json + bytes) \<Rightarrow> bool" where
  "frames_back of_json to_json \<longleftrightarrow>
     (\<forall>pretty a bs. to_json pretty a = Inr bs \<longrightarrow> of_json bs = Inr a)"

lemma answered_read:
  assumes "answered codec receipt s s'" "stream_out s = []" "stream_in c = stream_out s'"
    and "read_frame (delivery_reader codec) c = (Inr r, c')"
    and "frames_back (delivery_of_json codec) (delivery_to_json codec)"
  shows "r = receipt"
proof -
  have "\<not> length (stream_in c) < 4"
    using read_frame_short [of c "delivery_reader codec"] assms(4) by fastforce
  then have "stream_out s' \<noteq> stream_out s"
    using assms(2,3) by auto
  then obtain payload out where doc: "delivery_to_json codec False receipt = Inr payload"
    "length payload \<le> MAX_FRAME_BYTES" and out: "stream_in c = out"
    "out = frame_of payload \<or> partly out (frame_of payload)"
    using assms(1-3) by (auto simp: answered_def)
  have "\<not> partly out (frame_of payload)"
    using read_frame_partly [of c payload "delivery_reader codec"] doc(2) assms(4) out(1) by fastforce
  with out have "stream_in c = frame_of payload @ []" by simp
  from read_frame_ok [OF this doc(2), of "delivery_reader codec"]
  have "delivery_reader codec payload = Inr r"
    using assms(4) by (metis map_err_Inr_iff prod.inject)
  moreover have "delivery_of_json codec payload = Inr receipt"
    using assms(5) doc(1) by (simp add: frames_back_def)
  ultimately show ?thesis
    by (simp add: delivery_reader_def with_endpoint_Inr)
qed

lemma accept_intent_answered:
  assumes "accept_intent dec from_json (delivery_to_json codec False) endpoint s = (Inl e, s')"
  shows "answered codec (delivery_rejected endpoint mismatch_detail) s s'"
proof (cases "read_frame from_json s")
  case (Pair r t)
  then have t: "stream_out t = stream_out s"
    using read_frame_keeps_out [of from_json s] by simp
  show ?thesis
  proof (cases r)
    case (Inl e')
    with assms Pair t show ?thesis
      by (auto simp: accept_intent_def io_bind_def answered_def)
  next
    case (Inr i)
    obtain r2 t2 where 2: "write_frame (delivery_to_json codec False)
        (delivery_rejected endpoint mismatch_detail) t =
        (r2 :: (io_error_kind, 'a) intent_error + unit, t2)"
      by fastforce
    from respond_answered [OF this] t
    have "answered codec (delivery_rejected endpoint mismatch_detail) s t2"
      by (simp add: answered_def)
    with assms Pair Inr 2 t show ?thesis
      by (auto simp: accept_intent_def io_bind_def io_ignore_def answered_def split: if_splits sum.splits)
  qed
qed

text \<open>One connection: what it is answered, and that a forwarding receipt follows the consumer's line.\<close>

lemma serve_one_answer:
  assumes "serve_one codec err_text endpoint s w = (v, s', w')"
  shows "\<exists>receipt. answered codec receipt s s' \<and>
    (delivery_state receipt = Forwarded \<longrightarrow> receipt = delivery_forwarded endpoint \<and>
      (\<exists>i bs t. read_frame (intent_reader codec) s = (Inr i, t) \<and> intent_endpoint i = endpoint \<and>
        (\<exists>p. carries_path (url_safe_decode codec) i p) \<and> intent_to_json codec False i = Inr bs \<and>
        stream_out (cli_stdout w') = stream_out (cli_stdout w) @ bs @ [CHR 0x0A]))"
proof (cases "accept_intent (url_safe_decode codec) (intent_reader codec) (delivery_to_json codec False)
    endpoint s :: ((io_error_kind, 'a) intent_error + open_intent) \<times> stream")
  case (Pair r s1)
  have silent: ?thesis if "stream_out s' = stream_out s"
    using that by (intro exI [of _ "delivery_rejected endpoint mismatch_detail"])
      (simp add: answered_def delivery_rejected_def)
  show ?thesis
  proof (cases r)
    case (Inl e)
    then have "answered codec (delivery_rejected endpoint mismatch_detail) s s1"
      using Pair accept_intent_answered by blast
    with Inl Pair assms show ?thesis
      by (intro exI [of _ "delivery_rejected endpoint mismatch_detail"])
        (auto simp: serve_one_def delivery_rejected_def)
  next
    case (Inr i)
    note accepted = accept_intent_Inr [OF Pair [unfolded Inr]]
    show ?thesis
    proof (cases "serialized_json (intent_to_json codec False) i :: ('a, 'b) app_error + bytes")
      case (Inl e)
      with \<open>r = Inr i\<close> Pair assms accepted(3) show ?thesis
        by (intro silent) (auto simp: serve_one_def)
    next
      case ser: (Inr bs)
      obtain fwd w1 where out: "write_output None bs w = (fwd :: ('a, 'b) app_error + unit, w1)"
        by fastforce
      let ?receipt = "case fwd of Inr _ \<Rightarrow> delivery_forwarded endpoint
        | Inl e \<Rightarrow> delivery_rejected endpoint (handoff_failed @ err_text e)"
      obtain r2 s2 where resp: "write_frame (delivery_to_json codec False) ?receipt s1 =
          (r2 :: (io_error_kind, 'a) intent_error + unit, s2)"
        by fastforce
      have final: "s' = s2" "w' = w1"
        using assms Pair \<open>r = Inr i\<close> ser out resp
        by (auto simp: serve_one_def respond_def Let_def split: sum.splits)
      have "answered codec ?receipt s s'"
        using respond_answered [OF resp] accepted(3) by (simp add: answered_def final)
      moreover have "stream_out (cli_stdout w') = stream_out (cli_stdout w) @ bs" if "fwd = Inr ()"
        using out that by (auto simp: final write_output_stdout dest!: write_all_Inr)
      moreover have "\<exists>doc. intent_to_json codec False i = Inr doc \<and> bs = doc @ [CHR 0x0A]"
        using ser by (simp add: serialized_json_Inr)
      ultimately show ?thesis
        using accepted by (intro exI [of _ ?receipt])
          (auto simp: delivery_rejected_def split: sum.splits)
    qed
  qed
qed

lemma dispatch_on_reads:
  assumes "dispatch_on to_json from_json i timeout_ms c = (Inr r, c')"
  obtains c1 request where "to_json i = Inr request" "length request \<le> MAX_FRAME_BYTES"
    "stream_in c1 = stream_in c" "read_frame from_json c1 = (Inr r, c')"
proof -
  obtain u c1 where 1: "write_frame to_json i c = (Inr u, c1)" and 2: "read_frame from_json c1 = (Inr r, c')"
    using assms by (auto simp: dispatch_on_def set_timeout_def io_bind_Inr_iff io_map_err_Inr_iff
        result_iff split: if_splits)
  obtain request where "to_json i = Inr request" "length request \<le> MAX_FRAME_BYTES"
    "stream_in c1 = stream_in c"
    by (rule write_frame_Inr [OF 1])
  with 2 that show ?thesis by blast
qed

text \<open>A successful dispatch has read a forwarding receipt.\<close>

lemma dispatch_callback_Inr:
  assumes "dispatch_callback env codec (\<lambda>_. Inr c) uri timeout_ms quiet u =
      (Inr x :: ('json, 'img) app_error + unit, u')"
    and "parse_uri (url_safe_decode codec) uri = (Inr i :: (io_error_kind, 'json) intent_error + open_intent)"
  shows "\<exists>r c1 c2 request. delivery_state r = Forwarded \<and> intent_to_json codec False i = Inr request \<and>
    length request \<le> MAX_FRAME_BYTES \<and> stream_in c1 = stream_in c \<and>
    read_frame (delivery_reader codec) c1 =
      (Inr r :: (io_error_kind, 'json) intent_error + intent_receipt, c2)"
proof -
  obtain root r where
    sent: "dispatch (\<lambda>_. Inr c) (intent_to_json codec False) (delivery_reader codec) root i (unat timeout_ms)
      = (Inr r :: (io_error_kind, 'json) intent_error + intent_receipt)"
    and r: "delivery_state r = Forwarded"
    using assms by (auto simp: dispatch_callback_def io_bind_Inr_iff io_lift_Inr_iff map_err_Inr_iff
        simp del: io_simps(3) split: if_splits)
  obtain c2 where "dispatch_on (intent_to_json codec False) (delivery_reader codec) i (unat timeout_ms) c =
      (Inr r :: (io_error_kind, 'json) intent_error + intent_receipt, c2)"
    using sent by (auto simp: dispatch_def try_bind_Inr_iff map_err_def) (metis prod.collapse)
  from dispatch_on_reads [OF this] r show ?thesis by metis
qed

text \<open>A connection that goes well, and one whose receipt cannot be written.\<close>

lemma serve_one_delivers:
  assumes "accept_intent (url_safe_decode codec) (intent_reader codec) (delivery_to_json codec False)
      endpoint s = (Inr i :: (io_error_kind, 'json) intent_error + open_intent, s1)"
    and "intent_to_json codec False i = Inr line" "stream_room (cli_stdout w) = None"
    and "delivery_to_json codec False (delivery_forwarded endpoint) = Inr doc"
    and "length doc \<le> MAX_FRAME_BYTES" "stream_room s1 = None"
  shows "serve_one codec (err_text :: ('json, 'img) app_error \<Rightarrow> string) endpoint s w =
    (Delivered i, s1\<lparr>stream_out := stream_out s1 @ frame_of doc\<rparr>,
     w\<lparr>cli_stdout := (cli_stdout w)\<lparr>stream_out := stream_out (cli_stdout w) @ line @ [CHR 0x0A]\<rparr>\<rparr>)"
proof -
  have "respond (delivery_to_json codec False) (delivery_forwarded endpoint) s1 =
      (Inr () :: (io_error_kind, 'json) intent_error + unit,
       s1\<lparr>stream_out := stream_out s1 @ frame_of doc\<rparr>)"
    using assms(4-6) by (simp add: respond_def write_frame_ok)
  with assms(1-3) show ?thesis
    by (simp add: serve_one_def serialized_json_def map_err_def write_output_unlimited Let_def)
qed

lemma serve_one_hangup:
  assumes "accept_intent (url_safe_decode codec) (intent_reader codec) (delivery_to_json codec False)
      endpoint s = (Inr i :: (io_error_kind, 'json) intent_error + open_intent, s1)"
    and "intent_to_json codec False i = Inr line" "stream_room (cli_stdout w) = None"
    and "delivery_to_json codec False (delivery_forwarded endpoint) = Inr doc"
    and "length doc \<le> MAX_FRAME_BYTES" "stream_room s1 = Some 0"
  shows "serve_one codec (err_text :: ('json, 'img) app_error \<Rightarrow> string) endpoint s w =
    (Ended (AppIntent (Io (stream_fault s1))), s1,
     w\<lparr>cli_stdout := (cli_stdout w)\<lparr>stream_out := stream_out (cli_stdout w) @ line @ [CHR 0x0A]\<rparr>\<rparr>)"
proof -
  have "length doc < 2 ^ 32"
    using assms(5) by (simp add: MAX_FRAME_BYTES_def)
  moreover have "write_all (to_be_bytes (of_nat (length doc))) s1 = (Inl (stream_fault s1), s1)"
    using assms(6) by (simp add: write_all_def to_be_bytes_def)
  ultimately have "respond (delivery_to_json codec False) (delivery_forwarded endpoint) s1 =
      (Inl (Io (stream_fault s1)) :: (io_error_kind, 'json) intent_error + unit, s1)"
    using assms(4,5) by (simp add: respond_def write_frame_def io_bind_def io_map_err_def map_err_def)
  with assms(1-3) show ?thesis
    by (simp add: serve_one_def serialized_json_def map_err_def write_output_unlimited Let_def)
qed

lemma read_frame_keeps_room:
  "stream_room (snd (read_frame from_json s)) = stream_room s"
  "stream_fault (snd (read_frame from_json s)) = stream_fault s"
  by (auto simp: read_frame_def io_bind_def io_map_err_def map_err_def Let_def read_exact_def
      split: sum.splits prod.splits if_splits)

lemma accept_intent_keeps:
  assumes "accept_intent dec from_json to_json endpoint s = (Inr i, s1)"
  shows "stream_room s1 = stream_room s" "stream_fault s1 = stream_fault s" "stream_out s1 = stream_out s"
  using accept_intent_Inr [OF assms] read_frame_keeps_room [of from_json s] by simp_all

text \<open>The intents a listener takes from the connections it gets.\<close>

definition taken :: "'json contract_codec \<Rightarrow> endpoint_id \<Rightarrow> stream \<Rightarrow> open_intent option" where
  "taken codec endpoint s =
     (case fst (accept_intent (url_safe_decode codec) (intent_reader codec) (delivery_to_json codec False)
         endpoint s) of
        Inl e \<Rightarrow> None
      | Inr i \<Rightarrow> Some i)"

fun connected :: "connection list \<Rightarrow> stream list" where
  "connected [] = []"
| "connected (AcceptFails e # conns) = connected conns"
| "connected (Connected s # conns) = s # connected conns"

lemma taken_cases:
  "taken codec endpoint s = Some i \<Longrightarrow> \<exists>s1. accept_intent (url_safe_decode codec) (intent_reader codec)
     (delivery_to_json codec False) endpoint s = (Inr i, s1)"
  "taken codec endpoint s = None \<Longrightarrow> \<exists>e s1. accept_intent (url_safe_decode codec) (intent_reader codec)
     (delivery_to_json codec False) endpoint s = (Inl e, s1)"
  by (auto simp: taken_def split: sum.splits) (metis prod.collapse)+

text \<open>Serving touches no file.\<close>

lemma write_output_files: "write_output None bs w = (r, w') \<Longrightarrow> cli_files w' = cli_files w"
  by (auto simp: write_output_def io_map_err_def on_stdout_def split: prod.splits)

lemma serve_one_files: "serve_one codec err_text endpoint s w = (v, s', w') \<Longrightarrow> cli_files w' = cli_files w"
  by (auto simp: serve_one_def Let_def dest: write_output_files split: prod.splits sum.splits)

lemma listen_loop_files:
  "listen_loop codec err_text endpoint once conns w = (r, served, w') \<Longrightarrow> cli_files w' = cli_files w"
proof (induction conns arbitrary: w r served w' rule: connected.induct)
  case (3 s conns)
  obtain v s1 w1 where one: "serve_one codec err_text endpoint s w = (v, s1, w1)"
    by (rule prod_cases3)
  obtain r1 served1 w2 where rest: "listen_loop codec err_text endpoint once conns w1 = (r1, served1, w2)"
    by (rule prod_cases3)
  from 3(1) [OF rest] serve_one_files [OF one] 3(2) one rest show ?case
    by (auto split: outcome.splits if_splits)
qed simp_all

section \<open>Properties\<close>

text \<open>C7: The callback is honest from end to end: when the dispatcher ends with success, its intent was
  addressed to the listener that served it, and the consumer's line for exactly this intent is on the
  listener's standard output.\<close>

theorem handoff_end_to_end:
  assumes "dispatch_callback env codec (\<lambda>_. Inr c) uri timeout_ms quiet u =
      (Inr x :: ('json, 'img) app_error + unit, u')"
    and "parse_uri (url_safe_decode codec) uri = (Inr i :: (io_error_kind, 'json) intent_error + open_intent)"
    and "serve_one codec (err_text :: ('json, 'img) app_error \<Rightarrow> string) endpoint s w = (v, s', w')"
    and "stream_out s = []" "intent_to_json codec False i = Inr request" "stream_in s = frame_of request"
    and "stream_in c = stream_out s'"
    and "frames_back (intent_of_json codec) (intent_to_json codec)"
    and "frames_back (delivery_of_json codec) (delivery_to_json codec)"
  shows "intent_endpoint i = endpoint \<and> (\<exists>p. carries_path (url_safe_decode codec) i p) \<and>
    stream_out (cli_stdout w') = stream_out (cli_stdout w) @ request @ [CHR 0x0A]"
proof -
  obtain r c1 c2 where r: "delivery_state r = Forwarded" and len: "length request \<le> MAX_FRAME_BYTES"
    and c1: "stream_in c1 = stream_out s'"
    and rd: "read_frame (delivery_reader codec) c1 =
      (Inr r :: (io_error_kind, 'json) intent_error + intent_receipt, c2)"
    using dispatch_callback_Inr [OF assms(1,2)] assms(5,7) by auto
  obtain receipt where answered: "answered codec receipt s s'"
    and forwarded: "delivery_state receipt = Forwarded \<longrightarrow> (\<exists>j bs t. read_frame (intent_reader codec) s = (Inr j, t) \<and>
      intent_endpoint j = endpoint \<and> (\<exists>p. carries_path (url_safe_decode codec) j p) \<and>
      intent_to_json codec False j = Inr bs \<and>
      stream_out (cli_stdout w') = stream_out (cli_stdout w) @ bs @ [CHR 0x0A])"
    using serve_one_answer [OF assms(3)] by blast
  have "r = receipt"
    by (rule answered_read [OF answered assms(4) c1 rd assms(9)])
  with r forwarded obtain j bs t where j: "read_frame (intent_reader codec) s = (Inr j, t)"
    "intent_endpoint j = endpoint" "\<exists>p. carries_path (url_safe_decode codec) j p"
    "intent_to_json codec False j = Inr bs"
    "stream_out (cli_stdout w') = stream_out (cli_stdout w) @ bs @ [CHR 0x0A]"
    by blast
  have "intent_reader codec request = Inr j"
    using read_frame_ok [of s request "[]" "intent_reader codec"] assms(6) len j(1)
    by (simp add: map_err_def split: sum.splits)
  then have "j = i"
    using assms(5,8) by (auto simp: intent_reader_def with_endpoint_Inr frames_back_def)
  with j assms(5) show ?thesis by simp
qed

text \<open>A codec for the messages of one handoff.\<close>

definition demo_endpoint :: endpoint_id where
  "demo_endpoint = replicate 32 (CHR ''a'')"

definition demo_intent :: open_intent where
  "demo_intent = unix_intent demo_endpoint ''L2E''"

definition demo_intent_codec :: "unit contract_codec" where
  "demo_intent_codec = (demo_codec (negotiate_capabilities_v1 []))
     \<lparr>intent_of_json := (\<lambda>_. Inr demo_intent),
      intent_to_json := (\<lambda>_ i. if i = demo_intent then Inr ''intent'' else Inl ()),
      delivery_of_json := (\<lambda>_. Inr (delivery_forwarded demo_endpoint)),
      delivery_to_json := (\<lambda>_ r. if r = delivery_forwarded demo_endpoint then Inr ''receipt'' else Inl ()),
      url_safe_decode := (\<lambda>v. if v = ''L2E'' then Some ''/a'' else None)\<rparr>"

lemma demo_endpoint_valid: "valid_endpoint demo_endpoint"
  by (simp add: demo_endpoint_def valid_endpoint_def ENDPOINT_HEX_LEN_def ENDPOINT_HEX_BYTES_def
      list_all_iff is_lower_hex_def is_digit_def)

lemma demo_intent_carries:
  "intent_endpoint demo_intent = demo_endpoint"
  "carries_path (url_safe_decode demo_intent_codec) demo_intent ''/a''"
  by (simp add: demo_intent_def unix_intent_def)
    (simp add: demo_intent_def demo_intent_codec_def carries_path_unix valid_path_def MAX_TARGET_BYTES_def)

lemma demo_codec_facts:
  "intent_to_json demo_intent_codec False demo_intent = Inr ''intent''"
  "delivery_to_json demo_intent_codec False (delivery_forwarded demo_endpoint) = Inr ''receipt''"
  "intent_reader demo_intent_codec bs = Inr demo_intent"
  "delivery_reader demo_intent_codec bs = Inr (delivery_forwarded demo_endpoint)"
  "frames_back (intent_of_json demo_intent_codec) (intent_to_json demo_intent_codec)"
  "frames_back (delivery_of_json demo_intent_codec) (delivery_to_json demo_intent_codec)"
  using demo_endpoint_valid demo_intent_carries(1)
  by (simp_all add: demo_intent_codec_def frames_back_def with_endpoint_Inr intent_reader_def
      delivery_reader_def delivery_forwarded_def)

lemma demo_accepts:
  "accept_intent (url_safe_decode demo_intent_codec) (intent_reader demo_intent_codec)
     (delivery_to_json demo_intent_codec False) demo_endpoint
     (open_stream UnexpectedEof (frame_of ''intent'')) =
   (Inr demo_intent :: (io_error_kind, unit) intent_error + open_intent, open_stream UnexpectedEof [])"
  using accept_intent_ok [OF _ _ demo_codec_facts(3) _ demo_intent_carries(2), of _ "''intent''"]
  by (simp add: open_stream_def MAX_FRAME_BYTES_def demo_intent_carries(1))

lemma demo_served:
  "serve_one demo_intent_codec (\<lambda>_ :: (unit, unit) app_error. []) demo_endpoint
     (open_stream UnexpectedEof (frame_of ''intent'')) (demo_cli [] []) =
   (Delivered demo_intent, (open_stream UnexpectedEof [])\<lparr>stream_out := frame_of ''receipt''\<rparr>,
    (demo_cli [] [])\<lparr>cli_stdout := (open_stream UnexpectedEof [])\<lparr>stream_out := ''intent'' @ [CHR 0x0A]\<rparr>\<rparr>)"
  using serve_one_delivers [OF demo_accepts demo_codec_facts(1) _ demo_codec_facts(2),
      of "demo_cli [] []" "\<lambda>_ :: (unit, unit) app_error. []"]
  by (simp add: demo_cli_def open_stream_def MAX_FRAME_BYTES_def)

definition demo_runtime_env :: probe_env where
  "demo_runtime_env = demo_probe_env\<lparr>probe_vars := [''XDG_RUNTIME_DIR'' \<mapsto> ''/run'']\<rparr>"

definition demo_uri :: string where
  "demo_uri = INTENT_URI_PREFIX_V1 @ demo_endpoint @ ''/'' @ ''L2E''"

lemma demo_uri_parsed:
  "parse_uri (url_safe_decode demo_intent_codec) demo_uri =
     (Inr demo_intent :: (io_error_kind, unit) intent_error + open_intent)"
proof -
  have "CHR ''?'' \<notin> set demo_uri" "CHR 0x23 \<notin> set demo_uri"
    by (simp_all add: demo_uri_def INTENT_URI_PREFIX_V1_def demo_endpoint_def)
  moreover have "valid_path ''/a''" "url_safe_decode demo_intent_codec ''L2E'' = Some ''/a''"
    by (simp_all add: valid_path_def MAX_TARGET_BYTES_def demo_intent_codec_def)
  ultimately show ?thesis
    unfolding parse_uri_Inr_iff
    by (intro conjI exI [of _ demo_endpoint] exI [of _ "''L2E''"] exI [of _ "''/a''"])
      (auto simp: demo_uri_def demo_endpoint_valid demo_intent_def)
qed

lemma demo_dispatched:
  "\<exists>u'. dispatch_callback demo_runtime_env demo_intent_codec
     (\<lambda>_. Inr (open_stream UnexpectedEof (frame_of ''receipt''))) demo_uri 100 True (demo_cli [] []) =
   (Inr () :: (unit, unit) app_error + unit, u')"
proof -
  have valid: "delivery_validate (delivery_forwarded demo_endpoint) =
      (Inr () :: (io_error_kind, unit) intent_error + unit)"
    by (simp add: delivery_validate_Inr delivery_forwarded_def MAX_FRAME_BYTES_def)
  have run: "dispatch_on (intent_to_json demo_intent_codec False) (delivery_reader demo_intent_codec) demo_intent 100
      (open_stream UnexpectedEof (frame_of ''receipt'')) =
    (Inr (delivery_forwarded demo_endpoint) :: (io_error_kind, unit) intent_error + intent_receipt,
     (open_stream UnexpectedEof (frame_of ''receipt''))\<lparr>stream_in := [],
       stream_out := [] @ frame_of ''intent''\<rparr>)"
    using dispatch_on_ok [of 100 "open_stream UnexpectedEof (frame_of ''receipt'')"
        "intent_to_json demo_intent_codec False" demo_intent "''intent''" "''receipt''"
        "delivery_reader demo_intent_codec" "delivery_forwarded demo_endpoint"] valid demo_codec_facts(1,4)
    by (simp add: open_stream_def MAX_FRAME_BYTES_def demo_intent_carries(1) delivery_forwarded_def)
  have "runtime_root (probe_vars demo_runtime_env ''XDG_RUNTIME_DIR'') =
      (Inr ''/run/terminal-interop/intent-v1'' :: (io_error_kind, unit) intent_error + path)"
    by (simp add: runtime_root_def demo_runtime_env_def path_join_def)
  moreover have "socket_path ''/run/terminal-interop/intent-v1'' demo_endpoint =
      (Inr (''/run/terminal-interop/intent-v1/'' @ demo_endpoint @ ''.sock'')
        :: (io_error_kind, unit) intent_error + path)"
    by (simp add: socket_path_def path_join_def demo_endpoint_def is_absolute_def get_at_def
        nth_append SOCKET_PATH_SOFT_LIMIT_def Let_def)
  ultimately show ?thesis
    using run valid demo_uri_parsed
    by (simp add: dispatch_callback_def io_bind_def dispatch_def demo_intent_carries(1) map_err_def
        delivery_forwarded_def)
qed

theorem handoff_end_to_end_witness:
  "\<exists>(v :: (unit, unit) outcome) s' w'. serve_one demo_intent_codec (\<lambda>_. []) demo_endpoint
      (open_stream UnexpectedEof (frame_of ''intent'')) (demo_cli [] []) = (v, s', w') \<and>
    stream_in (open_stream UnexpectedEof (frame_of ''receipt'')) = stream_out s' \<and>
    stream_out (cli_stdout w') = ''intent'' @ [CHR 0x0A]"
proof -
  obtain u' where "dispatch_callback demo_runtime_env demo_intent_codec
      (\<lambda>_. Inr (open_stream UnexpectedEof (frame_of ''receipt''))) demo_uri 100 True (demo_cli [] []) =
    (Inr () :: (unit, unit) app_error + unit, u')"
    using demo_dispatched by blast
  from handoff_end_to_end [OF this demo_uri_parsed demo_served _ demo_codec_facts(1) _ _ demo_codec_facts(5,6)]
  show ?thesis
    using demo_served by (simp add: open_stream_def demo_cli_def)
qed

text \<open>C15: The listener outlives whatever its clients send: as long as standard output and the receipts can be
  written, it never stops by itself, every intent that reads as one for it, in the order of arrival, has its line on
  standard output and its forwarding receipt, and connections that fail or send anything else change
  nothing for the others.\<close>

theorem listener_serves_all:
  assumes "\<And>i. intent_to_json codec False i = Inr (line i)"
    and "delivery_to_json codec False (delivery_forwarded endpoint) = Inr doc" "length doc \<le> MAX_FRAME_BYTES"
    and "stream_room (cli_stdout w) = None"
    and "list_all (\<lambda>s. stream_room s = None) (connected conns)"
    and "listen_loop codec (err_text :: ('json, 'img) app_error \<Rightarrow> string) endpoint False conns w = (r, served, w')"
  shows "r = None \<and>
    stream_out (cli_stdout w') = stream_out (cli_stdout w) @
      concat (map (\<lambda>i. line i @ [CHR 0x0A]) (List.map_filter (taken codec endpoint) (connected conns))) \<and>
    list_all2 (\<lambda>s s'. case taken codec endpoint s of
        Some i \<Rightarrow> stream_out s' = stream_out s @ frame_of doc
      | None \<Rightarrow> answered codec (delivery_rejected endpoint mismatch_detail) s s')
      (connected conns) served"
  using assms(4-6)
proof (induction conns arbitrary: w r served w' rule: connected.induct)
  case 1
  then show ?case by (simp add: List.map_filter_simps)
next
  case (2 e conns)
  then show ?case by simp
next
  case (3 s conns)
  have room: "stream_room s = None" "list_all (\<lambda>s. stream_room s = None) (connected conns)"
    using 3(3) by simp_all
  show ?case
  proof (cases "taken codec endpoint s")
    case None
    then obtain e s1 where bad: "accept_intent (url_safe_decode codec) (intent_reader codec)
        (delivery_to_json codec False) endpoint s =
        (Inl e :: (io_error_kind, 'json) intent_error + open_intent, s1)"
      using taken_cases(2) by blast
    then have "serve_one codec err_text endpoint s w = (Malformed e, s1, w)"
      by (simp add: serve_one_def)
    then obtain served' where rest: "served = s1 # served'"
      "listen_loop codec err_text endpoint False conns w = (r, served', w')"
      using 3(4) by (auto split: prod.splits)
    from 3(1) [OF 3(2) room(2) rest(2)] None accept_intent_answered [OF bad] show ?thesis
      by (simp add: rest(1) List.map_filter_simps)
  next
    case (Some i)
    then obtain s1 where good: "accept_intent (url_safe_decode codec) (intent_reader codec)
        (delivery_to_json codec False) endpoint s =
        (Inr i :: (io_error_kind, 'json) intent_error + open_intent, s1)"
      using taken_cases(1) by blast
    note keeps = accept_intent_keeps [OF good]
    let ?s' = "s1\<lparr>stream_out := stream_out s1 @ frame_of doc\<rparr>"
    let ?w1 = "w\<lparr>cli_stdout := (cli_stdout w)\<lparr>stream_out := stream_out (cli_stdout w) @ line i @ [CHR 0x0A]\<rparr>\<rparr>"
    have "serve_one codec err_text endpoint s w = (Delivered i, ?s', ?w1)"
      using assms(1-3) 3(2) room(1) keeps by (intro serve_one_delivers [OF good]) simp_all
    then obtain served' where rest: "served = ?s' # served'"
      "listen_loop codec err_text endpoint False conns ?w1 = (r, served', w')"
      using 3(4) by (auto split: prod.splits)
    have "stream_room (cli_stdout ?w1) = None"
      using 3(2) by simp
    from 3(1) [OF this room(2) rest(2)] Some keeps show ?thesis
      by (simp add: rest(1) List.map_filter_simps)
  qed
qed

definition demo_service_codec :: "unit contract_codec" where
  "demo_service_codec = demo_intent_codec\<lparr>intent_to_json := (\<lambda>_ _. Inr ''intent'')\<rparr>"

lemma demo_service_codec_sel [simp]:
  "url_safe_decode demo_service_codec = url_safe_decode demo_intent_codec"
  "delivery_to_json demo_service_codec = delivery_to_json demo_intent_codec"
  "intent_reader demo_service_codec = intent_reader demo_intent_codec"
  by (simp_all add: demo_service_codec_def intent_reader_def with_endpoint_def fun_eq_iff)

lemma demo_taken:
  "taken demo_service_codec demo_endpoint (open_stream UnexpectedEof (frame_of ''intent'')) = Some demo_intent"
  "taken demo_service_codec demo_endpoint (open_stream UnexpectedEof ''xx'') = None"
  using demo_accepts
  by (simp_all add: taken_def) (simp add: accept_intent_def read_frame_def io_bind_def io_map_err_def
      read_exact_def open_stream_def map_err_def)

theorem listener_serves_all_witness:
  "\<exists>r served w'. listen_loop demo_service_codec (\<lambda>_ :: (unit, unit) app_error. []) demo_endpoint False
      [AcceptFails NotFound, Connected (open_stream UnexpectedEof ''xx''),
       Connected (open_stream UnexpectedEof (frame_of ''intent''))] (demo_cli [] []) = (r, served, w') \<and>
    r = None \<and> stream_out (cli_stdout w') = ''intent'' @ [CHR 0x0A]"
proof -
  let ?conns = "[AcceptFails NotFound, Connected (open_stream UnexpectedEof ''xx''),
       Connected (open_stream UnexpectedEof (frame_of ''intent''))]"
  obtain r served w' where run: "listen_loop demo_service_codec (\<lambda>_ :: (unit, unit) app_error. [])
      demo_endpoint False ?conns (demo_cli [] []) = (r, served, w')"
    by (rule prod_cases3)
  have "r = None \<and> stream_out (cli_stdout w') = ''intent'' @ [CHR 0x0A]"
    using listener_serves_all [of demo_service_codec "\<lambda>_. ''intent''" demo_endpoint "''receipt''"
        "demo_cli [] []" ?conns, OF _ _ _ _ _ run] demo_taken
    by (simp add: demo_cli_def open_stream_def List.map_filter_simps MAX_FRAME_BYTES_def)
      (simp add: demo_service_codec_def demo_codec_facts)
  with run show ?thesis by blast
qed

text \<open>C38: One client that hangs up ends the listener: when the receipt of a good intent cannot be
  written, the consumer has its line, yet the command fails with the client's error, and no later
  connection is served, with or without \<open>--once\<close>.\<close>

theorem client_hangup_ends_listener:
  assumes "taken codec endpoint s = Some i" "intent_to_json codec False i = Inr line"
    and "delivery_to_json codec False (delivery_forwarded endpoint) = Inr doc" "length doc \<le> MAX_FRAME_BYTES"
    and "stream_room (cli_stdout w) = None" "stream_room s = Some 0"
  shows "\<exists>s' w'. listen_loop codec (err_text :: ('json, 'img) app_error \<Rightarrow> string) endpoint once
      (Connected s # conns) w = (Some (Inl (AppIntent (Io (stream_fault s)))), [s'], w') \<and>
    stream_out s' = stream_out s \<and>
    stream_out (cli_stdout w') = stream_out (cli_stdout w) @ line @ [CHR 0x0A]"
proof -
  obtain s1 where good: "accept_intent (url_safe_decode codec) (intent_reader codec)
      (delivery_to_json codec False) endpoint s =
      (Inr i :: (io_error_kind, 'json) intent_error + open_intent, s1)"
    using taken_cases(1) [OF assms(1)] by blast
  note keeps = accept_intent_keeps [OF good]
  have "stream_room s1 = Some 0"
    using assms(6) keeps by simp
  from serve_one_hangup [OF good assms(2,5,3,4) this, of err_text] keeps show ?thesis by simp
qed

lemma demo_hangup_taken:
  "taken demo_service_codec demo_endpoint
     ((open_stream (OtherIo ''broken pipe'') (frame_of ''intent''))\<lparr>stream_room := Some 0\<rparr>) = Some demo_intent"
proof -
  let ?s = "(open_stream (OtherIo ''broken pipe'') (frame_of ''intent''))\<lparr>stream_room := Some 0\<rparr>"
  have "accept_intent (url_safe_decode demo_intent_codec) (intent_reader demo_intent_codec)
      (delivery_to_json demo_intent_codec False) demo_endpoint ?s =
    (Inr demo_intent :: (io_error_kind, unit) intent_error + open_intent, ?s\<lparr>stream_in := []\<rparr>)"
    using accept_intent_ok [OF _ _ demo_codec_facts(3) _ demo_intent_carries(2), of ?s "''intent''"]
    by (simp add: open_stream_def MAX_FRAME_BYTES_def demo_intent_carries(1))
  then show ?thesis
    by (simp add: taken_def)
qed

theorem client_hangup_ends_listener_witness:
  "\<exists>s' w'. listen_loop demo_service_codec (\<lambda>_ :: (unit, unit) app_error. []) demo_endpoint False
      [Connected ((open_stream (OtherIo ''broken pipe'') (frame_of ''intent''))\<lparr>stream_room := Some 0\<rparr>),
       Connected (open_stream UnexpectedEof (frame_of ''intent''))] (demo_cli [] []) =
    (Some (Inl (AppIntent (Io (OtherIo ''broken pipe'')))), [s'], w')"
proof -
  have "intent_to_json demo_service_codec False demo_intent = Inr ''intent''"
    by (simp add: demo_service_codec_def)
  moreover have "delivery_to_json demo_service_codec False (delivery_forwarded demo_endpoint) = Inr ''receipt''"
    by (simp add: demo_codec_facts)
  moreover have "length ''receipt'' \<le> MAX_FRAME_BYTES" "stream_room (cli_stdout (demo_cli [] [])) = None"
    by (simp_all add: MAX_FRAME_BYTES_def demo_cli_def open_stream_def)
  ultimately show ?thesis
    using client_hangup_ends_listener [OF demo_hangup_taken, of "''intent''" "''receipt''" "demo_cli [] []"
        "\<lambda>_ :: (unit, unit) app_error. []" False
        "[Connected (open_stream UnexpectedEof (frame_of ''intent''))]"]
    by (auto simp: open_stream_def simp del: listen_loop.simps)
qed

text \<open>A listener that has ended has removed its socket and changed no other file since it was
  bound.\<close>

theorem listener_removes_socket:
  assumes "listen_for_intents env codec (err_text :: ('json, 'img) app_error \<Rightarrow> string) e once conns w =
      (Some r, served, w')"
    and "valid_endpoint e"
    and "runtime_root (probe_vars env ''XDG_RUNTIME_DIR'') = (Inr root :: (io_error_kind, 'json) intent_error + path)"
    and "listener_bind root e (cli_files w) = (Inr l :: (io_error_kind, 'json) intent_error + intent_listener, f)"
    and "faults f (RemoveFile (listener_socket_path l)) = None"
  shows "nodes (cli_files w') (listener_socket_path l) = None \<and>
    same_except {listener_socket_path l} f (cli_files w')"
proof -
  let ?start = "io_bind (io_lift (serialized_json (ready_to_json codec False) (ready_new (listener_endpoint l))))
      (write_output None) :: ('json, 'img, unit) cli_io"
  let ?loop = "\<lambda>w1. case ?start w1 of
      (Inl e, w2) \<Rightarrow> (Some (Inl e), [], w2)
    | (Inr _, w2) \<Rightarrow> listen_loop codec err_text (listener_endpoint l) once conns w2"
  let ?w1 = "w\<lparr>cli_files := f\<rparr>"
  have bound: "io_bind (io_lift (map_err AppIntent (endpoint_parse e)))
         (\<lambda>endpoint. io_bind (io_lift (map_err AppIntent (runtime_root (probe_vars env ''XDG_RUNTIME_DIR''))))
         (\<lambda>root. io_map_err AppIntent (on_files (listener_bind root endpoint)))) w =
      (Inr l :: ('json, 'img) app_error + intent_listener, ?w1)"
    using assms(2-4) by (simp add: io_bind_def io_map_err_def on_files_def map_err_def endpoint_parse_def
        valid_endpoint_def)
  obtain q served2 w3 where loop: "?loop ?w1 = (q, served2, w3)"
    by (rule prod_cases3)
  have "listen_for_intents env codec err_text e once conns w =
      (q, served2, if q = None then w3 else w3\<lparr>cli_files := listener_drop l (cli_files w3)\<rparr>)"
    by (simp only: listen_for_intents_def bound prod.case sum.case loop)
  then have end1: "q = Some r" "w' = w3\<lparr>cli_files := listener_drop l (cli_files w3)\<rparr>"
    using assms(1) by (auto split: if_splits)
  obtain a w2 where start: "?start ?w1 = (a, w2)"
    by (rule prod.exhaust)
  then have "cli_files w2 = f"
    by (cases "serialized_json (ready_to_json codec False) (ready_new (listener_endpoint l))
        :: ('json, 'img) app_error + bytes") (auto simp: io_bind_def dest: write_output_files)
  moreover have "cli_files w3 = cli_files w2"
    using loop listen_loop_files by (cases a) (auto simp: start)
  ultimately have "cli_files w3 = f" by simp
  with end1(2) assms(5) show ?thesis
    by (auto simp: listener_drop_def remove_file_def io_bind_def same_except_def)
qed

theorem listener_removes_socket_witness:
  "\<exists>w'. listen_for_intents demo_runtime_env demo_intent_codec (\<lambda>_ :: (unit, unit) app_error. [])
      demo_endpoint True [] (demo_cli [] []) = (Some (Inl (AppJson ())), [], w') \<and>
    nodes (cli_files w') (''/run/terminal-interop/intent-v1/'' @ demo_endpoint @ ''.sock'') = None"
proof -
  let ?root = "''/run/terminal-interop/intent-v1''"
  let ?socket = "''/run/terminal-interop/intent-v1/'' @ demo_endpoint @ ''.sock''"
  have chain: "dir_chain ?root = [?root, ''/run/terminal-interop'', ''/run'']"
    by (simp add: dir_chain_def upt_rec)
  have root: "runtime_root (probe_vars demo_runtime_env ''XDG_RUNTIME_DIR'') =
      (Inr ?root :: (io_error_kind, unit) intent_error + path)"
    by (simp add: runtime_root_def demo_runtime_env_def path_join_def)
  have socket: "socket_path ?root demo_endpoint = (Inr ?socket :: (io_error_kind, unit) intent_error + path)"
    by (simp add: socket_path_def path_join_def demo_endpoint_def is_absolute_def get_at_def
        nth_append SOCKET_PATH_SOFT_LIMIT_def Let_def)
  have "?socket \<notin> {?root, ''/run/terminal-interop'', ''/run''}"
    by (simp add: demo_endpoint_def)
  then obtain f where bound: "(listener_bind ?root demo_endpoint (cli_files (demo_cli [] []))
      :: ((io_error_kind, unit) intent_error + intent_listener) \<times> unix_world)
    = (Inr \<lparr>listener_socket_path = ?socket, listener_endpoint = demo_endpoint\<rparr>, f)"
    and f: "faults f = (\<lambda>_. None)"
    by (simp add: listener_bind_def prepare_runtime_root_def io_bind_def io_map_err_def demo_cli_def
        create_dir_all_def chain set_permissions_def symlink_metadata_def bind_socket_def fs_guard_def
        empty_world_def lookup_def follow_def put_node_def socket fs_exists_def)
  let ?w = "demo_cli [] []"
  have "io_bind (io_lift (map_err AppIntent (endpoint_parse demo_endpoint)))
      (\<lambda>endpoint. io_bind (io_lift (map_err AppIntent
          (runtime_root (probe_vars demo_runtime_env ''XDG_RUNTIME_DIR''))))
      (\<lambda>root. io_map_err AppIntent (on_files (listener_bind root endpoint)))) ?w =
    (Inr \<lparr>listener_socket_path = ?socket, listener_endpoint = demo_endpoint\<rparr> :: (unit, unit) app_error + _,
     ?w\<lparr>cli_files := f\<rparr>)"
    using demo_endpoint_valid bound root
    by (simp add: io_bind_def io_map_err_def on_files_def map_err_def endpoint_parse_def valid_endpoint_def)
  then have "\<exists>w'. listen_for_intents demo_runtime_env demo_intent_codec (\<lambda>_ :: (unit, unit) app_error. [])
      demo_endpoint True [] ?w = (Some (Inl (AppJson ())), [], w')"
    by (simp add: listen_for_intents_def serialized_json_def io_bind_def [of "io_lift _"] map_err_def
        demo_intent_codec_def demo_codec_def)
  then obtain w' where run: "listen_for_intents demo_runtime_env demo_intent_codec
      (\<lambda>_ :: (unit, unit) app_error. []) demo_endpoint True [] ?w = (Some (Inl (AppJson ())), [], w')"
    by blast
  from listener_removes_socket [OF run demo_endpoint_valid root bound] run f show ?thesis by auto
qed

end
