(* ===== verification/Preview_Inputs.thy ===== *)
theory Preview_Inputs
  imports Cli_Commands Window_Geometry
begin

text \<open>
  What a preview needs before it draws (\<open>preview.rs\<close>): the artifact, loaded from a path or a
  reference; the renderer, chosen from live receipts; the size of the viewport; and the text of a
  label and of the lines of a page.  The image crates are fields of \<open>preview_codec\<close>, the sizes the
  kernel reports are fields of \<open>preview_env\<close>.
\<close>

section \<open>Arguments\<close>

definition DEFAULT_MAX_TEXT_BYTES :: nat where "DEFAULT_MAX_TEXT_BYTES = 8 * 1024 * 1024"

definition DEFAULT_GEOMETRY_TIMEOUT_MS :: u64 where "DEFAULT_GEOMETRY_TIMEOUT_MS = 500"

datatype preview_backend = AutoBackend | KgpBackend | SixelBackend

datatype preview_transport = PreviewAuto | PreviewDirect | PreviewTmux

record preview_args =
  preview_path :: path
  preview_backend :: preview_backend
  preview_transport :: preview_transport
  preview_tty :: path
  preview_timeout_ms :: u64
  preview_transport_timeout_ms :: u64
  preview_geometry_timeout_ms :: u64
  preview_exit_after_ms :: "u64 option"

datatype renderer = Kgp | Sixel

datatype prepared_artifact = Raster raster_artifact | TextPage string

text \<open>\<open>env_size\<close> is what the \<open>terminal_size\<close> crate reports, \<open>env_winsize\<close> the columns, rows and
  pixels of \<open>TIOCGWINSZ\<close>.\<close>

record preview_env =
  env_probe :: probe_env
  env_process_id :: u32
  env_size :: "(u16 \<times> u16) option"
  env_winsize :: "(u16 \<times> u16 \<times> u16 \<times> u16) option"

record ('fmt, 'img, 'buf, 'opts, 'six) preview_codec =
  codec_guess_format :: "bytes \<Rightarrow> io_error_kind + 'fmt"
  codec_io_error :: "io_error_kind \<Rightarrow> 'img"
  codec_decode_rgba8 :: "'fmt \<Rightarrow> decoder_limits \<Rightarrow> bytes \<Rightarrow> 'img + (u32 \<times> u32 \<times> bytes)"
  codec_encode_png :: "bytes \<Rightarrow> u32 \<Rightarrow> u32 \<Rightarrow> 'img + bytes"
  codec_from_raw :: "u32 \<Rightarrow> u32 \<Rightarrow> bytes \<Rightarrow> 'buf option"
  codec_resize :: "'buf \<Rightarrow> u32 \<Rightarrow> u32 \<Rightarrow> bytes"
  codec_sixel_encode :: "bytes \<Rightarrow> nat \<Rightarrow> nat \<Rightarrow> 'opts \<Rightarrow> 'six + string"
  codec_sixel_options :: 'opts
  codec_sixel_text :: "'six \<Rightarrow> string"

definition resolved_transport :: "preview_env \<Rightarrow> preview_transport \<Rightarrow> transport_kind" where
  "resolved_transport env requested =
     (case requested of
        PreviewAuto \<Rightarrow> if probe_vars (env_probe env) ''TMUX'' \<noteq> None then TmuxPassthrough else Direct
      | PreviewDirect \<Rightarrow> Direct
      | PreviewTmux \<Rightarrow> TmuxPassthrough)"

definition common_probe_args :: "preview_args \<Rightarrow> transport_kind \<Rightarrow> tty_probe_args" where
  "common_probe_args args transport =
     \<lparr>probe_timeout_ms = preview_timeout_ms args,
      probe_max_response_bytes = DEFAULT_MAX_RESPONSE_BYTES, probe_tty = preview_tty args,
      probe_transport = transport, probe_transport_timeout_ms = preview_transport_timeout_ms args,
      probe_output = None, probe_pretty = False\<rparr>"

definition transport_payload :: "transport_kind \<Rightarrow> bytes \<Rightarrow> bytes" where
  "transport_payload transport payload =
     (case transport of Direct \<Rightarrow> payload | TmuxPassthrough \<Rightarrow> wrap_passthrough payload)"

section \<open>The renderer\<close>

text \<open>The summary shows three enumerations by their names.\<close>

fun availability_name :: "availability \<Rightarrow> string" where
  "availability_name Available = ''Available''"
| "availability_name Unavailable = ''Unavailable''"
| "availability_name AvailabilityUnknown = ''Unknown''"

fun conformance_name :: "conformance \<Rightarrow> string" where
  "conformance_name Conformant = ''Conformant''"
| "conformance_name Nonconformant = ''Nonconformant''"
| "conformance_name ConformanceNotApplicable = ''NotApplicable''"
| "conformance_name Inconclusive = ''Inconclusive''"

fun readiness_name :: "transport_readiness \<Rightarrow> string" where
  "readiness_name NotRequired = ''NotRequired''"
| "readiness_name Ready = ''Ready''"
| "readiness_name ReadinessUnknown = ''Unknown''"

definition receipt_summary :: "probe_receipt \<Rightarrow> string" where
  "receipt_summary r =
     ''availability='' @ availability_name (assessed_availability (receipt_assessment r))
     @ '', conformance='' @ conformance_name (assessed_conformance (receipt_assessment r))
     @ '', transport='' @ readiness_name (transport_readiness (context_transport (receipt_context r)))"

definition probe_kgp ::
  "preview_env \<Rightarrow> preview_args \<Rightarrow> transport_kind \<Rightarrow> ('json, 'img, probe_receipt) tty_io" where
  "probe_kgp env args transport =
     kgp_receipt (env_probe env)
       \<lparr>kgp_correlation_id = max (env_process_id env) 1, kgp_common = common_probe_args args transport\<rparr>"

definition probe_sixel ::
  "preview_env \<Rightarrow> preview_args \<Rightarrow> transport_kind \<Rightarrow> ('json, 'img, probe_receipt) tty_io" where
  "probe_sixel env args transport =
     sixel_receipt (env_probe env) \<lparr>sixel_common = common_probe_args args transport\<rparr>"

definition select_renderer ::
  "preview_env \<Rightarrow> preview_args \<Rightarrow> transport_kind \<Rightarrow> ('json, 'img, renderer) tty_io" where
  "select_renderer env args transport =
     (case preview_backend args of
        KgpBackend \<Rightarrow> io_bind (probe_kgp env args transport)
          (\<lambda>kgp. if receipt_is_eligible kgp then io_return Kgp
            else io_fail (NoPixelRenderer (receipt_summary kgp) ''not_probed''))
      | SixelBackend \<Rightarrow> io_bind (probe_sixel env args transport)
          (\<lambda>sixel. if receipt_is_eligible sixel then io_return Sixel
            else io_fail (NoPixelRenderer ''not_probed'' (receipt_summary sixel)))
      | AutoBackend \<Rightarrow> io_bind (probe_kgp env args transport)
          (\<lambda>kgp. if receipt_is_eligible kgp then io_return Kgp
            else io_bind (probe_sixel env args transport)
              (\<lambda>sixel. if receipt_is_eligible sixel then io_return Sixel
                else io_fail (NoPixelRenderer (receipt_summary kgp) (receipt_summary sixel)))))"

section \<open>The artifact\<close>

definition registry_path ::
  "preview_env \<Rightarrow> ('st, 'json) ref_env \<Rightarrow> (registry \<Rightarrow> ('json, path) reg_io)
     \<Rightarrow> ('json, 'img, path) cli_io" where
  "registry_path env renv resolver =
     io_bind (io_lift (map_err AppRegistry
         (discover (probe_vars (env_probe env) ''TERM_INTEROP_STATE_DIR'')
           (probe_vars (env_probe env) ''XDG_STATE_HOME'') (probe_vars (env_probe env) ''HOME''))))
       (\<lambda>reg. io_map_err AppRegistry (on_files (resolver reg)))"

definition prepared :: "('fmt, 'img, 'buf, 'opts, 'six) preview_codec \<Rightarrow> bytes
     \<Rightarrow> ('json, 'img) app_error + prepared_artifact" where
  "prepared codec bs =
     (case decode_raster (codec_guess_format codec) (codec_io_error codec) (codec_decode_rgba8 codec)
         (codec_encode_png codec) bs default_raster_limits of
        Inr raster \<Rightarrow> Inr (Raster raster)
      | Inl image_error \<Rightarrow>
          try_bind (map_err (\<lambda>_. AppArtifact image_error)
              (sanitize_text bs DEFAULT_MAX_TEXT_BYTES :: 'img artifact_error + string))
            (\<lambda>str. Inr (TextPage str)))"

text \<open>The file behind the canonical path.  Its size is checked before and after reading it.\<close>

definition load_file ::
  "('fmt, 'img, 'buf, 'opts, 'six) preview_codec \<Rightarrow> path
     \<Rightarrow> ('json, 'img, path \<times> prepared_artifact) cli_io" where
  "load_file codec canonical =
     io_bind (io_map_err AppIo (on_files (open_file canonical)))
     (\<lambda>opened.
       if node_kind opened \<noteq> RegularFile then io_fail (AppNotRegularFile canonical)
       else if DEFAULT_MAX_INPUT_BYTES < length (node_bytes opened)
       then io_fail (PreviewInputLimit (u64_of_usize (length (node_bytes opened))) DEFAULT_MAX_INPUT_BYTES)
       else io_bind (io_map_err AppIo (on_files (read_file canonical opened)))
     (\<lambda>content. let bs = take (DEFAULT_MAX_INPUT_BYTES + 1) content in
       if DEFAULT_MAX_INPUT_BYTES < length bs
       then io_fail (PreviewInputLimit (u64_of_usize (length bs)) DEFAULT_MAX_INPUT_BYTES)
       else io_bind (io_lift (prepared codec bs)) (\<lambda>artifact. io_return (canonical, artifact))))"

definition requested_path ::
  "preview_env \<Rightarrow> ('st, 'json) ref_env \<Rightarrow> path \<Rightarrow> ('json, 'img, path) cli_io" where
  "requested_path env renv p =
     (if p = ''@latest'' then registry_path env renv (resolve_latest renv)
      else if utf8_valid p \<and> (prefix ''@'' p \<or> prefix ARTIFACT_REF_URI_PREFIX p)
      then registry_path env renv (\<lambda>reg. resolve renv reg p)
      else io_return p)"

definition load_artifact ::
  "preview_env \<Rightarrow> ('st, 'json) ref_env \<Rightarrow> ('fmt, 'img, 'buf, 'opts, 'six) preview_codec \<Rightarrow> path
     \<Rightarrow> ('json, 'img, path \<times> prepared_artifact) cli_io" where
  "load_artifact env renv codec p =
     io_bind (requested_path env renv p)
       (\<lambda>requested. io_bind (io_map_err AppIo (on_files (canonicalize requested))) (load_file codec))"

section \<open>The viewport\<close>

definition geometry_stop_reason :: "(bytes \<Rightarrow> string) \<Rightarrow> bytes \<Rightarrow> stop_reason option" where
  "geometry_stop_reason enc response =
     (if parse_window_pixels enc response \<noteq> [] \<and> parse_window_cells enc response \<noteq> []
      then Some CapabilityAndBarrierObserved else None)"

definition validated_tty_pixels ::
  "u16 \<Rightarrow> u16 \<Rightarrow> u16 \<Rightarrow> u16 \<Rightarrow> u16 \<Rightarrow> u16 \<Rightarrow> u32 option \<times> u32 option" where
  "validated_tty_pixels columns rows observed_columns observed_rows pixel_width pixel_height =
     (if columns \<noteq> observed_columns \<or> rows \<noteq> observed_rows \<or> pixel_width = 0 \<or> pixel_height = 0
      then (None, None)
      else (Some (ucast pixel_width), Some (ucast pixel_height)))"

definition observe_viewport ::
  "preview_env \<Rightarrow> preview_args \<Rightarrow> transport_kind \<Rightarrow> ('json, 'img, viewport) tty_io" where
  "observe_viewport env args transport =
     io_bind (tty_io_call (OpenTty (preview_tty args)))
     (\<lambda>_. io_bind (io_lift (ok_or (TerminalGeometryUnavailable (preview_tty args)) (env_size env)))
     (\<lambda>(columns, rows).
       let (tty_pixel_width, tty_pixel_height) =
         (case env_winsize env of
            None \<Rightarrow> (None, None)
          | Some (col, row, xpixel, ypixel) \<Rightarrow>
              validated_tty_pixels columns rows col row xpixel ypixel) in
       if tty_pixel_width \<noteq> None \<and> tty_pixel_height \<noteq> None
       then io_return
         \<lparr>viewport_columns = columns, viewport_rows = rows, viewport_pixel_width = tty_pixel_width,
          viewport_pixel_height = tty_pixel_height\<rparr>
       else
         io_bind (execute_tty_exchange (preview_tty args) (transport_payload transport build_geometry_query)
           (unat (preview_geometry_timeout_ms args) * 1000000) DEFAULT_MAX_RESPONSE_BYTES
           (geometry_stop_reason (probe_encode (env_probe env))))
         (\<lambda>live.
           let pixels = get_at (parse_window_pixels (probe_encode (env_probe env)) (live_response live)) 0;
               cells = get_at (parse_window_cells (probe_encode (env_probe env)) (live_response live)) 0;
               same_coordinate_surface =
                 (case cells of None \<Rightarrow> False
                  | Some observed \<Rightarrow> cells_columns observed = columns \<and> cells_rows observed = rows)
           in io_return
             \<lparr>viewport_columns = columns, viewport_rows = rows,
              viewport_pixel_width =
                (if same_coordinate_surface then map_option pixels_width pixels else None),
              viewport_pixel_height =
                (if same_coordinate_surface then map_option pixels_height pixels else None)\<rparr>)))"

section \<open>Labels and lines\<close>

text \<open>\<open>Path::file_name\<close>: the last component, if it is a name.\<close>

definition file_name :: "path \<Rightarrow> path option" where
  "file_name p =
     (case rev (filter (\<lambda>c. c \<noteq> [] \<and> c \<noteq> ''.'') (split_on (CHR ''/'') p)) of
        [] \<Rightarrow> None
      | c # _ \<Rightarrow> if c = ''..'' then None else Some c)"

definition safe_label :: "path \<Rightarrow> u16 \<Rightarrow> string" where
  "safe_label p columns =
     encode_chars (take (unat columns)
       (map (\<lambda>c. if is_control c then replacement_char else c)
         (decode_lossy (unwrap_or (file_name p) p))))"

text \<open>\<open>str::lines\<close>: a line ends with a line feed, with a carriage return before it or not.\<close>

definition strip_return :: "nat list \<Rightarrow> nat list" where
  "strip_return cs = (if cs \<noteq> [] \<and> last cs = 0x0D then butlast cs else cs)"

function text_lines :: "nat list \<Rightarrow> nat list list" where
  "text_lines cs =
     (if cs = [] then []
      else case position (\<lambda>c. c = 0x0A) cs of
        None \<Rightarrow> [cs]
      | Some i \<Rightarrow> strip_return (take i cs) # text_lines (drop (i + 1) cs))"
  by pat_completeness auto
termination
  by (relation "measure length") auto

declare text_lines.simps [simp del]

definition wrapped_text_lines :: "string \<Rightarrow> u16 \<Rightarrow> string list" where
  "wrapped_text_lines str columns =
     (let width = unat (max columns 1);
          output = concat (map (\<lambda>line. if line = [] then [[]] else map encode_chars (chunks width line))
            (text_lines (decode_lossy str)))
      in if output = [] then [[]] else output)"

section \<open>Lemmas\<close>

text \<open>The order of preference of the automatic choice: KGP before Sixel.\<close>

instantiation renderer :: linorder
begin

definition less_eq_renderer :: "renderer \<Rightarrow> renderer \<Rightarrow> bool" where
  "less_eq_renderer a b \<longleftrightarrow> a = Kgp \<or> b = Sixel"

definition less_renderer :: "renderer \<Rightarrow> renderer \<Rightarrow> bool" where
  "less_renderer a b \<longleftrightarrow> a = Kgp \<and> b = Sixel"

instance
proof
  fix a b c :: renderer
  show "a < b \<longleftrightarrow> a \<le> b \<and> \<not> b \<le> a" "a \<le> a" "a \<le> b \<or> b \<le> a"
    by (cases a; cases b; simp add: less_eq_renderer_def less_renderer_def)+
  show "a \<le> b \<Longrightarrow> b \<le> c \<Longrightarrow> a \<le> c" "a \<le> b \<Longrightarrow> b \<le> a \<Longrightarrow> a = b"
    by (cases a; cases b; cases c; simp add: less_eq_renderer_def)+
qed

end

text \<open>What the choice has to be: the first renderer in this order that the policy allows and that is
  eligible.\<close>

fun allowed :: "preview_backend \<Rightarrow> renderer \<Rightarrow> bool" where
  "allowed AutoBackend r \<longleftrightarrow> True"
| "allowed KgpBackend r \<longleftrightarrow> r = Kgp"
| "allowed SixelBackend r \<longleftrightarrow> r = Sixel"

definition best_renderer :: "preview_backend \<Rightarrow> (renderer \<Rightarrow> bool) \<Rightarrow> renderer option" where
  "best_renderer backend eligible =
     (let rs = filter (\<lambda>r. allowed backend r \<and> eligible r) [Kgp, Sixel] in
      if rs = [] then None else Some (Min (set rs)))"

lemma best_renderer_simps [simp]:
  "best_renderer AutoBackend eligible =
     (if eligible Kgp then Some Kgp else if eligible Sixel then Some Sixel else None)"
  "best_renderer KgpBackend eligible = (if eligible Kgp then Some Kgp else None)"
  "best_renderer SixelBackend eligible = (if eligible Sixel then Some Sixel else None)"
  by (simp_all add: best_renderer_def min_def less_eq_renderer_def)

text \<open>Reading the registry changes nothing.\<close>

lemma resolve_latest_Inr:
  fixes renv :: "('st, 'json) ref_env"
  assumes "resolve_latest renv reg w = (Inr q, w')"
  shows "\<exists>f. lookup w (latest_path reg) = Some f \<and> resolve renv reg (trim (node_bytes f)) w = (Inr q, w')"
proof -
  obtain f bs v where "open_file (latest_path reg) w = (Inr f, w)" "read_file (latest_path reg) f w = (Inr bs, w)"
    and utf8: "ok_or (RegistryIo InvalidData) (from_utf8 bs) = (Inr v :: 'json registry_error + string)"
    and run: "resolve renv reg (trim v) w = (Inr q, w')"
    using assms by (auto simp: resolve_latest_def reg_fs_def result_iff simp del: io_simps)
  moreover have "v = bs"
    using utf8 by (auto simp: ok_or_def from_utf8_def split: option.splits if_splits)
  ultimately show ?thesis
    by (auto simp: fs_Inr)
qed

text \<open>The file shown for a reference is the one its entry records: the entry under the token that the
  reference, or for \<open>@latest\<close> the pointer of the registry, names; the path in the entry; its identity.\<close>

definition registered_as ::
  "('st, 'json) ref_env \<Rightarrow> registry \<Rightarrow> unix_world \<Rightarrow> path \<Rightarrow> path \<Rightarrow> file_node \<Rightarrow> bool" where
  "registered_as renv reg w reference q n \<longleftrightarrow>
     (\<exists>s t entry.
        (if reference = ''@latest'' then \<exists>f. lookup w (latest_path reg) = Some f \<and> s = trim (node_bytes f)
         else s = reference) \<and>
        parse_token s = (Inr t :: 'json registry_error + string) \<and>
        read_entry renv reg t w = (Inr entry, w) \<and> b64_decode renv (ref_path_base64 entry) = Some q \<and>
        fingerprint renv n = ref_identity entry)"

lemma resolve_registered:
  fixes renv :: "('st, 'json) ref_env"
  assumes "resolve renv reg s w = (Inr q, w')"
    and "if reference = ''@latest'' then \<exists>f. lookup w (latest_path reg) = Some f \<and> s = trim (node_bytes f)
      else s = reference"
  shows "w' = w \<and> (\<exists>n. lookup w q = Some n \<and> registered_as renv reg w reference q n)"
proof -
  from resolve_Inr [OF assms(1)] obtain t entry n where
    "parse_token s = (Inr t :: 'json registry_error + string)" "read_entry renv reg t w = (Inr entry, w)"
    "b64_decode renv (ref_path_base64 entry) = Some q" "lookup w q = Some n"
    "fingerprint renv n = ref_identity entry" "w' = w"
    by blast
  with assms(2) show ?thesis
    unfolding registered_as_def by blast
qed

text \<open>The registry the environment names.\<close>

definition discovered :: "preview_env \<Rightarrow> registry option" where
  "discovered env =
     (case discover (probe_vars (env_probe env) ''TERM_INTEROP_STATE_DIR'')
         (probe_vars (env_probe env) ''XDG_STATE_HOME'') (probe_vars (env_probe env) ''HOME'') of
        Inr reg \<Rightarrow> Some reg | Inl (e :: unit registry_error) \<Rightarrow> None)"

lemma discover_Inr:
  "discover (probe_vars (env_probe env) ''TERM_INTEROP_STATE_DIR'')
      (probe_vars (env_probe env) ''XDG_STATE_HOME'') (probe_vars (env_probe env) ''HOME'') =
    (Inr reg :: 'json registry_error + registry) \<longleftrightarrow> discovered env = Some reg"
  by (auto simp: discovered_def discover_def ok_or_def split: option.splits)

lemma registry_path_Inr:
  fixes renv :: "('st, 'json) ref_env"
  assumes "registry_path env renv resolver w = (Inr q :: ('json, 'img) app_error + path, w')"
    and "\<And>reg. resolver reg =
      (if reference = ''@latest'' then resolve_latest renv reg else resolve renv reg reference)"
  shows "w' = w \<and> (\<exists>reg n. discovered env = Some reg \<and> lookup (cli_files w) q = Some n \<and>
    registered_as renv reg (cli_files w) reference q n)"
proof -
  obtain reg f where reg: "discovered env = Some reg" and run: "resolver reg (cli_files w) = (Inr q, f)"
    and w': "w' = w\<lparr>cli_files := f\<rparr>"
    using assms(1) by (auto simp: registry_path_def io_bind_Inr_iff io_map_err_Inr_iff on_Inr io_lift_Inr_iff
        map_err_Inr discover_Inr)
  have "\<exists>s. resolve renv reg s (cli_files w) = (Inr q, f) \<and>
      (if reference = ''@latest'' then \<exists>f. lookup (cli_files w) (latest_path reg) = Some f \<and> s = trim (node_bytes f)
       else s = reference)"
    using run assms(2) [of reg] resolve_latest_Inr [of renv reg "cli_files w" q f] by (auto split: if_splits)
  then obtain s where "resolve renv reg s (cli_files w) = (Inr q, f)"
    "if reference = ''@latest'' then \<exists>f. lookup (cli_files w) (latest_path reg) = Some f \<and> s = trim (node_bytes f)
       else s = reference"
    by blast
  from resolve_registered [OF this] reg w' show ?thesis
    by auto
qed

text \<open>A path is a reference when the registry is asked.\<close>

definition is_reference :: "path \<Rightarrow> bool" where
  "is_reference p \<longleftrightarrow> utf8_valid p \<and> (prefix ''@'' p \<or> prefix ARTIFACT_REF_URI_PREFIX p)"

lemma latest_is_reference: "is_reference ''@latest''"
proof -
  have "list_all ascii_byte ''@latest''"
    by (simp add: ascii_byte_def)
  then show ?thesis
    by (simp add: is_reference_def utf8_valid_ascii)
qed

lemma load_file_Inr:
  fixes a :: prepared_artifact
  shows "load_file codec p w = (Inr (q, a) :: ('json, 'img) app_error + path \<times> prepared_artifact, w') \<longleftrightarrow>
     q = p \<and> w' = w \<and> faults (cli_files w) (OpenFile p) = None \<and> faults (cli_files w) (ReadFile p) = None \<and>
     (\<exists>n. lookup (cli_files w) p = Some n \<and> node_kind n = RegularFile \<and>
        length (node_bytes n) \<le> DEFAULT_MAX_INPUT_BYTES \<and>
        prepared codec (node_bytes n) = (Inr a :: ('json, 'img) app_error + prepared_artifact))"
proof -
  have kind: "openable n" "node_kind n \<noteq> Directory" if "node_kind n = RegularFile" for n
    using that by (simp_all add: openable_def)
  show ?thesis
    by (auto simp: load_file_def io_bind_Inr_iff io_map_err_Inr_iff on_Inr fs_Inr Let_def kind not_less
        split: if_splits)
qed

lemma requested_path_Inr:
  fixes renv :: "('st, 'json) ref_env"
  assumes "requested_path env renv p w = (Inr q :: ('json, 'img) app_error + path, w')"
  shows "w' = w \<and> (if is_reference p
    then \<exists>reg n. discovered env = Some reg \<and> lookup (cli_files w) q = Some n \<and>
      registered_as renv reg (cli_files w) p q n
    else q = p)"
proof (cases "is_reference p")
  case True
  then have "requested_path env renv p = (registry_path env renv
      (\<lambda>reg. if p = ''@latest'' then resolve_latest renv reg else resolve renv reg p) :: ('json, 'img, path) cli_io)"
    by (auto simp: requested_path_def is_reference_def)
  with assms True show ?thesis
    using registry_path_Inr [of env renv _ w q w' p] by auto
next
  case False
  then have "p \<noteq> ''@latest''"
    using latest_is_reference by auto
  with False assms show ?thesis
    by (auto simp: requested_path_def is_reference_def)
qed

section \<open>Lemmas on lines\<close>

lemma text_lines_simps [simp]:
  "text_lines [] = []"
  "0x0A \<notin> set cs \<Longrightarrow> cs \<noteq> [] \<Longrightarrow> text_lines cs = [cs]"
  "0x0A \<notin> set cs \<Longrightarrow> text_lines (cs @ 0x0A # ds) = strip_return cs # text_lines ds"
proof -
  show "text_lines [] = []"
    by (simp add: text_lines.simps)
  show "0x0A \<notin> set cs \<Longrightarrow> cs \<noteq> [] \<Longrightarrow> text_lines cs = [cs]"
    using position_None_iff [of "\<lambda>c. c = 0x0A" cs] by (subst text_lines.simps) auto
  assume "0x0A \<notin> set cs"
  then have "position (\<lambda>c. c = 0x0A) (cs @ 0x0A # ds) = Some (length cs)"
    by (intro position_at_sep) auto
  then show "text_lines (cs @ 0x0A # ds) = strip_return cs # text_lines ds"
    by (subst text_lines.simps) simp
qed

lemma line_cases:
  obtains (Nil) "cs = []" | (Last) "0x0A \<notin> set cs" "cs \<noteq> []"
  | (Break) ls ds where "cs = ls @ 0x0A # ds" "0x0A \<notin> set ls" "length ds < length (cs :: nat list)"
proof (cases "0x0A \<in> set cs")
  case True
  then obtain ls ds where "cs = ls @ 0x0A # ds" "0x0A \<notin> set ls"
    by (auto dest: split_list_first)
  then show ?thesis
    by (intro Break) auto
qed (use Nil Last in blast)

lemma set_strip_return: "set (strip_return cs) \<subseteq> set cs"
  by (auto simp: strip_return_def dest: in_set_butlastD)

lemma text_lines_sound:
  "line \<in> set (text_lines cs) \<Longrightarrow> 0x0A \<notin> set line \<and> set line \<subseteq> set cs"
proof (induction "length cs" arbitrary: cs rule: less_induct)
  case less
  show ?case
  proof (cases cs rule: line_cases)
    case (Break ls ds)
    with less.prems consider "line = strip_return ls" | "line \<in> set (text_lines ds)"
      by auto
    then show ?thesis
      using less.hyps [OF Break(3)] Break(1,2) set_strip_return [of ls] by cases auto
  qed (use less.prems in auto)
qed

lemma text_lines_content:
  "0x0D \<notin> set cs \<Longrightarrow> concat (text_lines cs) = filter (\<lambda>c. c \<noteq> 0x0A) cs"
proof (induction "length cs" arbitrary: cs rule: less_induct)
  case less
  show ?case
  proof (cases cs rule: line_cases)
    case (Break ls ds)
    then have "strip_return ls = ls"
      using less.prems by (auto simp: strip_return_def dest: last_in_set)
    moreover have "filter (\<lambda>c. c \<noteq> 0x0A) ls = ls"
      using Break(2) by (auto simp: filter_id_conv)
    ultimately show ?thesis
      using less.hyps [OF Break(3)] less.prems Break by simp
  qed (auto intro!: filter_True [symmetric])
qed

text \<open>The lines of a page as characters.\<close>

definition wrapped_chars :: "nat \<Rightarrow> nat list \<Rightarrow> nat list list" where
  "wrapped_chars width cs =
     (let output = concat (map (\<lambda>line. if line = [] then [[]] else chunks width line) (text_lines cs))
      in if output = [] then [[]] else output)"

lemma wrapped_text_lines_chars:
  "wrapped_text_lines str columns = map encode_chars (wrapped_chars (unat (max columns 1)) (decode_lossy str))"
  by (auto simp: wrapped_text_lines_def wrapped_chars_def Let_def map_concat comp_def if_distrib
      intro!: arg_cong [where f = concat])

lemma wrapped_chars_lines:
  assumes "0 < width" "l \<in> set (wrapped_chars width cs)"
  shows "length l \<le> width \<and> 0x0A \<notin> set l \<and> set l \<subseteq> set cs"
proof -
  consider "l = []" | line where "line \<in> set (text_lines cs)" "l \<in> set (chunks width line)"
    using assms(2) by (auto simp: wrapped_chars_def Let_def split: if_splits)
  then show ?thesis
  proof cases
    case 2
    have "set l \<subseteq> set line"
      using concat_chunks [OF assms(1), of line] 2(2) by (metis UN_upper set_concat)
    with 2 text_lines_sound [OF 2(1)] chunks_bounds [OF assms(1) 2(2)] show ?thesis by auto
  qed simp
qed

lemma wrapped_chars_content: "0 < width \<Longrightarrow> concat (wrapped_chars width cs) = concat (text_lines cs)"
proof -
  assume "0 < width"
  have "concat (concat (map (\<lambda>line. if line = [] then [[]] else chunks width line) ls)) = concat ls" for ls
    by (induction ls) (simp_all add: concat_chunks [OF \<open>0 < width\<close>])
  moreover have "concat (if xs = [] then [[]] else xs) = concat xs" for xs :: "nat list list"
    by simp
  ultimately show ?thesis
    by (simp only: wrapped_chars_def Let_def)
qed

section \<open>Properties\<close>

text \<open>C19: What a preview shows is the content of the requested file, within its limits and safe.
  Loading changes nothing.  The path shown is the canonical one of the path given or, for a reference, of the path
  recorded in the entry that the registry of the environment holds under the token of the reference (for
  \<open>@latest\<close>, of the pointer); the file there is a regular one of at most 32 MiB, and for a reference
  it has the recorded identity.  An image is the decoder's result for its whole content.  Text is shown only for
  what is no image: it is the first 8 MiB of the content, without NUL, with every character that is not allowed
  replaced and a note when there is more, and it holds no control character but line feed, carriage return and
  tab.\<close>

theorem load_artifact_sound:
  fixes renv :: "('st, 'json) ref_env"
  assumes "load_artifact env renv codec p w =
    (Inr (q, a) :: ('json, 'img) app_error + path \<times> prepared_artifact, w')"
  shows "w' = w \<and> (\<exists>n. nodes (cli_files w) q = Some n \<and> node_kind n = RegularFile \<and>
    length (node_bytes n) \<le> 33554432 \<and>
    (if is_reference p
     then \<exists>reg requested. discovered env = Some reg \<and> q = follow (cli_files w) requested \<and>
       registered_as renv reg (cli_files w) p requested n
     else q = follow (cli_files w) p) \<and>
    (case a of
       Raster r \<Rightarrow> decode_raster (codec_guess_format codec) (codec_io_error codec) (codec_decode_rgba8 codec)
         (codec_encode_png codec) (node_bytes n) default_raster_limits = Inr r
     | TextPage str \<Rightarrow> (\<exists>e. decode_raster (codec_guess_format codec) (codec_io_error codec)
         (codec_decode_rgba8 codec) (codec_encode_png codec) (node_bytes n) default_raster_limits = Inl e) \<and>
         CHR 0x00 \<notin> set (take 8388608 (node_bytes n)) \<and>
         str = encode_chars (map sanitize_char (decode_lossy (take 8388608 (node_bytes n))))
           @ (if 8388608 < length (node_bytes n) then truncation_note else []) \<and>
         (\<exists>cs. str = encode_chars cs \<and> list_all terminal_safe cs)))"
proof -
  from assms obtain requested u v where
    req: "requested_path env renv p w = (Inr requested :: ('json, 'img) app_error + path, u)"
    and canon: "canonicalize requested (cli_files u) = (Inr q, cli_files v)" "v = u\<lparr>cli_files := cli_files v\<rparr>"
    and loaded: "load_file codec q v = (Inr (q, a) :: ('json, 'img) app_error + path \<times> prepared_artifact, w')"
    by (auto simp: load_artifact_def io_bind_Inr_iff io_map_err_Inr_iff on_Inr load_file_Inr)
  note u = requested_path_Inr [OF req]
  have v: "v = w" "q = follow (cli_files w) requested" "lookup (cli_files w) q = nodes (cli_files w) q"
    "lookup (cli_files w) requested = nodes (cli_files w) q"
    using canon u by (auto simp: canonicalize_Inr lookup_def follow_def split: node_kind.splits)
  obtain n where n: "nodes (cli_files w) q = Some n" "node_kind n = RegularFile"
    "length (node_bytes n) \<le> 33554432" "w' = w"
    and art: "prepared codec (node_bytes n) = (Inr a :: ('json, 'img) app_error + prepared_artifact)"
    using loaded v(3) by (auto simp: load_file_Inr v(1,2) DEFAULT_MAX_INPUT_BYTES_def MAX_ARTIFACT_INPUT_BYTES_V1_def)
  have origin: "if is_reference p
     then \<exists>reg requested. discovered env = Some reg \<and> q = follow (cli_files w) requested \<and>
       registered_as renv reg (cli_files w) p requested n
     else q = follow (cli_files w) p"
    using u v n(1) by (auto intro!: exI [of _ requested])
  show ?thesis
  proof (cases "decode_raster (codec_guess_format codec) (codec_io_error codec) (codec_decode_rgba8 codec)
         (codec_encode_png codec) (node_bytes n) default_raster_limits")
    case (Inr r)
    with art have "a = Raster r"
      by (simp add: prepared_def)
    with Inr n origin show ?thesis by auto
  next
    case (Inl e)
    with art obtain str where str: "a = TextPage str"
      "sanitize_text (node_bytes n) DEFAULT_MAX_TEXT_BYTES = (Inr str :: 'img artifact_error + string)"
      by (auto simp: prepared_def try_bind_Inr_iff map_err_Inr_iff)
    have shown: "CHR 0x00 \<notin> set (take 8388608 (node_bytes n))"
      "str = encode_chars (map sanitize_char (decode_lossy (take 8388608 (node_bytes n))))
        @ (if 8388608 < length (node_bytes n) then truncation_note else [])"
      using str(2) by (simp_all add: sanitize_text_Inr DEFAULT_MAX_TEXT_BYTES_def)
    have "\<exists>cs. str = encode_chars cs \<and> list_all terminal_safe cs"
      using sanitize_text_chars [OF str(2)] by blast
    with Inl n origin shown show ?thesis
      unfolding str(1) prepared_artifact.case by blast
  qed
qed

definition demo_preview_codec :: "(unit, unit, unit, unit, unit) preview_codec" where
  "demo_preview_codec = \<lparr>codec_guess_format = (\<lambda>_. Inl InvalidData), codec_io_error = (\<lambda>_. ()),
     codec_decode_rgba8 = (\<lambda>_ _ _. Inl ()), codec_encode_png = (\<lambda>_ _ _. Inl ()),
     codec_from_raw = (\<lambda>_ _ _. None), codec_resize = (\<lambda>_ _ _. []), codec_sixel_encode = (\<lambda>_ _ _ _. Inl ()),
     codec_sixel_options = (), codec_sixel_text = (\<lambda>_. [])\<rparr>"

definition demo_preview_env :: preview_env where
  "demo_preview_env = \<lparr>env_probe = demo_probe_env, env_process_id = 31, env_size = Some (80, 24),
     env_winsize = Some (80, 24, 640, 384)\<rparr>"

text \<open>A file with two characters, an escape character and a letter.\<close>

definition demo_files :: unix_world where
  "demo_files = put_node ''/a'' ((new_node empty_world)\<lparr>node_bytes := [ESC, CHR ''x'']\<rparr>) empty_world"

lemma demo_loaded:
  "\<exists>str. load_artifact demo_preview_env demo_env demo_preview_codec ''/a''
      ((demo_cli script [])\<lparr>cli_files := demo_files\<rparr>) =
    (Inr (''/a'', TextPage str) :: (unit, unit) app_error + path \<times> prepared_artifact,
     (demo_cli script [])\<lparr>cli_files := demo_files\<rparr>)"
proof -
  let ?w = "(demo_cli script [])\<lparr>cli_files := demo_files\<rparr>"
  have "requested_path demo_preview_env demo_env ''/a'' ?w = (Inr ''/a'' :: (unit, unit) app_error + path, ?w)"
    by (simp add: requested_path_def ARTIFACT_REF_URI_PREFIX_def)
  moreover have "canonicalize ''/a'' demo_files = (Inr ''/a'', demo_files)"
    by (simp add: canonicalize_Inr demo_files_def empty_world_def follow_def)
  moreover have "\<exists>str. sanitize_text [ESC, CHR ''x''] DEFAULT_MAX_TEXT_BYTES =
      (Inr str :: unit artifact_error + string)"
    by (simp add: sanitize_text_Inr DEFAULT_MAX_TEXT_BYTES_def)
  then obtain str where "prepared demo_preview_codec [ESC, CHR ''x''] =
      (Inr (TextPage str) :: (unit, unit) app_error + prepared_artifact)"
    by (auto simp: prepared_def decode_raster_def demo_preview_codec_def map_err_def
        default_raster_limits_def DEFAULT_MAX_INPUT_BYTES_def MAX_ARTIFACT_INPUT_BYTES_V1_def)
  then have "load_file demo_preview_codec ''/a'' ?w =
      (Inr (''/a'', TextPage str) :: (unit, unit) app_error + path \<times> prepared_artifact, ?w)"
    by (simp add: load_file_Inr demo_files_def empty_world_def lookup_def follow_def
        DEFAULT_MAX_INPUT_BYTES_def MAX_ARTIFACT_INPUT_BYTES_V1_def)
  ultimately show ?thesis
    by (intro exI [of _ str]) (simp add: load_artifact_def io_bind_def io_map_err_def on_files_def map_err_def)
qed

theorem load_artifact_sound_witness:
  "load_artifact demo_preview_env demo_env demo_preview_codec ''/a''
      ((demo_cli [] [])\<lparr>cli_files := demo_files\<rparr>) =
    (Inr (''/a'', TextPage (encode_chars [sanitize_char 0x1B, sanitize_char 0x78]))
       :: (unit, unit) app_error + path \<times> prepared_artifact,
     (demo_cli [] [])\<lparr>cli_files := demo_files\<rparr>)"
proof -
  obtain str where run: "load_artifact demo_preview_env demo_env demo_preview_codec ''/a''
      ((demo_cli [] [])\<lparr>cli_files := demo_files\<rparr>) =
    (Inr (''/a'', TextPage str) :: (unit, unit) app_error + path \<times> prepared_artifact,
     (demo_cli [] [])\<lparr>cli_files := demo_files\<rparr>)"
    using demo_loaded by blast
  have "decode_lossy [ESC, CHR ''x''] = [0x1B, 0x78]"
    by (simp add: decode_lossy_ascii ascii_byte_def)
  with load_artifact_sound [OF run] have "str = encode_chars [sanitize_char 0x1B, sanitize_char 0x78]"
    by (auto simp: demo_files_def demo_cli_def empty_world_def)
  with run show ?thesis by simp
qed

text \<open>C20: The preview draws with the renderer that the evidence supports: the one it picks is the
  first in the order KGP, Sixel that the policy allows and whose well-formed live receipt is
  eligible; a skipped one has a receipt that is not.\<close>

theorem select_renderer_sound:
  assumes "base64_engine (probe_encode (env_probe env)) dec"
    and "select_renderer env args transport w = (Inr rnd :: ('json, 'img) app_error + renderer, w')"
  shows "\<exists>evidence. best_renderer (preview_backend args) (\<lambda>r. receipt_is_eligible (evidence r)) = Some rnd \<and>
    receipt_well_formed dec (evidence rnd) \<and>
    receipt_capability (evidence rnd) = (case rnd of Kgp \<Rightarrow> kgp_capability_id | Sixel \<Rightarrow> sixel_capability_id) \<and>
    (\<exists>v. (case rnd of Kgp \<Rightarrow> probe_kgp env args transport | Sixel \<Rightarrow> probe_sixel env args transport) v =
      (Inr (evidence rnd) :: ('json, 'img) app_error + probe_receipt, w')) \<and>
    (if preview_backend args = AutoBackend \<and> rnd = Sixel
     then \<exists>v. probe_kgp env args transport w = (Inr (evidence Kgp) :: ('json, 'img) app_error + probe_receipt, v)
     else True)"
proof -
  have dec: "dec (probe_encode (env_probe env) bs) = Some bs" for bs
    using assms(1) by (rule base64_engine.dec_enc)
  have from_kgp: "receipt_well_formed dec r \<and> receipt_capability r = kgp_capability_id"
    if "probe_kgp env args transport v = (Inr r :: ('json, 'img) app_error + probe_receipt, v')" for r v v'
    using kgp_receipt_Inr [OF that [unfolded probe_kgp_def] dec]
      receipt_capabilities(1) [OF that [unfolded probe_kgp_def]] by auto
  have from_sixel: "receipt_well_formed dec r \<and> receipt_capability r = sixel_capability_id"
    if "probe_sixel env args transport v = (Inr r :: ('json, 'img) app_error + probe_receipt, v')" for r v v'
    using sixel_receipt_Inr [OF that [unfolded probe_sixel_def] dec]
      receipt_capabilities(2) [OF that [unfolded probe_sixel_def]] by auto
  from assms(2) consider
    (kgp) r where "preview_backend args \<noteq> SixelBackend" "rnd = Kgp"
      "probe_kgp env args transport w = (Inr r :: ('json, 'img) app_error + probe_receipt, w')"
      "receipt_is_eligible r"
  | (sixel) r where "preview_backend args = SixelBackend" "rnd = Sixel"
      "probe_sixel env args transport w = (Inr r :: ('json, 'img) app_error + probe_receipt, w')"
      "receipt_is_eligible r"
  | (second) q v r where "preview_backend args = AutoBackend" "rnd = Sixel"
      "probe_kgp env args transport w = (Inr q :: ('json, 'img) app_error + probe_receipt, v)"
      "\<not> receipt_is_eligible q"
      "probe_sixel env args transport v = (Inr r :: ('json, 'img) app_error + probe_receipt, w')"
      "receipt_is_eligible r"
    by (auto simp: select_renderer_def io_bind_Inr_iff split: preview_backend.splits if_splits)
  then show ?thesis
  proof cases
    case kgp
    with from_kgp show ?thesis
      by (intro exI [of _ "\<lambda>_. r"]) (cases "preview_backend args"; auto)
  next
    case sixel
    then show ?thesis
      using from_sixel
      by (intro exI [of _ "\<lambda>_. r"]) auto
  next
    case second
    then show ?thesis
      using from_sixel
      by (intro exI [of _ "\<lambda>x. if x = Kgp then q else r"]) auto
  qed
qed

definition demo_preview_args :: preview_args where
  "demo_preview_args = \<lparr>preview_path = ''/a'', preview_backend = AutoBackend, preview_transport = PreviewAuto,
     preview_tty = DEFAULT_TTY, preview_timeout_ms = DEFAULT_TIMEOUT_MS,
     preview_transport_timeout_ms = DEFAULT_TRANSPORT_TIMEOUT_MS,
     preview_geometry_timeout_ms = DEFAULT_GEOMETRY_TIMEOUT_MS, preview_exit_after_ms = None\<rparr>"

lemma demo_common_args: "common_probe_args demo_preview_args Direct = demo_probe_args"
  by (simp add: common_probe_args_def demo_preview_args_def demo_probe_args_def)

lemma demo_probes:
  "probe_kgp demo_preview_env demo_preview_args Direct =
     (kgp_receipt demo_probe_env \<lparr>kgp_correlation_id = 31, kgp_common = demo_probe_args\<rparr>
       :: ('json, 'img, probe_receipt) tty_io)"
  "probe_sixel demo_preview_env demo_preview_args Direct =
     (sixel_receipt demo_probe_env \<lparr>sixel_common = demo_probe_args\<rparr> :: ('json, 'img, probe_receipt) tty_io)"
  "preview_backend demo_preview_args = AutoBackend"
  by (simp_all add: probe_kgp_def probe_sixel_def demo_common_args)
    (simp_all add: demo_preview_env_def demo_preview_args_def max_def word_le_nat_alt)

theorem select_renderer_sound_witness:
  "\<exists>w' evidence. select_renderer demo_preview_env demo_preview_args Direct (demo_tty [demo_kgp_event]) =
    (Inr Kgp :: (unit, unit) app_error + renderer, w') \<and> receipt_well_formed std_decode (evidence Kgp)"
proof -
  obtain r w' where "kgp_receipt demo_probe_env \<lparr>kgp_correlation_id = 31, kgp_common = demo_probe_args\<rparr>
      (demo_tty [demo_kgp_event]) = (Inr r :: (unit, unit) app_error + probe_receipt, w')"
    "receipt_is_eligible r"
    using demo_kgp_receipt by blast
  then have run: "select_renderer demo_preview_env demo_preview_args Direct (demo_tty [demo_kgp_event]) =
    (Inr Kgp :: (unit, unit) app_error + renderer, w')"
    by (simp add: select_renderer_def demo_probes io_bind_def)
  have "base64_engine (probe_encode (env_probe demo_preview_env)) std_decode"
    using rfc_standard.base64_engine_axioms by (simp add: demo_preview_env_def demo_probe_env_def)
  from select_renderer_sound [OF this run] run show ?thesis by blast
qed

text \<open>C35: The automatic choice of the preview is the selection of the negotiation: on the receipts of
  the two probes, made one after the other, the preview picks the renderer of the selected capability
  and refuses to draw exactly when nothing is eligible.\<close>

theorem select_agrees_with_negotiation:
  assumes "preview_backend args = AutoBackend"
    and "probe_kgp env args transport w = (Inr kgp :: ('json, 'img) app_error + probe_receipt, v)"
    and "probe_sixel env args transport v = (Inr sixel :: ('json, 'img) app_error + probe_receipt, u)"
  shows "case negotiation_selection (negotiate_capabilities_v1 [kgp, sixel]) of
      Selected p cap adapter \<Rightarrow>
        (if cap = kgp_capability_id
         then select_renderer env args transport w = (Inr Kgp :: ('json, 'img) app_error + renderer, v)
         else cap = sixel_capability_id \<and>
           select_renderer env args transport w = (Inr Sixel :: ('json, 'img) app_error + renderer, u))
    | NoEligibleCandidate \<Rightarrow>
        select_renderer env args transport w =
          (Inl (NoPixelRenderer (receipt_summary kgp) (receipt_summary sixel))
            :: ('json, 'img) app_error + renderer, u)"
proof -
  have caps: "receipt_capability kgp = kgp_capability_id" "receipt_capability sixel = sixel_capability_id"
    using receipt_capabilities(1) [OF assms(2) [unfolded probe_kgp_def]]
      receipt_capabilities(2) [OF assms(3) [unfolded probe_sixel_def]] .
  have "kgp_capability_id \<noteq> sixel_capability_id"
    by (simp add: kgp_capability_id_def sixel_capability_id_def)
  then show ?thesis
    using assms caps by (simp add: negotiate_eq select_renderer_def io_bind_def)
qed

theorem select_agrees_with_negotiation_witness:
  "\<exists>kgp sixel w'. select_renderer demo_preview_env demo_preview_args Direct
      (demo_tty [demo_kgp_event, demo_sixel_event]) = (Inr Kgp :: (unit, unit) app_error + renderer, w') \<and>
    negotiation_selection (negotiate_capabilities_v1 [kgp, sixel]) =
      Selected 0 kgp_capability_id (receipt_adapter kgp)"
proof -
  obtain kgp t sixel u where run: "kgp_receipt demo_probe_env
      \<lparr>kgp_correlation_id = 31, kgp_common = demo_probe_args\<rparr> (demo_tty [demo_kgp_event, demo_sixel_event]) =
      (Inr kgp :: (unit, unit) app_error + probe_receipt, t)"
    "sixel_receipt demo_probe_env \<lparr>sixel_common = demo_probe_args\<rparr> t =
      (Inr sixel :: (unit, unit) app_error + probe_receipt, u)" and eligible: "receipt_is_eligible kgp"
    using demo_two_receipts by blast
  from select_agrees_with_negotiation [of demo_preview_args demo_preview_env Direct, unfolded demo_probes,
      OF refl run] eligible receipt_capabilities(1) [OF run(1)]
  show ?thesis
    by (intro exI [of _ kgp] exI [of _ sixel] exI [of _ t]) (simp add: negotiate_eq)
qed

text \<open>C33: The viewport is that of the terminal: its cells are what the kernel reports, and it has
  pixels only if they belong to exactly this surface: reported by the kernel for the same number of
  columns and rows, and then not zero, or by the terminal together with these columns and rows.\<close>

theorem observe_viewport_sound:
  assumes "observe_viewport env args transport w = (Inr view :: ('json, 'img) app_error + viewport, w')"
  shows "env_size env = Some (viewport_columns view, viewport_rows view) \<and>
    ((\<exists>x y. env_winsize env = Some (viewport_columns view, viewport_rows view, x, y) \<and> x \<noteq> 0 \<and> y \<noteq> 0 \<and>
        viewport_pixel_width view = Some (ucast x) \<and> viewport_pixel_height view = Some (ucast y) \<and> w' = w) \<or>
     viewport_pixel_width view = None \<and> viewport_pixel_height view = None \<or>
     (\<exists>live c p cs ps. execute_tty_exchange (preview_tty args)
          (transport_payload transport build_geometry_query)
          (unat (preview_geometry_timeout_ms args) * 1000000) DEFAULT_MAX_RESPONSE_BYTES
          (geometry_stop_reason (probe_encode (env_probe env))) w =
          (Inr live :: ('json, 'img) app_error + live_exchange, w') \<and>
        parse_window_cells (probe_encode (env_probe env)) (live_response live) = c # cs \<and>
        parse_window_pixels (probe_encode (env_probe env)) (live_response live) = p # ps \<and>
        cells_columns c = viewport_columns view \<and> cells_rows c = viewport_rows view \<and>
        viewport_pixel_width view = Some (pixels_width p) \<and>
        viewport_pixel_height view = Some (pixels_height p)))"
proof -
  let ?run = "execute_tty_exchange (preview_tty args) (transport_payload transport build_geometry_query)
      (unat (preview_geometry_timeout_ms args) * 1000000) DEFAULT_MAX_RESPONSE_BYTES
      (geometry_stop_reason (probe_encode (env_probe env))) w"
  obtain columns rows where size: "env_size env = Some (columns, rows)"
    using assms by (cases "env_size env") (auto simp: observe_viewport_def io_bind_Inr_iff)
  show ?thesis
  proof (cases "\<exists>x y. env_winsize env = Some (columns, rows, x, y) \<and> x \<noteq> 0 \<and> y \<noteq> 0")
    case True
    with assms size show ?thesis
      by (auto simp: observe_viewport_def io_bind_Inr_iff validated_tty_pixels_def tty_io_call_Inr)
  next
    case False
    then have "(case env_winsize env of None \<Rightarrow> (None, None) | Some (col, row, xpixel, ypixel) \<Rightarrow>
        validated_tty_pixels columns rows col row xpixel ypixel) = (None, None)"
      by (auto simp: validated_tty_pixels_def split: option.splits)
    with assms size obtain live where live: "?run = (Inr live :: ('json, 'img) app_error + live_exchange, w')"
      and view: "viewport_columns view = columns" "viewport_rows view = rows"
        "viewport_pixel_width view = (if case get_at (parse_window_cells (probe_encode (env_probe env))
            (live_response live)) 0 of None \<Rightarrow> False
          | Some observed \<Rightarrow> cells_columns observed = columns \<and> cells_rows observed = rows
          then map_option pixels_width (get_at (parse_window_pixels (probe_encode (env_probe env))
            (live_response live)) 0) else None)"
        "viewport_pixel_height view = (if case get_at (parse_window_cells (probe_encode (env_probe env))
            (live_response live)) 0 of None \<Rightarrow> False
          | Some observed \<Rightarrow> cells_columns observed = columns \<and> cells_rows observed = rows
          then map_option pixels_height (get_at (parse_window_pixels (probe_encode (env_probe env))
            (live_response live)) 0) else None)"
      by (auto simp: observe_viewport_def io_bind_Inr_iff tty_io_call_Inr Let_def)
    then show ?thesis
      using size by (cases "parse_window_cells (probe_encode (env_probe env)) (live_response live)";
          cases "parse_window_pixels (probe_encode (env_probe env)) (live_response live)")
        (auto simp: get_at_def)
  qed
qed

lemma demo_observed:
  "\<exists>view. observe_viewport demo_preview_env demo_preview_args Direct (demo_tty script) =
      (Inr view :: (unit, unit) app_error + viewport, demo_tty script)"
  by (simp add: observe_viewport_def demo_preview_env_def io_bind_def validated_tty_pixels_def
      tty_io_call_def demo_tty_def)

theorem observe_viewport_sound_witness:
  "\<exists>view. observe_viewport demo_preview_env demo_preview_args Direct (demo_tty []) =
      (Inr view :: (unit, unit) app_error + viewport, demo_tty []) \<and>
    viewport_columns view = 80 \<and> viewport_rows view = 24"
proof -
  obtain view where run: "observe_viewport demo_preview_env demo_preview_args Direct (demo_tty []) =
      (Inr view :: (unit, unit) app_error + viewport, demo_tty [])"
    using demo_observed [of "[]"] by blast
  from observe_viewport_sound [OF run] run show ?thesis
    by (auto simp: demo_preview_env_def)
qed

text \<open>A label cannot disturb the screen: it has no control character, whatever the name of the
  file, and no more characters than there are columns; a name without control characters that fits is
  shown unchanged.\<close>

theorem safe_label_safe:
  "\<exists>cs. safe_label p columns = encode_chars cs \<and> length cs \<le> unat columns \<and>
     list_all (\<lambda>c. is_scalar c \<and> \<not> is_control c) cs \<and>
     (let name = decode_lossy (unwrap_or (file_name p) p) in
      if list_all (\<lambda>c. \<not> is_control c) name \<and> length name \<le> unat columns then cs = name else True)"
proof -
  let ?name = "decode_lossy (unwrap_or (file_name p) p)"
  let ?f = "\<lambda>c. if is_control c then replacement_char else c"
  have safe: "list_all (\<lambda>c. is_scalar c \<and> \<not> is_control c) (map ?f ?name)"
    using decode_lossy_scalars [of "unwrap_or (file_name p) p"]
    by (auto simp: list_all_iff is_control_def replacement_char_def is_scalar_def)
  define shown where "shown = take (unat columns) (map ?f ?name)"
  have "list_all (\<lambda>c. is_scalar c \<and> \<not> is_control c) shown"
    using safe unfolding shown_def list_all_iff by (meson in_set_takeD)
  moreover have "shown = ?name" if "list_all (\<lambda>c. \<not> is_control c) ?name" "length ?name \<le> unat columns"
  proof -
    have "map ?f ?name = ?name"
      using that(1) by (intro map_idI) (auto simp: list_all_iff)
    then show ?thesis
      using that(2) by (simp add: shown_def)
  qed
  ultimately show ?thesis
    by (intro exI [of _ shown]) (simp add: safe_label_def shown_def [symmetric] Let_def, simp add: shown_def)
qed



end
