(* ===== verification/Terminal_Kept.thy ===== *)
theory Terminal_Kept
  imports Preview_Inputs Frame_Conditions
begin

text \<open>
  The operations of the binary on a terminal, from one exchange to the choice of a renderer, as clients
  of one rule: each leaves the attributes of the terminal as they were, whatever fails in it.  The rule
  is closed under sequencing, and its instances are the collection \<open>leaves_intros\<close>.
\<close>

section \<open>What leaves the terminal alone\<close>

text \<open>An operation of a terminal whose guard can be made leaves the attributes, and which calls fail,
  as they were.\<close>

definition same_terminal :: "tty_world \<Rightarrow> tty_world \<Rightarrow> bool" where
  "same_terminal w w' \<longleftrightarrow>
     tty_attributes w' = tty_attributes w \<and> tty_errno w' = tty_errno w \<and> tty_io_fault w' = tty_io_fault w"

definition guarded :: "tty_world \<Rightarrow> bool" where
  "guarded w \<longleftrightarrow> tty_io_fault w CloneTty = None \<and> tty_errno w (SetAttributes (tty_attributes w)) = None"

abbreviation leaves_terminal :: "('json, 'img, 'a) tty_io \<Rightarrow> bool" where
  "leaves_terminal \<equiv> keeps guarded same_terminal"

named_theorems leaves_intros

interpretation terminal_frame: frame_condition guarded same_terminal
  by unfold_locales (auto simp: same_terminal_def guarded_def)

lemmas same_terminal_trans = terminal_frame.same_trans

lemma same_terminal_guarded: "same_terminal w w' \<Longrightarrow> guarded w' = guarded w"
  by (simp add: same_terminal_def guarded_def)

lemma same_terminal_refl [simp]: "same_terminal w w"
  by (rule terminal_frame.same_refl)

lemma leaves_call: "leaves_terminal (tty_io_call c)"
  by (auto simp: keeps_def same_terminal_def tty_io_call_def split: option.splits)

lemmas [leaves_intros] = terminal_frame.keeps_pure terminal_frame.keeps_bind leaves_call

lemma raw_exchange_terminal:
  "tty_io_fault (snd (raw_exchange request timeout limit stop_when w)) = tty_io_fault w"
  by (auto simp: raw_exchange_def io_bind_def write_tty_def tty_io_call_def Let_def
      split: prod.splits sum.splits option.splits)

lemma leaves_exchange [leaves_intros]:
  "leaves_terminal (execute_tty_exchange p request timeout limit stop_when)"
  by (auto simp: keeps_def guarded_def same_terminal_def execute_tty_exchange_def io_bind_def
      tty_io_call_def tty_sys_call_def get_attributes_def flush_input_def set_attributes_def
      with_raw_guard_def raw_mode_drop raw_exchange_keeps raw_exchange_terminal prod.case_eq_if
      split: option.splits)

lemma leaves_readiness:
  "guarded w \<Longrightarrow> same_terminal w (snd (readiness_loop env args deadline exchanges w
     :: (('json, 'img) app_error + wire_exchange list \<times> transport_readiness) \<times> tty_world))"
proof (induction env args deadline exchanges w
    rule: readiness_loop.induct [where 'a = 'json and 'b = 'img])
  case (1 env args deadline exchanges w)
  let ?attempt = "readiness_attempt env args (deadline - tty_now w) w
    :: (('json, 'img) app_error + live_exchange) \<times> tty_world"
  obtain r v where attempt: "?attempt = (r, v)" by fastforce
  have "leaves_terminal (readiness_attempt env args (deadline - tty_now w)
      :: ('json, 'img, live_exchange) tty_io)"
    unfolding readiness_attempt_def by (rule leaves_exchange)
  with attempt 1(2) have v: "same_terminal w v"
    by (metis keeps_def snd_conv)
  show ?case
  proof (cases r)
    case (Inl e)
    with attempt v show ?thesis
      by (subst readiness_loop.simps) (simp add: Let_def)
  next
    case (Inr live)
    with attempt v 1(1) [OF refl _ attempt [symmetric]] same_terminal_guarded [OF v] 1(2) show ?thesis
      by (subst readiness_loop.simps) (auto simp: Let_def intro: same_terminal_trans)
  qed
qed

lemma leaves_prepare [leaves_intros]: "leaves_terminal (prepare_transport env args)"
proof -
  have "leaves_terminal (readiness_loop env args deadline exchanges
      :: ('json, 'img, wire_exchange list \<times> transport_readiness) tty_io)" for deadline exchanges
    using leaves_readiness by (auto simp: keeps_def)
  then have "leaves_terminal (io_bind (readiness_loop env args deadline [])
      (\<lambda>(exchanges, readiness). io_return
        \<lparr>transport_adapter = tmux_adapter_identity (probe_version env),
         transport_readiness = readiness, preparation_exchanges = exchanges\<rparr>)
      :: ('json, 'img, transport_evidence) tty_io)" for deadline
    by (intro terminal_frame.keeps_bind) (auto simp: terminal_frame.keeps_pure split: prod.splits)
  then show ?thesis
    by (auto simp: prepare_transport_def keeps_def Let_def)
qed

lemma leaves_receipts [leaves_intros]:
  "leaves_terminal (kgp_receipt env kargs)" "leaves_terminal (sixel_receipt env sargs)"
  unfolding kgp_receipt_def sixel_receipt_def Let_def by (intro leaves_intros)+

lemma leaves_select: "leaves_terminal (select_renderer env args transport)"
proof -
  have "leaves_terminal (probe_kgp env args transport :: ('json, 'img, probe_receipt) tty_io)"
    "leaves_terminal (probe_sixel env args transport :: ('json, 'img, probe_receipt) tty_io)"
    unfolding probe_kgp_def probe_sixel_def by (intro leaves_intros)+
  then show ?thesis
    by (auto simp: select_renderer_def intro!: leaves_intros split: preview_backend.splits)
qed

lemma leaves_observe: "leaves_terminal (observe_viewport env args transport)"
  unfolding observe_viewport_def Let_def
  by (intro leaves_intros) (auto intro!: leaves_intros split: prod.splits)

text \<open>Operations on files have no terminal.\<close>

abbreviation files_only :: "('json, 'img, 'a) cli_io \<Rightarrow> bool" where
  "files_only \<equiv> keeps (\<lambda>_. True) (\<lambda>w w'. cli_tty w' = cli_tty w)"

interpretation files_frame: frame_condition "\<lambda>_. True" "\<lambda>w w'. cli_tty w' = cli_tty w"
  by unfold_locales simp_all

lemma files_only_on_files: "keeps (\<lambda>_. True) (\<lambda>w w'. cli_tty w' = cli_tty w) (on_files m)"
  by (simp add: keeps_def on_files_def split: prod.splits)

lemmas [leaves_intros] =
  files_frame.keeps_pure files_frame.keeps_bind files_frame.keeps_map_err files_only_on_files

lemma load_artifact_files:
  fixes renv :: "('st, 'json) ref_env" and codec :: "('fmt, 'img, 'buf, 'opts, 'six) preview_codec"
  shows "files_only (load_artifact env renv codec p :: ('json, 'img, path \<times> prepared_artifact) cli_io)"
proof -
  have "files_only (requested_path env renv p :: ('json, 'img, path) cli_io)"
    by (auto simp: requested_path_def registry_path_def intro!: leaves_intros)
  moreover have "files_only (load_file codec q :: ('json, 'img, path \<times> prepared_artifact) cli_io)" for q
    by (auto simp: load_file_def Let_def intro!: leaves_intros)
  ultimately show ?thesis
    unfolding load_artifact_def by (intro leaves_intros)
qed

end
