(* ===== verification/Preview_Pager.thy ===== *)
theory Preview_Pager
  imports Terminal_Kept
begin

text \<open>
  The interactive part of a preview: the alternate screen with its guard, the keys, the pager for
  text and the display of an image.  A loop that waits for keys need not end; it is a partial
  function whose value is \<open>None\<close> when it waits for ever.  \<open>page_walk\<close> is the pager as a state
  machine on the first line shown.
\<close>

section \<open>The screen\<close>

definition enter_sequence :: bytes where
  "enter_sequence = ESC # ''[?1049h'' @ ESC # ''[2J'' @ ESC # ''[H'' @ ESC # ''[?25l''"

definition leave_sequence :: bytes where
  "leave_sequence = ESC # ''[?25h'' @ ESC # ''[?1049l''"

text \<open>Entering: raw mode first, then the clone for the guard, then the screen.  The result is the
  original attributes; once the guard exists, a failure restores them.\<close>

definition screen_enter :: "('json, 'img, termios) tty_io" where
  "screen_enter =
     io_bind get_attributes
     (\<lambda>original. io_bind flush_input
     (\<lambda>_. io_bind (set_attributes (RawOf original))
     (\<lambda>_. io_bind (tty_io_call CloneTty)
     (\<lambda>_ w.
       (case io_bind (write_tty enter_sequence) (\<lambda>_. tty_io_call FlushOutput) w of
          (Inl e, w') \<Rightarrow> (Inl e, raw_mode_drop original w')
        | (Inr _, w') \<Rightarrow> (Inr original, w'))))))"

definition screen_restore :: "bytes \<Rightarrow> ('json, 'img, unit) tty_io" where
  "screen_restore image_delete =
     io_bind (write_tty image_delete)
     (\<lambda>_. io_bind (write_tty leave_sequence) (\<lambda>_. tty_io_call FlushOutput))"

text \<open>Dropping the guard: restoring, unless that has succeeded, and then the attributes.\<close>

definition screen_drop :: "bytes \<Rightarrow> termios \<Rightarrow> bool \<Rightarrow> tty_world \<Rightarrow> tty_world" where
  "screen_drop image_delete original restored w =
     raw_mode_drop original
       (if restored then w
        else snd (screen_restore image_delete w :: ((unit, unit) app_error + unit) \<times> tty_world))"

text \<open>The use of the guard: enter, the body, and restoring at the end of a body that succeeds.\<close>

definition with_screen ::
  "bytes \<Rightarrow> (tty_world \<Rightarrow> ((('json, 'img) app_error + unit) \<times> tty_world) option) \<Rightarrow> tty_world
     \<Rightarrow> ((('json, 'img) app_error + unit) \<times> tty_world) option" where
  "with_screen image_delete body w =
     (case screen_enter w of
        (Inl e, w1) \<Rightarrow> Some (Inl e, w1)
      | (Inr original, w1) \<Rightarrow>
          (case body w1 of
             None \<Rightarrow> None
           | Some (Inl e, w2) \<Rightarrow> Some (Inl e, screen_drop image_delete original False w2)
           | Some (Inr _, w2) \<Rightarrow>
               (case screen_restore image_delete w2 of
                  (Inl e, w3) \<Rightarrow> Some (Inl e, screen_drop image_delete original False w3)
                | (Inr _, w3) \<Rightarrow> Some (Inr (), screen_drop image_delete original True w3))))"

section \<open>Keys\<close>

text \<open>\<open>INPUT_POLL_MS\<close> in nanoseconds.\<close>

definition INPUT_POLL :: nat where "INPUT_POLL = 200 * 1000000"

text \<open>What one read of up to \<open>n\<close> bytes takes: all that has come by then, in however many pieces.  It stops
  before the end of the input and before a signal or an error.\<close>

fun take_ready :: "nat \<Rightarrow> nat \<Rightarrow> tty_script \<Rightarrow> bytes \<times> tty_script" where
  "take_ready n now ((t, Arrives bs) # rest) =
     (if now < t \<or> bs = [] \<or> n = 0 then ([], (t, Arrives bs) # rest)
      else if n < length bs then (take n bs, (t, Arrives (drop n bs)) # rest)
      else (case take_ready (n - length bs) now rest of (next_bytes, left) \<Rightarrow> (bs @ next_bytes, left)))"
| "take_ready n now script = ([], script)"

text \<open>The loop of \<open>read_key\<close>.  A poll that meets nothing waits its whole time; a read takes up to 32
  bytes, of which the first is the key and the others are lost; an empty read is the end of the input.\<close>

partial_function (option) key_loop ::
  "nat option \<Rightarrow> nat \<Rightarrow> tty_script
     \<Rightarrow> ((('json, 'img) app_error + byte option) \<times> nat \<times> tty_script) option" where
  "key_loop deadline now script =
     (if (case deadline of None \<Rightarrow> False | Some d \<Rightarrow> d \<le> now) then Some (Inr None, now, script)
      else case script of
        [] \<Rightarrow> key_loop deadline (now + INPUT_POLL) []
      | (t, input) # rest \<Rightarrow>
          if now + INPUT_POLL < t then key_loop deadline (now + INPUT_POLL) script
          else case input of
            Interrupts \<Rightarrow> key_loop deadline (max now t) rest
          | PollFails e \<Rightarrow> Some (Inl (AppTerminal e), max now t, rest)
          | ReadFails e \<Rightarrow> Some (Inl (AppIo e), max now t, rest)
          | Arrives bs \<Rightarrow>
              if bs = [] then Some (Inr None, max now t, rest)
              else case take_ready 32 (max now t) script of
                (buffer, script') \<Rightarrow> Some (Inr (get_at buffer 0), max now t, script'))"

definition read_key ::
  "nat option \<Rightarrow> tty_world \<Rightarrow> ((('json, 'img) app_error + byte option) \<times> tty_world) option" where
  "read_key deadline w =
     map_option (\<lambda>(r, now, script). (r, w\<lparr>tty_now := now, tty_script := script\<rparr>))
       (key_loop deadline (tty_now w) (tty_script w))"

definition close_deadline :: "u64 option \<Rightarrow> tty_world \<Rightarrow> nat option" where
  "close_deadline exit_after_ms w =
     Option.bind exit_after_ms
       (\<lambda>ms. let t = tty_now w + unat ms * 1000000 in if t \<le> tty_clock_max w then Some t else None)"

section \<open>The pager\<close>

definition page_rows :: "viewport \<Rightarrow> nat" where
  "page_rows view = unat (max (sat_sub (viewport_rows view) 2) 1)"

definition text_page :: "string \<Rightarrow> string list \<Rightarrow> nat \<Rightarrow> viewport \<Rightarrow> bytes" where
  "text_page label lines offset view =
     (let last_line = min (offset + page_rows view) (length lines) in
      ESC # ''[2J'' @ ESC # ''[H'' @ ESC # ''[7m'' @ '' '' @ label @ ESC # ''[0m'' @ [CHR 0x0D, CHR 0x0A]
      @ concat (map (\<lambda>line. line @ ESC # ''[K'' @ [CHR 0x0D, CHR 0x0A]) (drop offset (take last_line lines)))
      @ ESC # ''['' @ dec_string (unat (viewport_rows view)) @ '';1H'' @ ESC # ''[2K'' @ ESC # ''[2m''
      @ '' q/Esc: close  Space/j: next  k: previous  ''
      @ dec_string (min (offset + 1) (length lines)) @ ''/'' @ dec_string (length lines) @ ESC # ''[0m'')"

text \<open>The flush after drawing, and the time that drawing took.\<close>

definition flush_drawn :: "('json, 'img, unit) tty_io" where
  "flush_drawn = io_bind (tty_io_call FlushOutput)
     (\<lambda>_ w. (Inr (), w\<lparr>tty_now := tty_now w + tty_draw_time w\<rparr>))"

definition render_text_page ::
  "string \<Rightarrow> string list \<Rightarrow> nat \<Rightarrow> viewport \<Rightarrow> ('json, 'img, unit) tty_io" where
  "render_text_page label lines offset view =
     io_bind (write_tty (text_page label lines offset view)) (\<lambda>_. flush_drawn)"

text \<open>The match on the key: the next offset, or none to close.\<close>

definition page_step :: "nat \<Rightarrow> nat \<Rightarrow> byte \<Rightarrow> nat \<Rightarrow> nat option" where
  "page_step line_count rows key offset =
     (if key = CHR ''q'' \<or> key = ESC then None
      else if key = CHR '' '' \<or> key = CHR ''j'' then Some (min (offset + rows) (line_count - 1))
      else if key = CHR ''k'' then Some (offset - rows)
      else if key = CHR ''g'' then Some 0
      else if key = CHR ''G'' then Some (line_count - rows)
      else Some offset)"

partial_function (option) pager_loop ::
  "string \<Rightarrow> string list \<Rightarrow> viewport \<Rightarrow> nat option \<Rightarrow> nat \<Rightarrow> tty_world
     \<Rightarrow> ((('json, 'img) app_error + unit) \<times> tty_world) option" where
  "pager_loop label lines view deadline offset w =
     (case render_text_page label lines offset view w of
        (Inl e, w1) \<Rightarrow> Some (Inl e, w1)
      | (Inr _, w1) \<Rightarrow>
          Option.bind (read_key deadline w1)
            (\<lambda>(r, w2). case r of
               Inl e \<Rightarrow> Some (Inl e, w2)
             | Inr None \<Rightarrow> Some (Inr (), w2)
             | Inr (Some key) \<Rightarrow>
                 (case page_step (length lines) (page_rows view) key offset of
                    None \<Rightarrow> Some (Inr (), w2)
                  | Some offset' \<Rightarrow> pager_loop label lines view deadline offset' w2)))"

definition show_text ::
  "preview_args \<Rightarrow> path \<Rightarrow> string \<Rightarrow> viewport \<Rightarrow> tty_world
     \<Rightarrow> ((('json, 'img) app_error + unit) \<times> tty_world) option" where
  "show_text args p str view w =
     (case tty_io_call (OpenTty (preview_tty args)) w of
        (Inl e, w1) \<Rightarrow> Some (Inl e, w1)
      | (Inr _, w1) \<Rightarrow>
          with_screen [] (\<lambda>w2.
            pager_loop (safe_label p (sat_sub (viewport_columns view) 2))
              (wrapped_text_lines str (viewport_columns view)) view
              (close_deadline (preview_exit_after_ms args) w2) 0 w2) w1)"

section \<open>Images\<close>

text \<open>The loop that waits for a closing key.\<close>

partial_function (option) close_loop ::
  "nat option \<Rightarrow> tty_world \<Rightarrow> ((('json, 'img) app_error + unit) \<times> tty_world) option" where
  "close_loop deadline w =
     Option.bind (read_key deadline w)
       (\<lambda>(r, w1). case r of
          Inl e \<Rightarrow> Some (Inl e, w1)
        | Inr None \<Rightarrow> Some (Inr (), w1)
        | Inr (Some key) \<Rightarrow>
            if key = CHR ''q'' \<or> key = ESC then Some (Inr (), w1) else close_loop deadline w1)"

text \<open>The protocol bytes of the image and of its deletion.\<close>

definition logical_image ::
  "preview_env \<Rightarrow> ('fmt, 'img, 'buf, 'opts, 'six) preview_codec \<Rightarrow> raster_artifact \<Rightarrow> raster_placement
     \<Rightarrow> u32 \<Rightarrow> renderer \<Rightarrow> ('json, 'img) app_error + bytes" where
  "logical_image env codec artifact placement image_num rnd =
     (case rnd of
        Kgp \<Rightarrow> map_err AppDisplayBuild
          (encode_png_display (probe_encode (env_probe env)) (artifact_png artifact)
            \<lparr>image_number = image_num, display_columns = placement_columns placement,
             display_rows = placement_rows placement\<rparr>)
      | Sixel \<Rightarrow>
          try_bind (map_err AppArtifact (resize_rgba (codec_from_raw codec) (codec_resize codec) artifact
            (placement_pixel_width placement) (placement_pixel_height placement)))
          (\<lambda>resized. map_err (\<lambda>e. SixelEncoding (codec_sixel_text codec e))
            (encode_rgba_default (codec_sixel_encode codec) (codec_sixel_options codec) resized
              (unat (placement_pixel_width placement)) (unat (placement_pixel_height placement)))))"

definition raster_caption :: "string \<Rightarrow> renderer \<Rightarrow> viewport \<Rightarrow> bytes" where
  "raster_caption label rnd view =
     ESC # ''['' @ dec_string (unat (viewport_rows view)) @ '';1H'' @ ESC # ''[2K'' @ ESC # ''[2m '' @ label
     @ ''  '' @ (case rnd of Kgp \<Rightarrow> ''KGP'' | Sixel \<Rightarrow> ''Sixel'') @ ''  q/Esc: close'' @ ESC # ''[0m''"

definition left_column :: "viewport \<Rightarrow> raster_placement \<Rightarrow> u16" where
  "left_column view placement =
     sat_add (unwrap_or (checked_div (sat_sub (viewport_columns view) (placement_columns placement)) 2) 0) 1"

definition raster_body ::
  "preview_args \<Rightarrow> path \<Rightarrow> viewport \<Rightarrow> raster_placement \<Rightarrow> renderer \<Rightarrow> bytes \<Rightarrow> tty_world
     \<Rightarrow> ((('json, 'img) app_error + unit) \<times> tty_world) option" where
  "raster_body args p view placement rnd wire_image w =
     (case io_bind (write_tty (ESC # ''[1;'' @ dec_string (unat (left_column view placement)) @ ''H''))
         (\<lambda>_. io_bind (write_tty wire_image)
         (\<lambda>_. io_bind (write_tty (raster_caption (safe_label p (sat_sub (viewport_columns view) 20)) rnd view))
         (\<lambda>_. flush_drawn))) w of
        (Inl e, w1) \<Rightarrow> Some (Inl e, w1)
      | (Inr _, w1) \<Rightarrow> close_loop (close_deadline (preview_exit_after_ms args) w1) w1)"

definition show_raster ::
  "preview_env \<Rightarrow> ('fmt, 'img, 'buf, 'opts, 'six) preview_codec \<Rightarrow> preview_args \<Rightarrow> path \<Rightarrow> raster_artifact
     \<Rightarrow> viewport \<Rightarrow> renderer \<Rightarrow> transport_kind \<Rightarrow> tty_world
     \<Rightarrow> ((('json, 'img) app_error + unit) \<times> tty_world) option" where
  "show_raster env codec args p artifact view rnd transport w =
     (case try_bind (map_err AppArtifact (fit_raster (artifact_width artifact) (artifact_height artifact) view 2))
         (\<lambda>placement. try_bind (logical_image env codec artifact placement (max (env_process_id env) 1) rnd)
           (\<lambda>encoded. Inr (placement, encoded))) of
        Inl e \<Rightarrow> Some (Inl e, w)
      | Inr (placement, encoded) \<Rightarrow>
          let wire_image = transport_payload transport encoded;
              image_delete =
                (if rnd = Kgp
                 then transport_payload transport (delete_image_number (max (env_process_id env) 1))
                 else []) in
          (case tty_io_call (OpenTty (preview_tty args)) w of
             (Inl e, w1) \<Rightarrow> Some (Inl e, w1)
           | (Inr _, w1) \<Rightarrow>
               with_screen image_delete (raster_body args p view placement rnd wire_image) w1))"

section \<open>The command\<close>

definition lift_tty ::
  "(tty_world \<Rightarrow> ((('json, 'img) app_error + unit) \<times> tty_world) option) \<Rightarrow> cli_world
     \<Rightarrow> ((('json, 'img) app_error + unit) \<times> cli_world) option" where
  "lift_tty m w = map_option (\<lambda>(r, t). (r, w\<lparr>cli_tty := t\<rparr>)) (m (cli_tty w))"

definition preview_run ::
  "preview_env \<Rightarrow> ('st, 'json) ref_env \<Rightarrow> ('fmt, 'img, 'buf, 'opts, 'six) preview_codec \<Rightarrow> preview_args
     \<Rightarrow> cli_world \<Rightarrow> ((('json, 'img) app_error + unit) \<times> cli_world) option" where
  "preview_run env renv codec args w =
     (let transport = resolved_transport env (preview_transport args) in
      case io_bind (load_artifact env renv codec (preview_path args))
          (\<lambda>(p, artifact). io_bind (on_tty (observe_viewport env args transport))
          (\<lambda>view. io_return (p, artifact, view))) w of
        (Inl e, w1) \<Rightarrow> Some (Inl e, w1)
      | (Inr (p, artifact, view), w1) \<Rightarrow>
          (case artifact of
             TextPage str \<Rightarrow> lift_tty (show_text args p str view) w1
           | Raster raster \<Rightarrow>
               (case on_tty (select_renderer env args transport) w1 of
                  (Inl e, w2) \<Rightarrow> Some (Inl e, w2)
                | (Inr rnd, w2) \<Rightarrow> lift_tty (show_raster env codec args p raster view rnd transport) w2)))"

section \<open>Lemmas on drawing and keys\<close>

lemma flush_drawn_Inr [result_iff]:
  "flush_drawn w = (Inr u, w') \<longleftrightarrow>
     tty_io_fault w FlushOutput = None \<and> w' = w\<lparr>tty_now := tty_now w + tty_draw_time w\<rparr>"
  by (auto simp: flush_drawn_def result_iff)

declare key_loop.simps [code]

definition has_input :: "tty_script \<Rightarrow> bool" where
  "has_input script \<longleftrightarrow> list_ex (\<lambda>(t, i). i \<noteq> Interrupts) script"

text \<open>Waiting ends when there is a deadline or something still arrives.\<close>

lemma INPUT_POLL_pos [simp]: "0 < INPUT_POLL"
  by (simp add: INPUT_POLL_def)

lemma key_loop_deadline: "\<exists>x :: (('json, 'img) app_error + byte option) \<times> nat \<times> tty_script. key_loop (Some d) now script = Some x"
proof (induction "length script + (d - now)" arbitrary: now script rule: less_induct)
  case less
  show ?case
  proof (cases "d \<le> now")
    case True
    then show ?thesis by (simp add: key_loop.simps)
  next
    case False
    have advance: "\<exists>x :: (('json, 'img) app_error + byte option) \<times> nat \<times> tty_script. key_loop (Some d) (now + INPUT_POLL) script = Some x"
      by (rule less.hyps) (use False INPUT_POLL_pos in linarith)
    show ?thesis
    proof (cases script)
      case Nil
      then show ?thesis
        using advance False by (subst key_loop.simps) simp
    next
      case (Cons e rest)
      obtain t i where e: "e = (t, i)" by fastforce
      have "\<exists>x :: (('json, 'img) app_error + byte option) \<times> nat \<times> tty_script. key_loop (Some d) (max now t) rest = Some x"
        by (rule less.hyps) (use Cons in auto)
      then show ?thesis
        using advance False unfolding Cons e by (subst key_loop.simps) (auto split: tty_input.splits prod.splits)
    qed
  qed
qed

lemma key_loop_input: "has_input script \<Longrightarrow> \<exists>x :: (('json, 'img) app_error + byte option) \<times> nat \<times> tty_script. key_loop None now script = Some x"
proof (induction script arbitrary: now)
  case Nil
  then show ?case by (simp add: has_input_def)
next
  case (Cons e rest)
  obtain t i where e: "e = (t, i)" by fastforce
  show ?case
  proof (induction "t - now" arbitrary: now rule: less_induct)
    case less
    have advance: "now + INPUT_POLL < t \<Longrightarrow> \<exists>x :: (('json, 'img) app_error + byte option) \<times> nat \<times> tty_script. key_loop None (now + INPUT_POLL) (e # rest) = Some x"
      by (rule less.hyps) (use INPUT_POLL_pos in linarith)
    show ?case
    proof (cases "i = Interrupts")
      case True
      then have "has_input rest"
        using Cons.prems e by (simp add: has_input_def)
      from Cons.IH [OF this] advance show ?thesis
        unfolding e True by (subst key_loop.simps) auto
    next
      case False
      with advance show ?thesis
        unfolding e by (subst key_loop.simps) (auto split: tty_input.splits prod.splits)
    qed
  qed
qed

lemma key_loop_returns: "deadline \<noteq> None \<or> has_input script \<Longrightarrow> \<exists>x :: (('json, 'img) app_error + byte option) \<times> nat \<times> tty_script. key_loop deadline now script = Some x"
  using key_loop_deadline key_loop_input by (cases deadline) auto

text \<open>An event after which the preview closes, if a read begins with it.\<close>

fun closes :: "tty_input \<Rightarrow> bool" where
  "closes (Arrives bs) \<longleftrightarrow> (case get_at bs 0 of None \<Rightarrow> True | Some key \<Rightarrow> key = CHR ''q'' \<or> key = ESC)"
| "closes Interrupts \<longleftrightarrow> False"
| "closes (PollFails e) \<longleftrightarrow> True"
| "closes (ReadFails e) \<longleftrightarrow> True"

text \<open>One that no read can have taken before: it comes after \<open>now\<close>, after every input before it, and after the time
  the pages drawn for these inputs take, at most one page for each byte and one for each input.\<close>

fun has_close :: "nat \<Rightarrow> nat \<Rightarrow> tty_script \<Rightarrow> bool" where
  "has_close draw now [] \<longleftrightarrow> False"
| "has_close draw now ((t, i) # rest) \<longleftrightarrow>
     closes i \<and> now < t \<or> has_close draw (max now t + draw * input_size i) rest"

lemma has_close_input: "has_close draw now script \<Longrightarrow> has_input script"
  by (induction draw now script rule: has_close.induct) (auto simp: has_input_def)

lemma has_close_earlier: "has_close draw now script \<Longrightarrow> now' \<le> now \<Longrightarrow> has_close draw now' script"
proof (induction draw now script arbitrary: now' rule: has_close.induct)
  case (2 draw now t i rest)
  then have "max now' t + draw * input_size i \<le> max now t + draw * input_size i"
    by (intro add_right_mono) simp
  with 2 show ?case
    by (metis has_close.simps(2) order.strict_trans1)
qed simp

text \<open>A read leaves such an event in the script, and it takes the byte it begins with.\<close>

lemma take_ready_close:
  "has_close draw later script \<Longrightarrow> now \<le> later \<Longrightarrow> has_close draw later (snd (take_ready n now script))"
proof (induction n now script arbitrary: later rule: take_ready.induct)
  case (1 n now t bs rest)
  show ?case
  proof (cases "now < t \<or> bs = [] \<or> n = 0")
    case False
    then have t: "t \<le> now" "\<not> later < t"
      using "1.prems"(2) by simp_all
    then have rest: "has_close draw (max later t + draw * input_size (Arrives bs)) rest"
      using "1.prems"(1) by simp
    show ?thesis
    proof (cases "n < length bs")
      case True
      have "max later t + draw * input_size (Arrives (drop n bs)) \<le> max later t + draw * input_size (Arrives bs)"
        by (intro add_left_mono mult_left_mono) simp_all
      with rest True False show ?thesis
        by (auto intro: has_close_earlier)
    next
      case fits: False
      have "has_close draw later rest"
        using rest by (rule has_close_earlier) simp
      from "1.IH" [OF False fits this "1.prems"(2)] show ?thesis
        using False fits by (simp add: case_prod_unfold)
    qed
  qed (use "1.prems" in auto)
qed simp_all

lemma take_ready_next:
  assumes "has_close draw (now + draw * Suc (Suc (length bs))) rest" "t \<le> now" "0 < n"
  shows "has_close draw (now + draw) (snd (take_ready n now ((t, Arrives (key # bs)) # rest)))"
proof (cases "n < length (key # bs)")
  case True
  have "Suc (Suc (Suc (length bs) - n)) \<le> Suc (Suc (length bs))"
    using assms(3) by simp
  then have "draw * Suc (Suc (Suc (length bs) - n)) \<le> draw * Suc (Suc (length bs))"
    by (rule mult_le_mono2)
  then have "has_close draw (max (now + draw) t + draw * input_size (Arrives (drop n (key # bs)))) rest"
    using assms by (intro has_close_earlier [OF assms(1)]) simp
  with True assms(2,3) show ?thesis
    by simp
next
  case False
  have "has_close draw (now + draw) rest"
    using assms(1) by (rule has_close_earlier) simp
  then have "has_close draw (now + draw) (snd (take_ready (n - length (key # bs)) now rest))"
    by (rule take_ready_close) simp
  with False assms(2,3) show ?thesis
    by (simp add: case_prod_unfold)
qed

lemma take_ready_size: "script_size (snd (take_ready n now script)) \<le> script_size script"
  by (induction n now script rule: take_ready.induct) (auto split: prod.splits)

lemma take_ready_first:
  assumes "t \<le> now" "0 < n"
  shows "get_at (fst (take_ready n now ((t, Arrives (key # bs)) # rest))) 0 = Some key"
    "script_size (snd (take_ready n now ((t, Arrives (key # bs)) # rest))) < script_size ((t, Arrives (key # bs)) # rest)"
  using assms take_ready_size [of "n - Suc (length bs)" now rest]
  by (cases n; force simp: get_at_def split: prod.splits)+

text \<open>One iteration: the time is up, nothing has come, a signal, an error, the end of the input, or a key.\<close>

lemma key_iteration [consumes 1, case_names expired idle interrupted failed hangup pressed]:
  assumes "(if (case deadline of None \<Rightarrow> False | Some d \<Rightarrow> d \<le> now) then Some (Inr None, now, script)
      else case script of
        [] \<Rightarrow> loop deadline (now + INPUT_POLL) []
      | (t, input) # rest \<Rightarrow>
          if now + INPUT_POLL < t then loop deadline (now + INPUT_POLL) script
          else case input of
            Interrupts \<Rightarrow> loop deadline (max now t) rest
          | PollFails e \<Rightarrow> Some (Inl (AppTerminal e), max now t, rest)
          | ReadFails e \<Rightarrow> Some (Inl (AppIo e), max now t, rest)
          | Arrives bs \<Rightarrow>
              if bs = [] then Some (Inr None, max now t, rest)
              else case take_ready 32 (max now t) script of
                (buffer, script') \<Rightarrow> Some (Inr (get_at buffer 0), max now t, script')) =
    Some (r :: (('json, 'img) app_error + byte option) \<times> nat \<times> tty_script)"
  obtains "r = (Inr None, now, script)"
    | "list_all (\<lambda>(t, i). now + INPUT_POLL < t) (take 1 script)" "loop deadline (now + INPUT_POLL) script = Some r"
    | t rest where "script = (t, Interrupts) # rest" "loop deadline (max now t) rest = Some r"
    | e where "fst r = Inl e"
    | t rest where "script = (t, Arrives []) # rest" "r = (Inr None, max now t, rest)"
    | t key bs rest where "script = (t, Arrives (key # bs)) # rest"
      "r = (Inr (Some key), max now t, snd (take_ready 32 (max now t) script))"
proof (cases "case deadline of None \<Rightarrow> False | Some d \<Rightarrow> d \<le> now")
  case True
  with assms show ?thesis using that(1) by simp
next
  case False
  show ?thesis
  proof (cases script)
    case Nil
    with assms False show ?thesis using that(2) by simp
  next
    case (Cons e rest)
    obtain t i where e: "e = (t, i)" by fastforce
    show ?thesis
    proof (cases "now + INPUT_POLL < t")
      case True
      with assms False show ?thesis using that(2) by (simp add: Cons e)
    next
      case arrived: False
      show ?thesis
      proof (cases i)
        case (Arrives bs)
        show ?thesis
        proof (cases bs)
          case Nil
          with assms False arrived Arrives show ?thesis using that(5) by (simp add: Cons e)
        next
          case (Cons key bs')
          with assms False arrived Arrives \<open>script = e # rest\<close> show ?thesis
            using that(6) [of t key bs' rest] take_ready_first(1) [of t "max now t" 32 key bs' rest]
            by (auto simp: e split: prod.splits simp del: take_ready.simps)
        qed
      next
        case Interrupts
        with assms False arrived show ?thesis using that(3) by (simp add: Cons e)
      qed (use assms False arrived that(4) in \<open>force simp: Cons e\<close>)+
    qed
  qed
qed

text \<open>Each key takes something of the script; and an event that closes, if the key is not it, is still there
  for the read after the next page.\<close>

lemma key_loop_progress:
  assumes "key_loop deadline now script = Some (Inr (Some key) :: ('json, 'img) app_error + byte option, now', script')"
  shows "script_size script' < script_size script \<and>
    (has_close draw now script \<longrightarrow> key = CHR ''q'' \<or> key = ESC \<or> has_close draw (now' + draw) script')"
proof -
  have "\<forall>key now' script'. r = (Inr (Some key) :: ('json, 'img) app_error + byte option, now', script') \<longrightarrow>
      script_size script' < script_size script \<and>
      (has_close draw now script \<longrightarrow> key = CHR ''q'' \<or> key = ESC \<or> has_close draw (now' + draw) script')"
    if "key_loop deadline now script = Some r" for r
    using that
  proof (induction rule: key_loop.raw_induct [rotated, consumes 1, case_names step])
    case (step loop deadline now script r)
    from step(2) show ?case
    proof (cases rule: key_iteration)
      case idle
      have "has_close draw (now + INPUT_POLL) script" if "has_close draw now script"
        using that idle(1) by (cases script) auto
      with step(1) [OF idle(2)] show ?thesis by auto
    next
      case (interrupted t rest)
      have "has_close draw (max now t) rest" if "has_close draw now script"
        using that by (auto simp: interrupted(1) intro: has_close_earlier)
      with step(1) [OF interrupted(2)] show ?thesis
        by (auto simp: interrupted(1))
    next
      case (pressed t key bs rest)
      have "has_close draw (max now t + draw) (snd (take_ready 32 (max now t) script))"
        if close: "has_close draw now script" and key: "key \<noteq> CHR ''q''" "key \<noteq> ESC"
      proof -
        have rest: "has_close draw (max now t + draw * (Suc (Suc (length bs)))) rest"
          using close key by (simp add: pressed(1) get_at_def)
        from take_ready_next [OF this, of t 32 key] show ?thesis
          by (simp add: pressed(1) del: take_ready.simps)
      qed
      with take_ready_first(2) [of t "max now t" 32 key bs rest] show ?thesis
        by (auto simp: pressed simp del: take_ready.simps has_close.simps)
    qed auto
  qed
  with assms show ?thesis by blast
qed

section \<open>What the terminal keeps\<close>

text \<open>Output and input change neither the attributes nor the calls that fail.\<close>

definition keeps_tty :: "tty_world \<Rightarrow> tty_world \<Rightarrow> bool" where
  "keeps_tty v v' \<longleftrightarrow>
     tty_attributes v' = tty_attributes v \<and> tty_errno v' = tty_errno v \<and> tty_io_fault v' = tty_io_fault v \<and>
     tty_draw_time v' = tty_draw_time v \<and>
     (stream_room (tty_output v) = None \<longrightarrow> stream_room (tty_output v') = None)"

lemma keeps_tty_refl [simp]: "keeps_tty v v"
  by (simp add: keeps_tty_def)

lemma keeps_tty_trans [trans]: "keeps_tty u v \<Longrightarrow> keeps_tty v w \<Longrightarrow> keeps_tty u w"
  by (simp add: keeps_tty_def)

lemma write_tty_keeps: "write_tty bs w = (r, w') \<Longrightarrow> keeps_tty w w'"
  by (auto simp: write_tty_def keeps_tty_def write_all_def split: prod.splits option.splits if_splits)

lemma tty_io_call_keeps: "tty_io_call c w = (r, w') \<Longrightarrow> w' = w"
  by (auto simp: tty_io_call_def split: option.splits)

lemma flush_drawn_keeps: "flush_drawn w = (r, w') \<Longrightarrow> keeps_tty w w'"
  by (auto simp: flush_drawn_def keeps_tty_def io_bind_def tty_io_call_def split: option.splits)

lemma read_key_keeps:
  "read_key deadline w = Some (r, w') \<Longrightarrow> keeps_tty w w' \<and> tty_output w' = tty_output w \<and>
     tty_clock_max w' = tty_clock_max w"
  by (auto simp: read_key_def keeps_tty_def)

lemma io_bind_keeps:
  assumes "io_bind m f w = (r, w')" "\<And>r v. m w = (r, v) \<Longrightarrow> keeps_tty w v"
    and "\<And>a v r v'. f a v = (r, v') \<Longrightarrow> keeps_tty v v'"
  shows "keeps_tty w w'"
  using assms by (auto simp: io_bind_def split: prod.splits sum.splits intro: keeps_tty_trans)

lemma render_keeps: "render_text_page label lines offset view w = (r, w') \<Longrightarrow> keeps_tty w w'"
  unfolding render_text_page_def
  by (erule io_bind_keeps) (auto dest: write_tty_keeps flush_drawn_keeps)

text \<open>One iteration of the pager: the page could not be drawn, the key closes it, or it shows the next page.\<close>

lemma pager_iteration [consumes 1, case_names undrawn closed paged]:
  assumes "(case render_text_page label lines offset view w of
        (Inl e, w1) \<Rightarrow> Some (Inl e, w1)
      | (Inr _, w1) \<Rightarrow>
          Option.bind (read_key deadline w1)
            (\<lambda>(r, w2). case r of
               Inl e \<Rightarrow> Some (Inl e, w2)
             | Inr None \<Rightarrow> Some (Inr (), w2)
             | Inr (Some key) \<Rightarrow>
                 (case page_step (length lines) (page_rows view) key offset of
                    None \<Rightarrow> Some (Inr (), w2)
                  | Some offset' \<Rightarrow> loop label lines view deadline offset' w2))) =
    Some (x :: (('json, 'img) app_error + unit) \<times> tty_world)"
  obtains e where "render_text_page label lines offset view w = (Inl e, snd x)" "fst x = Inl e"
    | w1 k where "render_text_page label lines offset view w = (Inr () :: ('json, 'img) app_error + unit, w1)"
      "read_key deadline w1 = Some (k :: ('json, 'img) app_error + byte option, snd x)"
    | w1 w2 key offset' where "render_text_page label lines offset view w = (Inr () :: ('json, 'img) app_error + unit, w1)"
      "read_key deadline w1 = Some (Inr (Some key) :: ('json, 'img) app_error + byte option, w2)"
      "page_step (length lines) (page_rows view) key offset = Some offset'"
      "loop label lines view deadline offset' w2 = Some x"
proof -
  obtain q w1 where render: "render_text_page label lines offset view w = (q :: ('json, 'img) app_error + unit, w1)"
    by fastforce
  show ?thesis
  proof (cases q)
    case (Inl e)
    with assms render that(1) show ?thesis by auto
  next
    case (Inr u)
    with assms render obtain k w2 where key: "read_key deadline w1 = Some (k :: ('json, 'img) app_error + byte option, w2)"
      and rest: "(case k of Inl e \<Rightarrow> Some (Inl e, w2) | Inr None \<Rightarrow> Some (Inr (), w2)
        | Inr (Some key) \<Rightarrow> (case page_step (length lines) (page_rows view) key offset of
            None \<Rightarrow> Some (Inr (), w2)
          | Some offset' \<Rightarrow> loop label lines view deadline offset' w2)) = Some x"
      by (auto simp: bind_eq_Some_conv)
    have drawn: "render_text_page label lines offset view w = (Inr () :: ('json, 'img) app_error + unit, w1)"
      using render Inr by simp
    show ?thesis
    proof (cases "snd x = w2")
      case True
      then show ?thesis using that(2) [OF drawn] key by simp
    next
      case False
      with rest obtain c offset' where "k = Inr (Some c)"
        "page_step (length lines) (page_rows view) c offset = Some offset'"
        "loop label lines view deadline offset' w2 = Some x"
        by (auto split: sum.splits option.splits)
      then show ?thesis using that(3) [OF drawn] key by simp
    qed
  qed
qed

lemma pager_loop_keeps:
  assumes "pager_loop label lines view deadline offset w = Some (r :: ('json, 'img) app_error + unit, w')"
  shows "keeps_tty w w'"
proof -
  have "keeps_tty w (snd x)" if "pager_loop label lines view deadline offset w = Some x"
    for x :: "(('json, 'img) app_error + unit) \<times> tty_world"
    using that
  proof (induction rule: pager_loop.raw_induct [rotated, consumes 1, case_names step])
    case (step loop label lines view deadline offset w x)
    from step(2) show ?case
    proof (cases rule: pager_iteration)
      case (undrawn e)
      then show ?thesis by (blast intro: render_keeps)
    next
      case (closed w1 k)
      then show ?thesis
        using keeps_tty_trans [OF render_keeps [OF closed(1)]] read_key_keeps [OF closed(2)] by simp
    next
      case (paged w1 w2 key offset')
      have "keeps_tty w w2"
        using keeps_tty_trans [OF render_keeps [OF paged(1)]] read_key_keeps [OF paged(2)] by simp
      then show ?thesis
        using step(1) [OF paged(4)] by (rule keeps_tty_trans)
    qed
  qed
  from this [OF assms] show ?thesis by simp
qed

lemma close_loop_keeps:
  assumes "close_loop deadline w = Some (r :: ('json, 'img) app_error + unit, w')"
  shows "keeps_tty w w' \<and> tty_output w' = tty_output w"
proof -
  have "keeps_tty w (snd x) \<and> tty_output (snd x) = tty_output w" if "close_loop deadline w = Some x"
    for x :: "(('json, 'img) app_error + unit) \<times> tty_world"
    using that
  proof (induction rule: close_loop.raw_induct [rotated, consumes 1, case_names step])
    case (step loop deadline w x)
    then obtain k w1 where rd: "read_key deadline w = Some (k :: ('json, 'img) app_error + byte option, w1)"
      and rest: "(case k of Inl e \<Rightarrow> Some (Inl e, w1) | Inr None \<Rightarrow> Some (Inr (), w1)
        | Inr (Some key) \<Rightarrow> if key = CHR ''q'' \<or> key = ESC then Some (Inr (), w1) else loop deadline w1) = Some x"
      by (auto simp: bind_eq_Some_conv)
    have next_key: "keeps_tty w (snd x) \<and> tty_output (snd x) = tty_output w" if "loop deadline w1 = Some x"
      using step(1) [OF that] read_key_keeps [OF rd] keeps_tty_trans by metis
    from read_key_keeps [OF rd] rest next_key show ?case
      by (auto split: sum.splits option.splits if_splits)
  qed
  from this [OF assms] show ?thesis by simp
qed

section \<open>Clients of the screen\<close>

text \<open>What the guard needs of the code between entering and leaving, and what it gives in return.\<close>

locale screen_client =
  fixes body :: "tty_world \<Rightarrow> ((('json, 'img) app_error + unit) \<times> tty_world) option"
  assumes body_keeps: "body v = Some (r, v') \<Longrightarrow> keeps_tty v v'"

lemma screen_restore_keeps: "screen_restore image_delete w = (r, w') \<Longrightarrow> keeps_tty w w'"
  unfolding screen_restore_def
  by (erule io_bind_keeps) (auto dest: write_tty_keeps tty_io_call_keeps elim!: io_bind_keeps)

lemma screen_drop_attributes:
  "tty_errno w (SetAttributes original) = None \<Longrightarrow>
     tty_attributes (screen_drop image_delete original restored w) = original"
  using screen_restore_keeps [of image_delete w
      "fst (screen_restore image_delete w) :: (unit, unit) app_error + unit"]
  by (auto simp: screen_drop_def raw_mode_drop keeps_tty_def)

text \<open>Entering the screen.\<close>

definition raw_refused :: "tty_world \<Rightarrow> bool" where
  "raw_refused w \<longleftrightarrow> list_ex (\<lambda>c. tty_errno w c \<noteq> None)
     [GetAttributes, FlushInput, SetAttributes (RawOf (tty_attributes w))]"

lemma screen_enter_Inr:
  "screen_enter w = (Inr a :: ('json, 'img) app_error + termios, w1) \<longleftrightarrow>
     \<not> raw_refused w \<and> tty_io_fault w CloneTty = None \<and> tty_io_fault w FlushOutput = None \<and>
     a = tty_attributes w \<and>
     (\<exists>s. write_all enter_sequence (tty_output w) = (Inr (), s) \<and>
        w1 = w\<lparr>tty_script := flushed w, tty_attributes := RawOf (tty_attributes w), tty_output := s\<rparr>)"
proof (cases "raw_refused w \<or> tty_io_fault w CloneTty \<noteq> None")
  case True
  then show ?thesis
    by (auto simp: screen_enter_def raw_refused_def io_bind_def get_attributes_def flush_input_def
        set_attributes_def tty_sys_call_def tty_io_call_def split: option.splits)
next
  case False
  then show ?thesis
    by (auto simp: screen_enter_def raw_refused_def io_bind_def get_attributes_def flush_input_def
        set_attributes_def tty_sys_call_def tty_io_call_def write_tty_def map_err_def flushed_def
        split: option.splits sum.splits prod.splits)
qed

lemma screen_enter_Inl:
  assumes "screen_enter w = (Inl e :: ('json, 'img) app_error + termios, w1)"
    and "tty_errno w (SetAttributes (tty_attributes w)) = None"
  shows "tty_attributes w1 =
    (if \<not> raw_refused w \<and> tty_io_fault w CloneTty \<noteq> None then RawOf (tty_attributes w) else tty_attributes w)"
  using assms
  by (auto simp: screen_enter_def raw_refused_def io_bind_def get_attributes_def flush_input_def
      set_attributes_def tty_sys_call_def tty_io_call_def write_tty_def raw_mode_drop
      split: option.splits sum.splits prod.splits)

lemma screen_restore_Inr:
  assumes "screen_restore image_delete w = (Inr u :: ('json, 'img) app_error + unit, w')"
  shows "stream_out (tty_output w') = stream_out (tty_output w) @ image_delete @ leave_sequence"
  using assms by (auto simp: screen_restore_def io_bind_Inr_iff write_tty_Inr tty_io_call_Inr
      dest!: write_all_Inr)

context screen_client
begin

text \<open>The attributes are restored, except when the guard could not be made.\<close>

lemma attributes_restored:
  assumes "with_screen image_delete body w = Some (r, w')"
    and "tty_errno w (SetAttributes (tty_attributes w)) = None"
  shows "tty_attributes w' =
    (if \<not> raw_refused w \<and> tty_io_fault w CloneTty \<noteq> None then RawOf (tty_attributes w) else tty_attributes w)"
proof (cases "screen_enter w :: (('json, 'img) app_error + termios) \<times> tty_world")
  case (Pair e w1)
  show ?thesis
  proof (cases e)
    case (Inl err)
    with Pair assms(1) have "w' = w1"
      by (simp add: with_screen_def)
    then show ?thesis
      using screen_enter_Inl [OF Pair [unfolded Inl] assms(2)] by simp
  next
    case (Inr a)
    then have a: "a = tty_attributes w" "tty_io_fault w CloneTty = None" "tty_errno w1 = tty_errno w"
      using Pair by (auto simp: screen_enter_Inr)
    obtain q w2 where run: "body w1 = Some (q, w2)"
      using assms(1) Pair Inr by (auto simp: with_screen_def split: option.splits)
    then have w2: "tty_errno w2 = tty_errno w"
      using body_keeps [OF run] a(3) by (simp add: keeps_tty_def)
    obtain t w3 where rest: "screen_restore image_delete w2 = (t :: ('json, 'img) app_error + unit, w3)"
      by fastforce
    then have "tty_errno w3 = tty_errno w"
      using screen_restore_keeps [OF rest] w2 by (simp add: keeps_tty_def)
    with assms Pair Inr run rest a w2 show ?thesis
      by (auto simp: with_screen_def screen_drop_attributes split: sum.splits)
  qed
qed

text \<open>A preview that succeeds has written, around the output of its body, the sequences that enter and
  leave the screen, the latter after the deletion of the image.\<close>

lemma screen_output:
  assumes "with_screen image_delete body w = Some (Inr u, w')" "stream_room (tty_output w) = None"
  shows "\<exists>v v'. body v = Some (Inr (), v') \<and>
    v = w\<lparr>tty_script := flushed w, tty_attributes := RawOf (tty_attributes w),
      tty_output := (tty_output w)\<lparr>stream_out := stream_out (tty_output w) @ enter_sequence\<rparr>\<rparr> \<and>
    stream_out (tty_output w') = stream_out (tty_output v') @ image_delete @ leave_sequence"
proof -
  from assms(1) obtain a v v' w3 where
    enter: "screen_enter w = (Inr a :: ('json, 'img) app_error + termios, v)"
    and run: "body v = Some (Inr (), v')"
    and rest: "screen_restore image_delete v' = (Inr () :: ('json, 'img) app_error + unit, w3)"
    and w': "w' = screen_drop image_delete a True w3"
    by (auto simp: with_screen_def split: sum.splits prod.splits option.splits)
  have "stream_out (tty_output w') = stream_out (tty_output v') @ image_delete @ leave_sequence"
    using screen_restore_Inr [OF rest] by (simp add: w' screen_drop_def)
  with run enter assms(2) show ?thesis
    by (auto simp: screen_enter_Inr write_all_unlimited)
qed

text \<open>A preview returns when its body does.\<close>

lemma screen_returns:
  assumes "\<And>s. body (w\<lparr>tty_script := flushed w, tty_attributes := RawOf (tty_attributes w), tty_output := s\<rparr>) \<noteq> None"
  shows "with_screen image_delete body w \<noteq> None"
proof (cases "screen_enter w :: (('json, 'img) app_error + termios) \<times> tty_world")
  case (Pair e w1)
  show ?thesis
  proof (cases e)
    case (Inr a)
    then have "body w1 \<noteq> None"
      using Pair assms by (auto simp: screen_enter_Inr)
    with Pair Inr show ?thesis
      by (auto simp: with_screen_def split: sum.splits prod.splits)
  qed (simp add: Pair with_screen_def)
qed

end

lemma raster_body_keeps:
  assumes "raster_body args p view placement rnd wire_image w = Some (r :: ('json, 'img) app_error + unit, w')"
  shows "keeps_tty w w'"
proof -
  let ?draw = "io_bind (write_tty (ESC # ''[1;'' @ dec_string (unat (left_column view placement)) @ ''H''))
         (\<lambda>_. io_bind (write_tty wire_image)
         (\<lambda>_. io_bind (write_tty (raster_caption (safe_label p (sat_sub (viewport_columns view) 20)) rnd view))
         (\<lambda>_. flush_drawn))) :: ('json, 'img, unit) tty_io"
  obtain e w1 where draw: "?draw w = (e, w1)" by fastforce
  then have w1: "keeps_tty w w1"
    by (elim io_bind_keeps) (auto dest: write_tty_keeps flush_drawn_keeps elim!: io_bind_keeps)
  show ?thesis
  proof (cases e)
    case (Inl err)
    with assms draw w1 show ?thesis by (simp add: raster_body_def)
  next
    case (Inr u)
    with assms draw have "close_loop (close_deadline (preview_exit_after_ms args) w1) w1 = Some (r, w')"
      by (simp add: raster_body_def)
    from close_loop_keeps [OF this] w1 show ?thesis
      using keeps_tty_trans by blast
  qed
qed

text \<open>The two clients: the pager and the display of an image.\<close>

interpretation text_screen: screen_client
  "\<lambda>v. pager_loop label lines view (close_deadline exit_after_ms v) offset v"
  for label lines view exit_after_ms offset
  by unfold_locales (rule pager_loop_keeps)

interpretation raster_screen: screen_client "raster_body args p view placement rnd wire_image"
  for args p view placement rnd wire_image
  by unfold_locales (rule raster_body_keeps)

section \<open>The pager as a state machine\<close>

text \<open>The pages that follow the one at an offset, by one key each.\<close>

inductive page_walk :: "nat \<Rightarrow> nat \<Rightarrow> nat \<Rightarrow> nat list \<Rightarrow> bool" for n rows where
  walk_end: "page_walk n rows offset []"
| walk_key: "page_step n rows key offset = Some offset' \<Longrightarrow> page_walk n rows offset' offsets \<Longrightarrow>
    page_walk n rows offset (offset' # offsets)"

inductive_simps page_walk_simps [simp]:
  "page_walk n rows offset []"
  "page_walk n rows offset (offset' # offsets)"

inductive_cases page_walk_ConsE: "page_walk n rows offset (offset' # offsets)"

lemma page_step_bound:
  "page_step n rows key offset = Some offset' \<Longrightarrow> offset < n \<Longrightarrow> 0 < rows \<Longrightarrow> offset' < n"
  by (auto simp: page_step_def split: if_splits)

lemma page_walk_bound: "page_walk n rows offset offsets \<Longrightarrow> offset < n \<Longrightarrow> 0 < rows \<Longrightarrow> list_all (\<lambda>k. k < n) offsets"
  by (induction rule: page_walk.induct) (auto dest: page_step_bound)

text \<open>Paging forward: after \<open>k\<close> times the key for the next page.\<close>

lemma page_walk_snoc:
  "page_walk n rows offset offsets \<Longrightarrow> page_step n rows key (last (offset # offsets)) = Some offset' \<Longrightarrow>
     page_walk n rows offset (offsets @ [offset'])"
  by (induction rule: page_walk.induct) (auto split: if_splits)

lemma page_walk_forward:
  assumes "0 < rows" "k * rows < n"
  shows "\<exists>offsets. page_walk n rows 0 offsets \<and> last (0 # offsets) = k * rows"
  using assms(2)
proof (induction k)
  case 0
  show ?case
    by (intro exI [of _ "[]"]) simp
next
  case (Suc k)
  then obtain offsets where walk: "page_walk n rows 0 offsets" "last (0 # offsets) = k * rows"
    using assms(1) by (metis add_lessD1 mult_Suc add.commute)
  have "page_step n rows (CHR ''j'') (last (0 # offsets)) = Some (Suc k * rows)"
    unfolding walk(2) using Suc.prems by (simp add: page_step_def add.commute)
  from page_walk_snoc [OF walk(1) this] show ?case
    by (intro exI [of _ "offsets @ [Suc k * rows]"]) simp
qed

lemma page_rows_pos [simp]: "0 < page_rows view"
  by (simp add: page_rows_def unat_max)

text \<open>The loop writes the pages of a walk.\<close>

lemma render_unlimited:
  assumes "render_text_page label lines offset view w = (Inr u, w1)" "stream_room (tty_output w) = None"
  shows "w1 = w\<lparr>tty_output := (tty_output w)\<lparr>stream_out := stream_out (tty_output w)
    @ text_page label lines offset view\<rparr>, tty_now := tty_now w + tty_draw_time w\<rparr>"
  using assms by (auto simp: render_text_page_def io_bind_Inr_iff write_tty_Inr flush_drawn_Inr
      write_all_unlimited)

lemma pager_loop_pages:
  assumes "pager_loop label lines view deadline offset w = Some (Inr () :: ('json, 'img) app_error + unit, w')"
    and "stream_room (tty_output w) = None"
  shows "\<exists>offsets. page_walk (length lines) (page_rows view) offset offsets \<and>
    stream_out (tty_output w') = stream_out (tty_output w) @
      concat (map (\<lambda>k. text_page label lines k view) (offset # offsets))"
proof -
  have "fst x = Inr () \<longrightarrow> stream_room (tty_output w) = None \<longrightarrow>
      (\<exists>offsets. page_walk (length lines) (page_rows view) offset offsets \<and>
       stream_out (tty_output (snd x)) = stream_out (tty_output w) @
         concat (map (\<lambda>k. text_page label lines k view) (offset # offsets)))"
    if "pager_loop label lines view deadline offset w = Some x"
    for x :: "(('json, 'img) app_error + unit) \<times> tty_world"
    using that
  proof (induction rule: pager_loop.raw_induct [rotated, consumes 1, case_names step])
    case (step loop label lines view deadline offset w x)
    have drawn: "stream_out (tty_output u) = stream_out (tty_output w) @ text_page label lines offset view \<and>
        stream_room (tty_output u) = None"
      if "render_text_page label lines offset view w = (Inr () :: ('json, 'img) app_error + unit, w1)"
        "read_key deadline w1 = Some (k :: ('json, 'img) app_error + byte option, u)"
        "stream_room (tty_output w) = None" for w1 u k
      using render_unlimited [OF that(1,3)] read_key_keeps [OF that(2)] that(3) by simp
    from step(2) show ?case
    proof (cases rule: pager_iteration)
      case (closed w1 k)
      with drawn [OF closed] show ?thesis
        by (intro impI exI [of _ "[]"]) simp
    next
      case (paged w1 w2 key offset')
      show ?thesis
      proof (intro impI)
        assume ok: "fst x = Inr ()" "stream_room (tty_output w) = None"
        note out = drawn [OF paged(1,2) ok(2)]
        from step(1) [OF paged(4)] ok(1) conjunct2 [OF out] obtain offsets where
          "page_walk (length lines) (page_rows view) offset' offsets"
          "stream_out (tty_output (snd x)) = stream_out (tty_output w2) @
             concat (map (\<lambda>k. text_page label lines k view) (offset' # offsets))"
          by (elim impE) auto
        with paged(3) out show "\<exists>offsets. page_walk (length lines) (page_rows view) offset offsets \<and>
            stream_out (tty_output (snd x)) = stream_out (tty_output w) @
              concat (map (\<lambda>k. text_page label lines k view) (offset # offsets))"
          by (intro exI [of _ "offset' # offsets"]) auto
      qed
    qed simp
  qed
  from this [OF assms(1)] assms(2) show ?thesis by simp
qed

text \<open>The pager returns when there is a deadline or a closing event that no read before it takes.\<close>

lemma read_key_cases:
  assumes "deadline \<noteq> None \<or> has_close draw (tty_now w) (tty_script w)"
  shows "\<exists>r w'. read_key deadline w = Some (r :: ('json, 'img) app_error + byte option, w') \<and>
    (\<forall>key. r = Inr (Some key) \<longrightarrow> script_size (tty_script w') < script_size (tty_script w) \<and>
      (deadline \<noteq> None \<or> key = CHR ''q'' \<or> key = ESC \<or> has_close draw (tty_now w' + draw) (tty_script w')))"
proof -
  have "deadline \<noteq> None \<or> has_input (tty_script w)"
    using assms has_close_input by blast
  then obtain r now script where run: "key_loop deadline (tty_now w) (tty_script w) =
      Some (r :: ('json, 'img) app_error + byte option, now, script)"
    using key_loop_returns by (metis prod_cases3)
  then show ?thesis
    using key_loop_progress [of deadline "tty_now w" "tty_script w" _ now script draw, where 'json = 'json and 'img = 'img]
      assms by (auto simp: read_key_def)
qed

lemma render_script:
  "render_text_page label lines offset view w = (Inr u, w1) \<Longrightarrow>
     tty_script w1 = tty_script w \<and> tty_now w1 = tty_now w + tty_draw_time w"
  by (auto simp: render_text_page_def io_bind_Inr_iff write_tty_Inr flush_drawn_Inr)

lemma pager_loop_returns:
  assumes "deadline \<noteq> None \<or> has_close (tty_draw_time w) (tty_now w + tty_draw_time w) (tty_script w)"
  shows "\<exists>x :: (('json, 'img) app_error + unit) \<times> tty_world.
    pager_loop label lines view deadline offset w = Some x"
  using assms
proof (induction "script_size (tty_script w)" arbitrary: w offset rule: less_induct)
  case less
  obtain e w1 where render: "render_text_page label lines offset view w =
      (e :: ('json, 'img) app_error + unit, w1)"
    by fastforce
  show ?case
  proof (cases e)
    case (Inl err)
    with render show ?thesis by (subst pager_loop.simps) simp
  next
    case (Inr u)
    note w1 = render_script [OF render [unfolded Inr]]
    then obtain r w2 where rd: "read_key deadline w1 = Some (r :: ('json, 'img) app_error + byte option, w2)"
      and next_key: "\<And>key. r = Inr (Some key) \<Longrightarrow> script_size (tty_script w2) < script_size (tty_script w) \<and>
        (deadline \<noteq> None \<or> key = CHR ''q'' \<or> key = ESC \<or>
         has_close (tty_draw_time w) (tty_now w2 + tty_draw_time w) (tty_script w2))"
      using read_key_cases [of deadline "tty_draw_time w" w1] less.prems by auto
    have "tty_draw_time w2 = tty_draw_time w"
      using render_keeps [OF render] read_key_keeps [OF rd] by (simp add: keeps_tty_def)
    then have "\<exists>x :: (('json, 'img) app_error + unit) \<times> tty_world. pager_loop label lines view deadline o' w2 = Some x"
      if "r = Inr (Some key)" "page_step (length lines) (page_rows view) key offset = Some o'" for key o'
      using next_key [OF that(1)] that(2) by (intro less.hyps) (auto simp: page_step_def)
    with render Inr rd show ?thesis
      by (subst pager_loop.simps) (auto split: sum.splits option.splits)
  qed
qed

lemma close_loop_returns:
  assumes "deadline \<noteq> None \<or> has_close draw (tty_now w) (tty_script w)"
  shows "\<exists>x :: (('json, 'img) app_error + unit) \<times> tty_world. close_loop deadline w = Some x"
  using assms
proof (induction "script_size (tty_script w)" arbitrary: w rule: less_induct)
  case less
  obtain r w2 where rd: "read_key deadline w = Some (r :: ('json, 'img) app_error + byte option, w2)"
    and next_key: "\<And>key. r = Inr (Some key) \<Longrightarrow> script_size (tty_script w2) < script_size (tty_script w) \<and>
      (deadline \<noteq> None \<or> key = CHR ''q'' \<or> key = ESC \<or> has_close draw (tty_now w2 + draw) (tty_script w2))"
    using read_key_cases [of deadline draw w] less.prems by blast
  have "\<exists>x :: (('json, 'img) app_error + unit) \<times> tty_world. close_loop deadline w2 = Some x"
    if "r = Inr (Some key)" "key \<noteq> CHR ''q''" "key \<noteq> ESC" for key
    using next_key [OF that(1)] that(2,3) has_close_earlier [of draw "tty_now w2 + draw" "tty_script w2" "tty_now w2"]
    by (intro less.hyps) auto
  with rd show ?case
    by (subst close_loop.simps) (auto split: sum.splits option.splits)
qed

lemma fit_raster_within:
  assumes "fit_raster iw ih view reserved = Inr p"
  shows "unat (placement_columns p) \<le> unat (viewport_columns view)"
    "unat (placement_rows p) \<le> unat (viewport_rows view) - unat reserved"
proof -
  note c = fit_raster_Inr_cases [OF assms]
  obtain x y ph where xy: "scaled_nat (unat iw) (unat ih) (unat (available_width view)) (max 1 ph) = (x, y)"
    and p: "unat (placement_columns p) = ceil_div (x * unat (viewport_columns view)) (unat (available_width view))"
    "unat (placement_rows p) \<le> unat (viewport_rows view) - unat reserved"
    using fit_raster_Inr [OF assms] by (metis min.cobounded1)
  have pos: "0 < unat iw" "0 < unat ih" "0 < unat (available_width view)"
    using c available_width_bounds [OF c(1)] by (simp_all only: unat_gt_0 simp_thms)
  show "unat (placement_columns p) \<le> unat (viewport_columns view)"
    using scaled_columns_le [OF pos(3) scaled_nat_bounds(3) [OF pos _ xy]] by (simp add: p(1))
  show "unat (placement_rows p) \<le> unat (viewport_rows view) - unat reserved"
    by (rule p(2))
qed

lemma unat_left_column:
  assumes "unat (placement_columns p) \<le> unat (viewport_columns view)"
  shows "unat (left_column view p) = (unat (viewport_columns view) - unat (placement_columns p)) div 2 + 1"
proof -
  have "(unat (viewport_columns view) - unat (placement_columns p)) div 2 \<le> 65535 div 2"
    using unat_small(1) [of "viewport_columns view"] by (intro div_le_mono) simp
  then show ?thesis
    by (simp add: left_column_def unat_sat_add unat_checked_div unat_sat_sub)
qed

lemma wrapped_not_Nil: "wrapped_text_lines str columns \<noteq> []"
  by (simp add: wrapped_text_lines_def Let_def)

text \<open>The lines of a page.\<close>

lemma text_page_line:
  assumes "k \<le> i" "i < k + page_rows view" "i < length lines"
  shows "\<exists>before after. text_page label lines k view = before @ lines ! i @ ESC # ''[K'' @ after"
proof -
  let ?shown = "drop k (take (min (k + page_rows view) (length lines)) lines)"
  have "i - k < length ?shown" "?shown ! (i - k) = lines ! i"
    using assms by simp_all
  then obtain xs ys where "?shown = xs @ lines ! i # ys"
    by (metis id_take_nth_drop)
  then show ?thesis
    unfolding text_page_def Let_def
    by (simp only: map_append list.map concat_append concat.simps) (simp, metis append.assoc append_Cons)
qed

lemma has_close_flushed:
  assumes "has_close draw (tty_now w + draw) (tty_script w)"
  shows "has_close draw (tty_now w + draw) (flushed w)"
proof -
  have "has_close draw later script \<Longrightarrow> now \<le> later \<Longrightarrow>
      has_close draw later (dropWhile (\<lambda>(t, i). t \<le> now) script)" for later now script
  proof (induction script)
    case (Cons e rest)
    obtain t i where e: "e = (t, i)" by fastforce
    show ?case
    proof (cases "t \<le> now")
      case True
      then have "has_close draw (max later t + draw * input_size i) rest"
        using Cons.prems by (auto simp: e)
      then have "has_close draw later rest"
        by (rule has_close_earlier) simp
      with Cons True show ?thesis by (simp add: e)
    qed (use Cons.prems in \<open>simp add: e\<close>)
  qed simp
  with assms show ?thesis
    by (simp add: flushed_def)
qed

text \<open>Drawing an image waits for nothing.\<close>

lemma raster_body_returns:
  assumes "(case preview_exit_after_ms args of None \<Rightarrow> False
      | Some ms \<Rightarrow> tty_now w + tty_draw_time w + unat ms * 1000000 \<le> tty_clock_max w) \<or>
    has_close (tty_draw_time w) (tty_now w + tty_draw_time w) (tty_script w)"
  shows "\<exists>x :: (('json, 'img) app_error + unit) \<times> tty_world.
    raster_body args p view placement rnd wire_image w = Some x"
proof -
  let ?draw = "io_bind (write_tty (ESC # ''[1;'' @ dec_string (unat (left_column view placement)) @ ''H''))
         (\<lambda>_. io_bind (write_tty wire_image)
         (\<lambda>_. io_bind (write_tty (raster_caption (safe_label p (sat_sub (viewport_columns view) 20)) rnd view))
         (\<lambda>_. flush_drawn))) :: ('json, 'img, unit) tty_io"
  obtain e w1 where draw: "?draw w = (e, w1)" by fastforce
  show ?thesis
  proof (cases e)
    case (Inl err)
    with draw show ?thesis by (simp add: raster_body_def)
  next
    case (Inr u)
    with draw have "tty_script w1 = tty_script w" "tty_now w1 = tty_now w + tty_draw_time w"
      "tty_clock_max w1 = tty_clock_max w"
      by (auto simp: io_bind_Inr_iff write_tty_Inr flush_drawn_Inr)
    then have "close_deadline (preview_exit_after_ms args) w1 \<noteq> None \<or>
        has_close (tty_draw_time w) (tty_now w1) (tty_script w1)"
      using assms by (auto simp: close_deadline_def Let_def split: option.splits)
    from close_loop_returns [OF this] draw Inr show ?thesis
      by (simp add: raster_body_def)
  qed
qed

lemma show_text_terminal:
  assumes "show_text args p str view w = Some (r :: ('json, 'img) app_error + unit, w')" "guarded w"
  shows "tty_attributes w' = tty_attributes w"
proof (cases "tty_io_fault w (OpenTty (preview_tty args))")
  case None
  with assms have "with_screen [] (\<lambda>v. pager_loop (safe_label p (sat_sub (viewport_columns view) 2))
      (wrapped_text_lines str (viewport_columns view)) view (close_deadline (preview_exit_after_ms args) v) 0 v) w
      = Some (r, w')"
    by (simp add: show_text_def tty_io_call_def)
  from text_screen.attributes_restored [OF this] assms(2) show ?thesis
    by (simp add: guarded_def)
next
  case (Some e)
  with assms show ?thesis by (simp add: show_text_def tty_io_call_def)
qed

lemma show_raster_terminal:
  assumes "show_raster env codec args p artifact view rnd transport w = Some (r :: ('json, 'img) app_error + unit, w')"
    and "guarded w"
  shows "tty_attributes w' = tty_attributes w"
proof -
  from assms(1) consider "w' = w"
    | del placement wire_image where
      "with_screen del (raster_body args p view placement rnd wire_image) w = Some (r, w')"
    by (auto simp: show_raster_def Let_def tty_io_call_def split: sum.splits option.splits prod.splits)
  then show ?thesis
  proof cases
    case 2
    from raster_screen.attributes_restored [OF 2] assms(2) show ?thesis
      by (simp add: guarded_def)
  qed simp
qed

text \<open>A terminal whose user presses \<open>q\<close>.\<close>

definition demo_view :: viewport where
  "demo_view = \<lparr>viewport_columns = 80, viewport_rows = 24, viewport_pixel_width = Some 640,
     viewport_pixel_height = Some 384\<rparr>"

lemma key_loop_quit:
  "now < t \<Longrightarrow> t \<le> now + INPUT_POLL \<Longrightarrow> key_loop None now [(t, Arrives ''q'')] = Some (Inr (Some (CHR ''q'')), t, [])"
  by (subst key_loop.simps) (simp add: get_at_def max_def)

text \<open>A terminal in raw mode that has been sent \<open>cs\<close>: before and after the key \<open>q\<close>.\<close>

definition demo_screen :: "bytes \<Rightarrow> tty_world" where
  "demo_screen cs = (demo_tty [(5, Arrives ''q'')])\<lparr>tty_attributes := RawOf (Attributes ''cooked''),
     tty_output := open_stream UnexpectedEof []\<lparr>stream_out := cs\<rparr>\<rparr>"

definition demo_closed :: "bytes \<Rightarrow> tty_world" where
  "demo_closed cs = (demo_screen cs)\<lparr>tty_now := 5, tty_script := []\<rparr>"

lemma demo_enter:
  "screen_enter (demo_tty [(5, Arrives ''q'')]) =
     (Inr (Attributes ''cooked'') :: ('json, 'img) app_error + termios, demo_screen enter_sequence)"
  by (simp add: screen_enter_Inr raw_refused_def demo_screen_def demo_tty_def write_all_unlimited open_stream_def
      flushed_def)

lemma demo_read_key:
  "read_key None (demo_screen cs) =
     Some (Inr (Some (CHR ''q'')) :: ('json, 'img) app_error + byte option, demo_closed cs)"
  using key_loop_quit [of 0 5, where 'a = 'json and 'b = 'img]
  by (simp add: read_key_def demo_screen_def demo_closed_def demo_tty_def INPUT_POLL_def)

lemma demo_write:
  "write_tty bs (demo_screen cs) = (Inr () :: ('json, 'img) app_error + unit, demo_screen (cs @ bs))"
  by (simp add: write_tty_def write_all_unlimited demo_screen_def open_stream_def map_err_def)

lemma demo_calls:
  "tty_io_call c (demo_screen cs) = (Inr () :: ('json, 'img) app_error + unit, demo_screen cs)"
  "tty_io_call (OpenTty q) (demo_tty script) = (Inr () :: ('json, 'img) app_error + unit, demo_tty script)"
  "close_deadline (preview_exit_after_ms demo_preview_args) v = None"
  by (simp_all add: tty_io_call_def demo_screen_def demo_tty_def close_deadline_def demo_preview_args_def)

lemma demo_flush:
  "flush_drawn (demo_screen cs) = (Inr () :: ('json, 'img) app_error + unit, demo_screen cs)"
  by (simp add: flush_drawn_def io_bind_def demo_calls(1)) (simp add: demo_screen_def demo_tty_def)

lemma demo_restore:
  "\<exists>w'. screen_restore del (demo_closed cs) = (Inr () :: ('json, 'img) app_error + unit, w')"
  by (simp add: screen_restore_def io_bind_def write_tty_def write_all_unlimited tty_io_call_def map_err_def
      demo_closed_def demo_screen_def demo_tty_def open_stream_def)

text \<open>A body that has written something and then met the key.\<close>

lemma demo_with_screen:
  assumes "body (demo_screen enter_sequence) = Some (Inr () :: ('json, 'img) app_error + unit, demo_closed cs)"
  shows "\<exists>w'. with_screen del body (demo_tty [(5, Arrives ''q'')]) =
    Some (Inr () :: ('json, 'img) app_error + unit, w')"
proof -
  obtain w' where "screen_restore del (demo_closed cs) = (Inr () :: ('json, 'img) app_error + unit, w')"
    using demo_restore by blast
  then show ?thesis
    by (simp only: with_screen_def demo_enter prod.case sum.case assms option.case) simp
qed

lemma demo_show_text:
  "\<exists>w'. show_text demo_preview_args p str view (demo_tty [(5, Arrives ''q'')]) =
     Some (Inr () :: ('json, 'img) app_error + unit, w')"
proof -
  let ?label = "safe_label p (sat_sub (viewport_columns view) 2)"
  let ?lines = "wrapped_text_lines str (viewport_columns view)"
  have "pager_loop ?label ?lines view None 0 (demo_screen enter_sequence) =
      Some (Inr () :: ('json, 'img) app_error + unit, demo_closed (enter_sequence @ text_page ?label ?lines 0 view))"
    by (subst pager_loop.simps)
      (simp add: render_text_page_def io_bind_def demo_write demo_flush demo_read_key page_step_def)
  then show ?thesis
    using demo_with_screen [of "\<lambda>v. pager_loop ?label ?lines view
        (close_deadline (preview_exit_after_ms demo_preview_args) v) 0 v"]
    by (simp add: show_text_def demo_calls(2,3))
qed

definition demo_image :: raster_artifact where
  "demo_image = \<lparr>artifact_width = 8, artifact_height = 16, artifact_rgba = [], artifact_png = ''png''\<rparr>"

lemma demo_fit:
  "fit_raster 8 16 demo_view 2 = (Inr \<lparr>placement_columns = 1, placement_rows = 1, placement_pixel_width = 8,
     placement_pixel_height = 16\<rparr> :: 'img artifact_error + raster_placement)"
  by (simp add: demo_view_def fit_raster_def Let_def sat_sub_def sat_add_def sat_mul_def available_width_def
      full_height_def positive_def unwrap_or_def checked_div_def scaled_size_def clamp_def u64_from16_def
      u64_from32_def u16_try_from_def u32_try_from_def word_le_nat_alt word_less_nat_alt)

lemma demo_show_raster:
  "\<exists>w'. show_raster demo_preview_env demo_preview_codec demo_preview_args ''/a'' demo_image demo_view Kgp Direct
      (demo_tty [(5, Arrives ''q'')]) = Some (Inr () :: ('json, unit) app_error + unit, w')"
proof -
  let ?p = "\<lparr>placement_columns = 1, placement_rows = 1, placement_pixel_width = 8, placement_pixel_height = 16\<rparr>"
  obtain encoded where enc: "logical_image demo_preview_env demo_preview_codec demo_image ?p
      (max (env_process_id demo_preview_env) 1) Kgp = (Inr encoded :: ('json, unit) app_error + bytes)"
    by (simp add: logical_image_def encode_png_display_def demo_image_def demo_preview_env_def map_err_def Let_def)
  have close: "close_loop None (demo_screen cs) = Some (Inr () :: ('json, unit) app_error + unit, demo_closed cs)" for cs
    by (subst close_loop.simps) (simp add: demo_read_key)
  have "\<exists>cs. raster_body demo_preview_args ''/a'' demo_view ?p Kgp encoded (demo_screen enter_sequence) =
      Some (Inr () :: ('json, unit) app_error + unit, demo_closed cs)"
    by (simp add: raster_body_def io_bind_def demo_write demo_flush demo_calls(3) close) (rule exI, rule refl)
  then obtain cs where "raster_body demo_preview_args ''/a'' demo_view ?p Kgp encoded (demo_screen enter_sequence) =
      Some (Inr () :: ('json, unit) app_error + unit, demo_closed cs)"
    by blast
  then show ?thesis
    using enc demo_with_screen [of "raster_body demo_preview_args ''/a'' demo_view ?p Kgp encoded"]
    by (simp add: show_raster_def demo_image_def demo_fit map_err_def demo_calls(2) transport_payload_def Let_def)
qed

lemma raster_body_output:
  assumes "raster_body args p view placement rnd wire_image w = Some (Inr () :: ('json, 'img) app_error + unit, w')"
    and "stream_room (tty_output w) = None"
  shows "stream_out (tty_output w') = stream_out (tty_output w) @
    ESC # ''[1;'' @ dec_string (unat (left_column view placement)) @ ''H'' @ wire_image @
    raster_caption (safe_label p (sat_sub (viewport_columns view) 20)) rnd view"
proof -
  let ?draw = "io_bind (write_tty (ESC # ''[1;'' @ dec_string (unat (left_column view placement)) @ ''H''))
         (\<lambda>_. io_bind (write_tty wire_image)
         (\<lambda>_. io_bind (write_tty (raster_caption (safe_label p (sat_sub (viewport_columns view) 20)) rnd view))
         (\<lambda>_. flush_drawn))) :: ('json, 'img, unit) tty_io"
  obtain e w1 where draw: "?draw w = (e, w1)" by fastforce
  with assms(1) obtain u where "e = Inr u"
    and rest: "close_loop (close_deadline (preview_exit_after_ms args) w1) w1 =
      Some (Inr () :: ('json, 'img) app_error + unit, w')"
    by (cases e) (simp_all add: raster_body_def)
  with draw assms(2) close_loop_keeps [OF rest] show ?thesis
    by (auto simp: io_bind_Inr_iff write_tty_Inr flush_drawn_Inr write_all_unlimited)
qed

section \<open>Properties\<close>

text \<open>C17: A text preview that ends well has shown pages of its text and nothing else: the screen was
  entered, the pages are those of a walk of the pager from the first line, each starting at a line
  that exists, and the screen was left.\<close>

theorem show_text_screen:
  assumes "show_text args p str view w = Some (Inr () :: ('json, 'img) app_error + unit, w')"
    and "stream_room (tty_output w) = None"
  shows "let lines = wrapped_text_lines str (viewport_columns view);
      label = safe_label p (sat_sub (viewport_columns view) 2) in
    \<exists>offsets. page_walk (length lines) (page_rows view) 0 offsets \<and>
      list_all (\<lambda>k. k < length lines) (0 # offsets) \<and>
      stream_out (tty_output w') = stream_out (tty_output w) @ enter_sequence @
        concat (map (\<lambda>k. text_page label lines k view) (0 # offsets)) @ leave_sequence"
proof -
  let ?lines = "wrapped_text_lines str (viewport_columns view)"
  let ?label = "safe_label p (sat_sub (viewport_columns view) 2)"
  have "with_screen [] (\<lambda>v. pager_loop ?label ?lines view (close_deadline (preview_exit_after_ms args) v) 0 v) w =
      Some (Inr () :: ('json, 'img) app_error + unit, w')"
    using assms(1) by (auto simp: show_text_def tty_io_call_def split: option.splits)
  from text_screen.screen_output [OF this assms(2)] obtain v v' where
    run: "pager_loop ?label ?lines view (close_deadline (preview_exit_after_ms args) v) 0 v =
      Some (Inr () :: ('json, 'img) app_error + unit, v')"
    and v: "stream_out (tty_output v) = stream_out (tty_output w) @ enter_sequence"
      "stream_room (tty_output v) = None"
    and w': "stream_out (tty_output w') = stream_out (tty_output v') @ leave_sequence"
    using assms(2) by auto
  from pager_loop_pages [OF run v(2)] v(1) w' page_walk_bound wrapped_not_Nil show ?thesis
    by (auto simp: Let_def)
qed

theorem show_text_screen_witness:
  "\<exists>offsets w'. show_text demo_preview_args ''/a'' ''hello'' demo_view (demo_tty [(5, Arrives ''q'')]) =
      Some (Inr () :: (unit, unit) app_error + unit, w') \<and>
    list_all (\<lambda>k. k < length (wrapped_text_lines ''hello'' 80)) (0 # offsets)"
proof -
  obtain w' where run: "show_text demo_preview_args ''/a'' ''hello'' demo_view (demo_tty [(5, Arrives ''q'')]) =
      Some (Inr () :: (unit, unit) app_error + unit, w')"
    using demo_show_text by blast
  have "stream_room (tty_output (demo_tty [(5, Arrives ''q'')])) = None" "viewport_columns demo_view = 80"
    by (simp_all add: demo_tty_def open_stream_def demo_view_def)
  with show_text_screen [OF run] run show ?thesis
    by (auto simp: Let_def)
qed

text \<open>No line of a text is out of reach: from the first page, the key for the next page leads to
  a page that shows it.\<close>

theorem every_line_shown:
  assumes "i < length lines"
  shows "\<exists>offsets before after. page_walk (length lines) (page_rows view) 0 offsets \<and>
    text_page label lines (last (0 # offsets)) view = before @ lines ! i @ ESC # ''[K'' @ after"
proof -
  let ?k = "i div page_rows view"
  have k: "?k * page_rows view \<le> i" "i < ?k * page_rows view + page_rows view"
    using mod_less_divisor [OF page_rows_pos [of view], of i] div_mult_mod_eq [of i "page_rows view"] by linarith+
  then have "?k * page_rows view < length lines"
    using assms by linarith
  from page_walk_forward [OF page_rows_pos this] obtain offsets where
    "page_walk (length lines) (page_rows view) 0 offsets" "last (0 # offsets) = ?k * page_rows view"
    by blast
  with text_page_line [OF k assms, of label] show ?thesis by metis
qed

theorem every_line_shown_witness:
  "\<exists>offsets before after. page_walk (length [''a'', ''b'', ''c'', ''d'']) (page_rows demo_view) 0 offsets \<and>
     text_page ''l'' [''a'', ''b'', ''c'', ''d''] (last (0 # offsets)) demo_view =
       before @ [''a'', ''b'', ''c'', ''d''] ! 3 @ ESC # ''[K'' @ after"
  by (rule every_line_shown) simp

text \<open>Two keys that one read takes: the second is lost, and a preview it should close goes on.\<close>

lemma merged_keys_lost:
  "key_loop None 0 [(5, Arrives ''j''), (6, Arrives ''q'')] = Some (Inr (Some (CHR ''j'')), 5, [(6, Arrives ''q'')])"
  "key_loop None 6 [(5, Arrives ''j''), (6, Arrives ''q'')] =
     Some (Inr (Some (CHR ''j'')) :: ('json, 'img) app_error + byte option, 6, [])"
  by (subst key_loop.simps, simp add: get_at_def INPUT_POLL_def)+

text \<open>C18: A preview returns, for text and for images, with a closing time that the clock can represent,
  or when its input has an event that closes and that a read begins with: an arrival whose first byte is
  \<open>q\<close> or Escape, the end of the input, or a failed call, which comes after the start and the first
  drawing, after every input before it, and after the time the pages drawn for these inputs can take, so that
  no earlier read takes its first byte.  (A read takes all that has come, up to 32 bytes, and drops all but
  the first, so a \<open>q\<close> that comes close after another key is lost: \<open>merged_keys_lost\<close>.)\<close>

theorem preview_returns:
  assumes "(case preview_exit_after_ms args of None \<Rightarrow> False
      | Some ms \<Rightarrow> tty_now w + tty_draw_time w + unat ms * 1000000 \<le> tty_clock_max w) \<or>
    has_close (tty_draw_time w) (tty_now w + tty_draw_time w) (tty_script w)"
  shows "show_text args p str view w \<noteq> (None :: ((('json, 'img) app_error + unit) \<times> tty_world) option) \<and>
    show_raster env codec args p artifact view rnd transport w \<noteq>
      (None :: ((('json, 'img) app_error + unit) \<times> tty_world) option)"
proof -
  let ?v = "\<lambda>s. w\<lparr>tty_script := flushed w, tty_attributes := RawOf (tty_attributes w), tty_output := s\<rparr>"
  have ready: "(case preview_exit_after_ms args of None \<Rightarrow> False
        | Some ms \<Rightarrow> tty_now (?v s) + tty_draw_time (?v s) + unat ms * 1000000 \<le> tty_clock_max (?v s)) \<or>
      has_close (tty_draw_time (?v s)) (tty_now (?v s) + tty_draw_time (?v s)) (tty_script (?v s))" for s
    using assms has_close_flushed [of "tty_draw_time w" w] by (auto split: option.splits)
  then have timed: "close_deadline (preview_exit_after_ms args) (?v s) \<noteq> None \<or>
      has_close (tty_draw_time (?v s)) (tty_now (?v s) + tty_draw_time (?v s)) (tty_script (?v s))" for s
    by (fastforce simp: close_deadline_def Let_def split: option.splits)
  have pages: "with_screen [] (\<lambda>v. pager_loop label lines view (close_deadline (preview_exit_after_ms args) v) 0 v) w
      \<noteq> (None :: ((('json, 'img) app_error + unit) \<times> tty_world) option)" for label lines
  proof (rule text_screen.screen_returns)
    fix s
    show "pager_loop label lines view (close_deadline (preview_exit_after_ms args) (?v s)) 0 (?v s)
        \<noteq> (None :: ((('json, 'img) app_error + unit) \<times> tty_world) option)"
      using pager_loop_returns [OF timed [of s]] by (metis option.distinct(1))
  qed
  have raster: "with_screen del (raster_body args p view placement rnd wire_image) w
      \<noteq> (None :: ((('json, 'img) app_error + unit) \<times> tty_world) option)" for del placement wire_image
  proof (rule raster_screen.screen_returns)
    fix s
    show "raster_body args p view placement rnd wire_image (?v s)
        \<noteq> (None :: ((('json, 'img) app_error + unit) \<times> tty_world) option)"
      using raster_body_returns [OF ready [of s]] by (metis option.distinct(1))
  qed
  show ?thesis
    using pages raster
    by (auto simp: show_text_def show_raster_def tty_io_call_def Let_def split: option.splits sum.splits)
qed

theorem preview_returns_witness:
  "show_text demo_preview_args ''/a'' ''hello'' demo_view (demo_tty [(5, Arrives ''jjq''), (7, Arrives ''k''), (9, Arrives ''q'')])
     \<noteq> (None :: (((unit, unit) app_error + unit) \<times> tty_world) option)"
  using preview_returns [of "demo_tty [(5, Arrives ''jjq''), (7, Arrives ''k''), (9, Arrives ''q'')]" demo_preview_args
      "''/a''" "''hello''" demo_view demo_preview_env demo_preview_codec, where 'json = unit]
  by (simp add: demo_preview_args_def demo_tty_def get_at_def)

text \<open>The parts of a preview before its screen leave the terminal alone.\<close>

lemma prepare_terminal:
  assumes "io_bind (load_artifact env renv codec p)
      (\<lambda>(p, artifact). io_bind (on_tty (observe_viewport env args transport))
      (\<lambda>view. io_return (p, artifact, view))) w =
      (a :: ('json, 'img) app_error + path \<times> prepared_artifact \<times> viewport, w1)"
    and "guarded (cli_tty w)"
  shows "same_terminal (cli_tty w) (cli_tty w1)"
proof -
  obtain q u where load: "load_artifact env renv codec p w =
      (q :: ('json, 'img) app_error + path \<times> prepared_artifact, u)"
    by fastforce
  have u: "cli_tty u = cli_tty w"
    using keepsD [OF load_artifact_files _ load] by simp
  obtain e v where obs: "observe_viewport env args transport (cli_tty u) = (e :: ('json, 'img) app_error + viewport, v)"
    by fastforce
  have "same_terminal (cli_tty u) v"
    using keepsD [OF leaves_observe _ obs] assms(2) u by simp
  with assms(1) load obs u show ?thesis
    by (auto simp: io_bind_def on_tty_def split: sum.splits)
qed

lemma select_terminal:
  assumes "on_tty (select_renderer env args transport) w = (q :: ('json, 'img) app_error + renderer, w')"
    and "guarded (cli_tty w)"
  shows "same_terminal (cli_tty w) (cli_tty w')"
  using assms leaves_select [of env args transport, where 'a = 'json and 'b = 'img]
  by (auto simp: keeps_def on_tty_def split: prod.splits)

text \<open>However a preview ends, the terminal gets its attributes back: through probing, observing,
  choosing and showing, on every path of success and failure, they are the original ones, provided the
  guard's descriptor can be cloned and the final restoring is not refused.\<close>

lemma preview_restores_terminal:
  assumes "preview_run env renv codec args w = Some (r :: ('json, 'img) app_error + unit, w')"
    and "tty_io_fault (cli_tty w) CloneTty = None"
    and "tty_errno (cli_tty w) (SetAttributes (tty_attributes (cli_tty w))) = None"
  shows "tty_attributes (cli_tty w') = tty_attributes (cli_tty w)"
proof -
  let ?transport = "resolved_transport env (preview_transport args)"
  have start: "guarded (cli_tty w)"
    using assms(2,3) by (simp add: guarded_def)
  obtain a w1 where prepare: "io_bind (load_artifact env renv codec (preview_path args))
      (\<lambda>(p, artifact). io_bind (on_tty (observe_viewport env args ?transport))
      (\<lambda>view. io_return (p, artifact, view))) w =
      (a :: ('json, 'img) app_error + path \<times> prepared_artifact \<times> viewport, w1)"
    by fastforce
  note w1 = prepare_terminal [OF prepare start]
  then have g1: "guarded (cli_tty w1)"
    using start by (simp add: same_terminal_guarded)
  obtain q w2 where select: "on_tty (select_renderer env args ?transport) w1 = (q :: ('json, 'img) app_error + renderer, w2)"
    by fastforce
  note w2 = select_terminal [OF select g1]
  then have g2: "guarded (cli_tty w2)"
    using g1 by (simp add: same_terminal_guarded)
  note run = assms(1) [unfolded preview_run_def Let_def prepare]
  consider (unprepared) "w' = w1"
    | (shown) p str view where "show_text args p str view (cli_tty w1) = Some (r, cli_tty w')"
    | (unselected) "w' = w2"
    | (raster) p raster view rnd where
        "show_raster env codec args p raster view rnd ?transport (cli_tty w2) = Some (r, cli_tty w')"
    using run select by (auto simp: lift_tty_def split: sum.splits prod.splits prepared_artifact.splits)
  then show ?thesis
  proof cases
    case shown
    then show ?thesis
      using show_text_terminal [OF shown g1] w1 by (simp add: same_terminal_def)
  next
    case raster
    then show ?thesis
      using show_raster_terminal [OF raster g2] w1 w2 by (simp add: same_terminal_def)
  qed (use w1 w2 in \<open>simp_all add: same_terminal_def\<close>)
qed

lemma demo_preview_run:
  "\<exists>w'. preview_run demo_preview_env demo_env demo_preview_codec demo_preview_args
      ((demo_cli [(5, Arrives ''q'')] [])\<lparr>cli_files := demo_files\<rparr>) =
    Some (Inr () :: (unit, unit) app_error + unit, w')"
proof -
  let ?w = "(demo_cli [(5, Arrives ''q'')] [])\<lparr>cli_files := demo_files\<rparr>"
  obtain str where load: "load_artifact demo_preview_env demo_env demo_preview_codec ''/a'' ?w =
      (Inr (''/a'', TextPage str) :: (unit, unit) app_error + path \<times> prepared_artifact, ?w)"
    using demo_loaded [of "[(5, Arrives ''q'')]"] by blast
  obtain view where view: "observe_viewport demo_preview_env demo_preview_args Direct
      (demo_tty [(5, Arrives ''q'')]) =
      (Inr view :: (unit, unit) app_error + viewport, demo_tty [(5, Arrives ''q'')])"
    using demo_observed [of "[(5, Arrives ''q'')]"] by blast
  obtain t where shown: "show_text demo_preview_args ''/a'' str view (demo_tty [(5, Arrives ''q'')]) =
      Some (Inr () :: (unit, unit) app_error + unit, t)"
    using demo_show_text by blast
  have sel: "preview_path demo_preview_args = ''/a''"
    "resolved_transport demo_preview_env (preview_transport demo_preview_args) = Direct"
    "cli_tty ?w = demo_tty [(5, Arrives ''q'')]"
    by (simp_all add: demo_preview_args_def resolved_transport_def demo_preview_env_def demo_probe_env_def
        demo_cli_def)
  show ?thesis
    by (simp add: preview_run_def Let_def sel load io_bind_def on_tty_def view lift_tty_def shown
        del: cli_world.update_convs cli_world.select_convs)
qed

theorem preview_restores_terminal_witness:
  "\<exists>w'. preview_run demo_preview_env demo_env demo_preview_codec demo_preview_args
      ((demo_cli [(5, Arrives ''q'')] [])\<lparr>cli_files := demo_files\<rparr>) =
    Some (Inr () :: (unit, unit) app_error + unit, w') \<and>
    tty_attributes (cli_tty w') = Attributes ''cooked''"
proof -
  obtain w' where run: "preview_run demo_preview_env demo_env demo_preview_codec demo_preview_args
      ((demo_cli [(5, Arrives ''q'')] [])\<lparr>cli_files := demo_files\<rparr>) =
    Some (Inr () :: (unit, unit) app_error + unit, w')"
    using demo_preview_run by blast
  from preview_restores_terminal [OF run] run show ?thesis
    by (auto simp: demo_cli_def demo_tty_def)
qed

text \<open>C36: An image preview that ends well has shown exactly the encoded image, inside the screen: the
  placement is the one computed, its columns from the left one on and its rows above the last two stay
  within the viewport, and a KGP image is deleted before the screen is left.\<close>

theorem show_raster_screen:
  assumes "show_raster env codec args p artifact view rnd transport w =
      Some (Inr () :: ('json, 'img) app_error + unit, w')"
    and "stream_room (tty_output w) = None"
  shows "\<exists>placement encoded.
    fit_raster (artifact_width artifact) (artifact_height artifact) view 2 =
      (Inr placement :: 'img artifact_error + raster_placement) \<and>
    logical_image env codec artifact placement (max (env_process_id env) 1) rnd =
      (Inr encoded :: ('json, 'img) app_error + bytes) \<and>
    unat (left_column view placement) + unat (placement_columns placement) \<le> unat (viewport_columns view) + 1 \<and>
    unat (placement_rows placement) + 2 \<le> unat (viewport_rows view) \<and>
    stream_out (tty_output w') = stream_out (tty_output w) @ enter_sequence @
      ESC # ''[1;'' @ dec_string (unat (left_column view placement)) @ ''H'' @
      transport_payload transport encoded @
      raster_caption (safe_label p (sat_sub (viewport_columns view) 20)) rnd view @
      (case rnd of Kgp \<Rightarrow> transport_payload transport (delete_image_number (max (env_process_id env) 1))
       | Sixel \<Rightarrow> []) @ leave_sequence"
proof -
  let ?del = "if rnd = Kgp then transport_payload transport (delete_image_number (max (env_process_id env) 1)) else []"
  from assms(1) obtain placement encoded where
    fit: "fit_raster (artifact_width artifact) (artifact_height artifact) view 2 =
      (Inr placement :: 'img artifact_error + raster_placement)"
    and enc: "logical_image env codec artifact placement (max (env_process_id env) 1) rnd =
      (Inr encoded :: ('json, 'img) app_error + bytes)"
    and run: "with_screen ?del (raster_body args p view placement rnd (transport_payload transport encoded)) w =
      Some (Inr () :: ('json, 'img) app_error + unit, w')"
    by (auto simp: show_raster_def Let_def tty_io_call_def try_bind_Inr_iff map_err_Inr_iff
        split: sum.splits option.splits prod.splits)
  from raster_screen.screen_output [OF run assms(2)] obtain v v' where
    body: "raster_body args p view placement rnd (transport_payload transport encoded) v =
      Some (Inr () :: ('json, 'img) app_error + unit, v')"
    and v: "stream_out (tty_output v) = stream_out (tty_output w) @ enter_sequence"
      "stream_room (tty_output v) = None"
    and w': "stream_out (tty_output w') = stream_out (tty_output v') @ ?del @ leave_sequence"
    using assms(2) by auto
  note within = fit_raster_within [OF fit]
  have "unat (left_column view placement) + unat (placement_columns placement) \<le> unat (viewport_columns view) + 1"
    using within(1) by (simp add: unat_left_column)
  moreover have "unat (placement_rows placement) + 2 \<le> unat (viewport_rows view)"
    using within(2) fit_raster_Inr_cases(2) [OF fit] unat_gt_0 [of "sat_sub (viewport_rows view) 2"]
    by (simp add: unat_sat_sub)
  moreover note raster_body_output [OF body v(2)]
  ultimately show ?thesis
    using fit enc w' v(1)
    by (intro exI [of _ placement] exI [of _ encoded]) (cases rnd; simp)
qed

theorem show_raster_screen_witness:
  "\<exists>w' encoded. show_raster demo_preview_env demo_preview_codec demo_preview_args ''/a'' demo_image demo_view Kgp
      Direct (demo_tty [(5, Arrives ''q'')]) = Some (Inr () :: (unit, unit) app_error + unit, w') \<and>
    suffix (delete_image_number 31 @ leave_sequence) (stream_out (tty_output w'))"
proof -
  obtain w' where run: "show_raster demo_preview_env demo_preview_codec demo_preview_args ''/a'' demo_image demo_view
      Kgp Direct (demo_tty [(5, Arrives ''q'')]) = Some (Inr () :: (unit, unit) app_error + unit, w')"
    using demo_show_raster by blast
  have "stream_room (tty_output (demo_tty [(5, Arrives ''q'')])) = None" "max (env_process_id demo_preview_env) 1 = 31"
    by (simp_all add: demo_tty_def open_stream_def demo_preview_env_def max_def word_le_nat_alt)
  with show_raster_screen [OF run] have "\<exists>out. stream_out (tty_output w') = out @ delete_image_number 31 @ leave_sequence"
    by (auto simp: transport_payload_def)
  with run show ?thesis by (auto simp: suffix_def)
qed

end
