(* ===== verification/Schema_Documents.thy ===== *)
theory Schema_Documents
  imports Cli_Commands
begin

text \<open>
  The schema command: the JSON Schema generated for a document is given the identity of the document
  and its field \<open>schema\<close> is pinned to that identity.  A JSON value is a datatype whose objects are
  lists of members sorted by key, as the maps of \<open>serde_json\<close> are; the generated schema and the text
  of a value are fields of \<open>schema_codec\<close>.
\<close>

section \<open>JSON values\<close>

datatype json_value =
    JsonNull
  | JsonBool bool
  | JsonNumber string
  | JsonString string
  | JsonArray "json_value list"
  | JsonObject "(string \<times> json_value) list"

text \<open>Insertion into a map: an old value is replaced, a new key goes to its place in the order.\<close>

fun json_insert :: "string \<Rightarrow> 'v \<Rightarrow> (string \<times> 'v) list \<Rightarrow> (string \<times> 'v) list" where
  "json_insert k v [] = [(k, v)]"
| "json_insert k v ((k', v') # members) =
     (if k = k' then (k, v) # members
      else if k < k' then (k, v) # (k', v') # members
      else (k', v') # json_insert k v members)"

text \<open>\<open>Value::get\<close>: a value that is no object has no members.\<close>

fun json_get :: "string \<Rightarrow> json_value \<Rightarrow> json_value option" where
  "json_get key (JsonObject members) = map_of members key"
| "json_get key _ = None"

fun as_object :: "json_value \<Rightarrow> (string \<times> json_value) list option" where
  "as_object (JsonObject members) = Some members"
| "as_object _ = None"

section \<open>The schema command\<close>

datatype schema_kind =
    ReceiptSchema | ArtifactRefSchema | NegotiationSchema | OpenIntentSchema | IntentReceiptSchema
  | IntentReadySchema

record 'json schema_codec =
  schema_for :: "schema_kind \<Rightarrow> 'json + json_value"
  value_to_json :: "bool \<Rightarrow> json_value \<Rightarrow> 'json + bytes"

definition pinned_property :: "string \<Rightarrow> json_value \<Rightarrow> json_value" where
  "pinned_property ident property =
     (let exact = (case json_get ''description'' property of
          None \<Rightarrow> []
        | Some description \<Rightarrow> json_insert ''description'' description []) in
      JsonObject (json_insert ''const'' (JsonString ident) exact))"

definition pin_schema :: "string \<Rightarrow> (string \<times> json_value) list \<Rightarrow> (string \<times> json_value) list" where
  "pin_schema ident generated =
     (let root = json_insert ''$id'' (JsonString ident) generated in
      case Option.bind (map_of root ''properties'') as_object of
        None \<Rightarrow> root
      | Some properties \<Rightarrow>
          (case map_of properties ''schema'' of
             None \<Rightarrow> root
           | Some property \<Rightarrow>
               json_insert ''properties''
                 (JsonObject (json_insert ''schema'' (pinned_property ident property) properties)) root))"

definition schema_document ::
  "'json schema_codec \<Rightarrow> schema_kind \<Rightarrow> string \<Rightarrow> bool \<Rightarrow> ('json, 'img) app_error + bytes" where
  "schema_document codec kind ident pretty =
     try_bind (map_err AppJson (schema_for codec kind))
       (\<lambda>val. try_bind
         (ok_or (ContractInvalid ''generated JSON Schema is not an object'') (as_object val))
       (\<lambda>root. serialized_json (value_to_json codec pretty) (JsonObject (pin_schema ident root))))"

text \<open>The schema identity that goes with each document in \<open>emit_schema_document\<close>.\<close>

fun schema_id :: "schema_kind \<Rightarrow> string" where
  "schema_id ReceiptSchema = PROBE_RECEIPT_SCHEMA_V1"
| "schema_id ArtifactRefSchema = ARTIFACT_REF_SCHEMA_V1"
| "schema_id NegotiationSchema = CAPABILITY_NEGOTIATION_SCHEMA_V1"
| "schema_id OpenIntentSchema = OPEN_INTENT_SCHEMA_V1"
| "schema_id IntentReceiptSchema = INTENT_RECEIPT_SCHEMA_V1"
| "schema_id IntentReadySchema = INTENT_READY_SCHEMA_V1"

definition emit_schema_document ::
  "'json schema_codec \<Rightarrow> schema_kind \<Rightarrow> bool \<Rightarrow> ('json, 'img, unit) cli_io" where
  "emit_schema_document codec kind pretty =
     io_bind (io_lift (schema_document codec kind (schema_id kind) pretty)) (write_output None)"

section \<open>Lemmas\<close>

definition sorted_members :: "(string \<times> 'v) list \<Rightarrow> bool" where
  "sorted_members members \<longleftrightarrow> sorted_wrt (<) (map fst members)"

lemma map_of_json_insert [simp]: "map_of (json_insert k v members) = (map_of members)(k \<mapsto> v)"
  by (induction k v members rule: json_insert.induct) (auto simp: fun_upd_twist)

lemma keys_json_insert [simp]: "fst ` set (json_insert k v members) = insert k (fst ` set members)"
  by (induction k v members rule: json_insert.induct) auto

lemma sorted_json_insert:
  "sorted_members members \<Longrightarrow> sorted_members (json_insert k v members)"
proof (induction k v members rule: json_insert.induct)
  case (2 k v k' v' members)
  have "\<forall>x \<in> set (map fst (json_insert k v members)). k' < x"
    if "k' < k" using 2(2) that by (auto simp: sorted_members_def simp flip: image_set)
  then show ?case
    using 2 by (auto simp: sorted_members_def not_less le_less intro: less_trans)
qed (simp add: sorted_members_def)

text \<open>On sorted members an insertion of what is there changes nothing.\<close>

lemma json_insert_same:
  "sorted_members members \<Longrightarrow> map_of members k = Some v \<Longrightarrow> json_insert k v members = members"
proof (induction k v members rule: json_insert.induct)
  case (2 k v k' v' members)
  have "k' < k" if "k \<noteq> k'"
  proof -
    have "k \<in> fst ` set members"
      using 2(3) that by (auto simp: weak_map_of_SomeI dest: map_of_SomeD intro: rev_image_eqI)
    then show ?thesis
      using 2(2) by (auto simp: sorted_members_def)
  qed
  then show ?case
    using 2 by (cases "k = k'") (auto simp: sorted_members_def)
qed simp

lemma json_insert_twice [simp]: "json_insert k v (json_insert k u members) = json_insert k v members"
  by (induction k v members rule: json_insert.induct) auto

lemma as_object_Some [simp]: "as_object v = Some members \<longleftrightarrow> v = JsonObject members"
  by (cases v) auto

lemma json_get_Some: "json_get k v = Some u \<longleftrightarrow> (\<exists>members. v = JsonObject members \<and> map_of members k = Some u)"
  by (cases v) auto

lemma pinned_property_get:
  "json_get ''const'' (pinned_property ident property) = Some (JsonString ident)"
  "json_get ''description'' (pinned_property ident property) = json_get ''description'' property"
  "k \<noteq> ''const'' \<Longrightarrow> k \<noteq> ''description'' \<Longrightarrow> json_get k (pinned_property ident property) = None"
  by (auto simp: pinned_property_def Let_def split: option.splits)

lemma pinned_property_twice [simp]: "pinned_property ident (pinned_property ident property) = pinned_property ident property"
  by (subst (1) pinned_property_def, subst pinned_property_get) (simp add: pinned_property_def)

lemma pin_schema_get:
  "map_of (pin_schema ident root) ''$id'' = Some (JsonString ident)"
  "k \<noteq> ''$id'' \<Longrightarrow> k \<noteq> ''properties'' \<Longrightarrow> map_of (pin_schema ident root) k = map_of root k"
  "map_of root ''properties'' = Some (JsonObject properties) \<Longrightarrow> map_of properties ''schema'' = Some property \<Longrightarrow>
     map_of (pin_schema ident root) ''properties'' =
       Some (JsonObject (json_insert ''schema'' (pinned_property ident property) properties))"
  by (auto simp: pin_schema_def Let_def split: option.splits)


text \<open>The order of the keys, in a value and everything inside it.\<close>

fun keys_ordered :: "json_value \<Rightarrow> bool" where
  "keys_ordered (JsonArray elements) = (\<forall>v \<in> set elements. keys_ordered v)"
| "keys_ordered (JsonObject members) = (sorted_members members \<and> (\<forall>(k, v) \<in> set members. keys_ordered v))"
| "keys_ordered _ = True"

lemma set_json_insert: "set (json_insert k v members) \<subseteq> insert (k, v) (set members)"
  by (induction k v members rule: json_insert.induct) auto

lemma keys_ordered_member:
  "keys_ordered (JsonObject members) \<Longrightarrow> map_of members k = Some v \<Longrightarrow> keys_ordered v"
  by (auto dest!: map_of_SomeD)

lemma keys_ordered_insert:
  "keys_ordered (JsonObject members) \<Longrightarrow> keys_ordered v \<Longrightarrow> keys_ordered (JsonObject (json_insert k v members))"
  using set_json_insert [of k v members] by (auto intro: sorted_json_insert)

lemma keys_ordered_pinned:
  assumes "keys_ordered property"
  shows "keys_ordered (pinned_property ident property)"
proof -
  have nil: "keys_ordered (JsonObject [])"
    by (simp add: sorted_members_def)
  have "keys_ordered (JsonObject (case json_get ''description'' property of
      None \<Rightarrow> [] | Some description \<Rightarrow> json_insert ''description'' description []))"
  proof (cases "json_get ''description'' property")
    case None
    then show ?thesis using nil by simp
  next
    case (Some description)
    then have "keys_ordered description"
      using assms keys_ordered_member by (auto simp only: json_get_Some)
    with keys_ordered_insert [OF nil this] Some show ?thesis by simp
  qed
  then show ?thesis
    unfolding pinned_property_def Let_def by (rule keys_ordered_insert) simp
qed

lemma keys_ordered_pin: 
  assumes "keys_ordered (JsonObject root)"
  shows "keys_ordered (JsonObject (pin_schema ident root))"
proof -
  let ?root = "json_insert ''$id'' (JsonString ident) root"
  have root: "keys_ordered (JsonObject ?root)"
    by (rule keys_ordered_insert [OF assms]) simp
  have "keys_ordered (JsonObject (json_insert ''schema'' (pinned_property ident property) properties))"
    if "map_of ?root ''properties'' = Some (JsonObject properties)" "map_of properties ''schema'' = Some property"
    for properties property
  proof -
    have "keys_ordered (JsonObject properties)"
      using root that(1) by (rule keys_ordered_member)
    then show ?thesis
      by (intro keys_ordered_insert keys_ordered_pinned keys_ordered_member [OF _ that(2)])
  qed
  then show ?thesis
    using root unfolding pin_schema_def Let_def
    by (auto simp: bind_eq_Some_conv simp del: keys_ordered.simps intro: keys_ordered_insert split: option.splits)
qed

lemma pin_schema_twice:
  assumes "keys_ordered (JsonObject root)"
  shows "pin_schema ident (pin_schema ident root) = pin_schema ident root"
proof -
  let ?pinned = "pin_schema ident root"
  have root: "json_insert ''$id'' (JsonString ident) ?pinned = ?pinned"
    using keys_ordered_pin [OF assms] by (intro json_insert_same) (simp_all add: pin_schema_get)
  show ?thesis
  proof (cases "\<exists>properties property. map_of root ''properties'' = Some (JsonObject properties) \<and>
      map_of properties ''schema'' = Some property")
    case True
    then obtain properties property where *: "map_of root ''properties'' = Some (JsonObject properties)"
      "map_of properties ''schema'' = Some property" by blast
    have "json_insert ''properties'' (JsonObject (json_insert ''schema'' (pinned_property ident property) properties))
        ?pinned = ?pinned"
      using keys_ordered_pin [OF assms] by (intro json_insert_same) (simp_all add: pin_schema_get(3) [OF *])
    then show ?thesis
      unfolding pin_schema_def [of ident ?pinned] root by (simp add: Let_def pin_schema_get(3) [OF *])
  next
    case False
    then have "pin_schema ident root = json_insert ''$id'' (JsonString ident) root"
      by (auto simp: pin_schema_def Let_def split: option.splits bind_splits)
    then show ?thesis
      using False by (auto simp: pin_schema_def [of ident "json_insert a b c" for a b c] Let_def split: option.splits bind_splits)
  qed
qed

section \<open>Properties\<close>

text \<open>What publishing a schema may change: the identity, and the field \<open>schema\<close>, which keeps its
  description and admits the identity only.\<close>

definition publishes :: "string \<Rightarrow> json_value \<Rightarrow> json_value \<Rightarrow> bool" where
  "publishes ident generated doc \<longleftrightarrow>
     json_get ''$id'' doc = Some (JsonString ident) \<and>
     (\<forall>k. k \<noteq> ''$id'' \<and> k \<noteq> ''properties'' \<longrightarrow> json_get k doc = json_get k generated) \<and>
     (\<forall>properties field. json_get ''properties'' generated = Some properties \<and>
        json_get ''schema'' properties = Some field \<longrightarrow>
        (\<exists>properties' field'. json_get ''properties'' doc = Some properties' \<and>
           json_get ''schema'' properties' = Some field' \<and>
           json_get ''const'' field' = Some (JsonString ident) \<and>
           json_get ''description'' field' = json_get ''description'' field \<and>
           (\<forall>k. k \<noteq> ''const'' \<and> k \<noteq> ''description'' \<longrightarrow> json_get k field' = None) \<and>
           (\<forall>k. k \<noteq> ''schema'' \<longrightarrow> json_get k properties' = json_get k properties)))"

lemma pin_schema_publishes: "publishes ident (JsonObject root) (JsonObject (pin_schema ident root))"
proof -
  have "\<exists>properties' field'. json_get ''properties'' (JsonObject (pin_schema ident root)) = Some properties' \<and>
      json_get ''schema'' properties' = Some field' \<and> json_get ''const'' field' = Some (JsonString ident) \<and>
      json_get ''description'' field' = json_get ''description'' field \<and>
      (\<forall>k. k \<noteq> ''const'' \<and> k \<noteq> ''description'' \<longrightarrow> json_get k field' = None) \<and>
      (\<forall>k. k \<noteq> ''schema'' \<longrightarrow> json_get k properties' = json_get k (JsonObject properties))"
    if "map_of root ''properties'' = Some (JsonObject properties)" "map_of properties ''schema'' = Some field"
    for properties field
    by (intro exI [of _ "JsonObject (json_insert ''schema'' (pinned_property ident field) properties)"]
        exI [of _ "pinned_property ident field"])
      (simp add: pin_schema_get(3) [OF that] pinned_property_get)
  then show ?thesis
    unfolding publishes_def by (auto simp: pin_schema_get json_get_Some simp del: json_get.simps(1)) (simp_all add: pin_schema_get)
qed

text \<open>C39: The schema command prints one document, and that document is the generated schema with the
  identity of the contract as its \<open>$id\<close> and as the only value its field \<open>schema\<close> admits; nothing else
  of the generated schema is changed.\<close>

theorem schema_command_publishes:
  assumes "emit_schema_document codec kind pretty w = (Inr () :: ('json, 'img) app_error + unit, w')"
  shows "\<exists>generated doc bs. schema_for codec kind = Inr generated \<and>
    publishes (schema_id kind) generated doc \<and> value_to_json codec pretty doc = Inr bs \<and>
    stream_out (cli_stdout w') = stream_out (cli_stdout w) @ bs @ [CHR 0x0A]"
proof -
  from assms obtain root bs s where *: "schema_for codec kind = Inr (JsonObject root)"
    "value_to_json codec pretty (JsonObject (pin_schema (schema_id kind) root)) = Inr bs"
    "write_all (bs @ [CHR 0x0A]) (cli_stdout w) = (Inr (), s)" "w' = w\<lparr>cli_stdout := s\<rparr>"
    by (auto simp: emit_schema_document_def schema_document_def result_iff write_output_stdout)
  moreover from *(3) have "stream_out s = stream_out (cli_stdout w) @ bs @ [CHR 0x0A]"
    by (auto dest: write_all_Inr)
  ultimately show ?thesis
    using pin_schema_publishes [of "schema_id kind" root] by auto
qed

lemma known_failures:
  "try_bind (map_err AppJson r) f = Inl (UnsupportedContractSchema x) \<longleftrightarrow>
     (\<exists>a. r = Inr a \<and> f a = (Inl (UnsupportedContractSchema x) :: ('json, 'img) app_error + 'b))"
  "map_err (\<lambda>e. ContractInvalid (h e)) q \<noteq> (Inl (UnsupportedContractSchema x) :: ('json, 'img) app_error + 'b)"
  by (cases r; simp add: map_err_def) (cases q; simp add: map_err_def)

lemma check_contract_known:
  "schema \<in> schema_id ` {ReceiptSchema, ArtifactRefSchema, NegotiationSchema, OpenIntentSchema,
      IntentReceiptSchema, IntentReadySchema} \<Longrightarrow>
   check_contract codec schema bs \<noteq> (Inl (UnsupportedContractSchema x) :: ('json, 'img) app_error + unit)"
  by (auto simp: check_contract_def known_failures)

text \<open>The identities of the published schemas are exactly those the document check knows: a
  document is refused as unsupported if and only if no published schema has its identity.\<close>

theorem published_schemas_checked:
  "check_contract codec schema bs = (Inl (UnsupportedContractSchema schema) :: ('json, 'img) app_error + unit)
     \<longleftrightarrow> schema \<notin> schema_id ` {ReceiptSchema, ArtifactRefSchema, NegotiationSchema, OpenIntentSchema,
        IntentReceiptSchema, IntentReadySchema}"
proof (cases "schema \<in> schema_id ` {ReceiptSchema, ArtifactRefSchema, NegotiationSchema, OpenIntentSchema,
    IntentReceiptSchema, IntentReadySchema}")
  case True
  then show ?thesis
    using check_contract_known [of schema codec bs schema] by auto
next
  case False
  then show ?thesis
    by (simp add: check_contract_other)
qed

text \<open>Publishing keeps the order of the keys and is idempotent: a schema that has been published is
  not changed by publishing it once more.\<close>

theorem publishing_idempotent:
  assumes "keys_ordered (JsonObject root)"
  shows "keys_ordered (JsonObject (pin_schema ident root)) \<and>
    pin_schema ident (pin_schema ident root) = pin_schema ident root"
  using keys_ordered_pin [OF assms] pin_schema_twice [OF assms] by blast

section \<open>Witnesses\<close>

definition demo_schema :: "(string \<times> json_value) list" where
  "demo_schema =
     [(''$schema'', JsonString ''draft''),
      (''properties'', JsonObject [(''schema'', JsonObject [(''description'', JsonString ''d''), (''type'', JsonString ''string'')])]),
      (''type'', JsonString ''object'')]"

lemma demo_schema_pinned:
  "pin_schema ''i'' demo_schema =
     [(''$id'', JsonString ''i''), (''$schema'', JsonString ''draft''),
      (''properties'', JsonObject [(''schema'', JsonObject [(''const'', JsonString ''i''), (''description'', JsonString ''d'')])]),
      (''type'', JsonString ''object'')]"
  by (simp add: demo_schema_def pin_schema_def pinned_property_def Let_def)

theorem schema_command_publishes_witness:
  "\<exists>w' generated doc bs. emit_schema_document \<lparr>schema_for = \<lambda>_. Inr (JsonObject demo_schema),
        value_to_json = \<lambda>_ _. Inr ''schema''\<rparr> OpenIntentSchema True (demo_cli [] []) =
      (Inr () :: (unit, unit) app_error + unit, w') \<and>
    publishes OPEN_INTENT_SCHEMA_V1 generated doc \<and> stream_out (cli_stdout w') = ''schema'' @ [CHR 0x0A]"
proof -
  let ?codec = "\<lparr>schema_for = \<lambda>_. Inr (JsonObject demo_schema), value_to_json = \<lambda>_ _. Inr ''schema''\<rparr>"
  obtain w' where run: "emit_schema_document ?codec OpenIntentSchema True (demo_cli [] []) =
      (Inr () :: (unit, unit) app_error + unit, w')"
    by (simp add: emit_schema_document_def schema_document_def serialized_json_def map_err_def io_bind_def
        write_output_unlimited demo_cli_def open_stream_def)
  from schema_command_publishes [OF run] have "\<exists>generated doc. publishes OPEN_INTENT_SCHEMA_V1 generated doc \<and>
      stream_out (cli_stdout w') = ''schema'' @ [CHR 0x0A]"
    by (auto simp: demo_cli_def open_stream_def)
  with run show ?thesis by blast
qed

theorem publishing_idempotent_witness:
  "pin_schema ''i'' (pin_schema ''i'' demo_schema) = pin_schema ''i'' demo_schema"
  by (rule publishing_idempotent [THEN conjunct2]) (simp add: demo_schema_def sorted_members_def)

end
