(* ===== verification/Cli_Dispatch.thy ===== *)
theory Cli_Dispatch
  imports Intent_Service Preview_Pager Schema_Documents
begin

text \<open>
  The dispatch of the binary (\<open>run\<close> in \<open>main.rs\<close>): one command, run on the world.  A command that
  waits for ever, which only a preview and the listener can do, is the result \<open>None\<close>.  The theorems
  here hold for every command at once.
\<close>

section \<open>Commands\<close>

datatype intent_command =
    IntentEndpoint
  | IntentUri string path
  | IntentListen string bool
  | IntentDispatch string u64 bool

datatype probe_protocol = ProbeKgp kgp_probe_args | ProbeSixel sixel_probe_args

datatype negotiation_profile = PixelProfile pixel_negotiation_args

datatype command =
    Offer offer_args
  | Preview preview_args
  | Intent intent_command
  | Probe probe_protocol
  | Negotiate negotiation_profile
  | Schema schema_kind bool
  | Validate validate_args

text \<open>What the commands find outside: the process, the libraries, the entropy source, the sockets.\<close>

record ('json, 'img, 'st, 'fmt, 'buf, 'opts, 'six, 'r) run_env =
  run_process :: preview_env
  run_contracts :: "'json contract_codec"
  run_schemas :: "'json schema_codec"
  run_registry :: "('st, 'json) ref_env"
  run_images :: "('fmt, 'img, 'buf, 'opts, 'six) preview_codec"
  run_token_fill :: "nat \<Rightarrow> 'r + bytes"
  run_endpoint_fill :: "string + bytes"
  run_url_encode :: "bytes \<Rightarrow> string"
  run_connect :: "path \<Rightarrow> io_error_kind + stream"
  run_connections :: "connection list"
  run_error_text :: "('json, 'img) app_error \<Rightarrow> string"

definition run ::
  "('json, 'img, 'st, 'fmt, 'buf, 'opts, 'six, 'r) run_env \<Rightarrow> command \<Rightarrow> cli_world
     \<Rightarrow> ((('json, 'img) app_error + unit) \<times> cli_world) option" where
  "run env cmd w =
     (let process = env_probe (run_process env); codec = run_contracts env in
      case cmd of
        Offer args \<Rightarrow> Some (offer_artifact process codec (run_registry env) (run_token_fill env) args w)
      | Preview args \<Rightarrow> preview_run (run_process env) (run_registry env) (run_images env) args w
      | Intent IntentEndpoint \<Rightarrow> Some (intent_endpoint_command (run_endpoint_fill env) w)
      | Intent (IntentUri endpoint p) \<Rightarrow>
          Some (intent_uri_command (run_url_encode env) (url_safe_decode codec) endpoint p w)
      | Intent (IntentListen endpoint once) \<Rightarrow>
          (case listen_for_intents process codec (run_error_text env) endpoint once (run_connections env) w of
             (r, served, w') \<Rightarrow> map_option (\<lambda>x. (x, w')) r)
      | Intent (IntentDispatch uri timeout_ms quiet) \<Rightarrow>
          Some (dispatch_callback process codec (run_connect env) uri timeout_ms quiet w)
      | Probe (ProbeKgp args) \<Rightarrow>
          Some (io_bind (on_tty (kgp_receipt process args))
            (\<lambda>receipt. emit_probe_receipt codec receipt (kgp_common args)) w)
      | Probe (ProbeSixel args) \<Rightarrow>
          Some (io_bind (on_tty (sixel_receipt process args))
            (\<lambda>receipt. emit_probe_receipt codec receipt (sixel_common args)) w)
      | Negotiate (PixelProfile args) \<Rightarrow> Some (negotiate_pixel process codec (env_process_id (run_process env)) args w)
      | Schema document pretty \<Rightarrow> Some (emit_schema_document (run_schemas env) document pretty w)
      | Validate args \<Rightarrow> Some (validate_contract codec args w))"

text \<open>\<open>main\<close>: the exit code tells success from failure; the message on standard error is in \<open>Error_Texts\<close>.\<close>

definition exit_code :: "('json, 'img) app_error + unit \<Rightarrow> nat" where
  "exit_code r = (case r of Inr _ \<Rightarrow> 0 | Inl _ \<Rightarrow> 1)"

definition main_run ::
  "('json, 'img, 'st, 'fmt, 'buf, 'opts, 'six, 'r) run_env \<Rightarrow> command \<Rightarrow> cli_world
     \<Rightarrow> (nat \<times> cli_world) option" where
  "main_run env cmd w = map_option (\<lambda>(r, w'). (exit_code r, w')) (run env cmd w)"

section \<open>The terminal under every command\<close>

abbreviation terminal_safe :: "('json, 'img, 'a) cli_io \<Rightarrow> bool" where
  "terminal_safe \<equiv> keeps (\<lambda>w. guarded (cli_tty w)) (\<lambda>w w'. same_terminal (cli_tty w) (cli_tty w'))"

interpretation cli_frame:
  frame_condition "\<lambda>w. guarded (cli_tty w)" "\<lambda>w w'. same_terminal (cli_tty w) (cli_tty w')"
  by unfold_locales (auto simp: same_terminal_def guarded_def)

named_theorems terminal_safe_intros

lemma terminal_safe_tty: "leaves_terminal m \<Longrightarrow> terminal_safe (on_tty m)"
  by (auto simp: keeps_def on_tty_def split: prod.splits)

lemma terminal_safe_files: "files_only m \<Longrightarrow> terminal_safe m"
  by (simp add: keeps_def)

lemma files_only_output: "files_only (write_output dest bs)"
  by (auto simp: write_output_def keeps_def io_map_err_def io_bind_def on_files_def on_stdout_def
      split: option.splits prod.splits sum.splits)

lemmas [terminal_safe_intros] =
  cli_frame.keeps_pure cli_frame.keeps_bind terminal_safe_tty [OF leaves_receipts(1)]
  terminal_safe_tty [OF leaves_receipts(2)] terminal_safe_files [OF files_only_output]

lemma terminal_safe_on_files [terminal_safe_intros]: "terminal_safe (io_map_err f (on_files m))"
  by (simp add: keeps_def io_map_err_def on_files_def split: prod.splits)

lemma terminal_safe_read [terminal_safe_intros]: "terminal_safe (read_contract_document p)"
proof -
  have "terminal_safe (read_stdin :: ('json, 'img, bytes) cli_io)"
    by (simp add: keeps_def read_stdin_def Let_def)
  then show ?thesis
    unfolding read_contract_document_def by (auto intro!: terminal_safe_intros)
qed

lemma terminal_safe_commands:
  "terminal_safe (offer_artifact penv codec renv fill oargs)"
  "terminal_safe (intent_endpoint_command efill)"
  "terminal_safe (intent_uri_command enc dec endpoint p)"
  "terminal_safe (dispatch_callback penv codec connect uri ms quiet)"
  "terminal_safe (emit_probe_receipt codec receipt targs)"
  "terminal_safe (negotiate_pixel penv codec pid nargs)"
  "terminal_safe (emit_schema_document scodec kind pretty)"
  "terminal_safe (validate_contract codec vargs)"
  unfolding offer_artifact_def intent_endpoint_command_def intent_uri_command_def dispatch_callback_def
    emit_probe_receipt_def negotiate_pixel_def emit_schema_document_def validate_contract_def Let_def
  by (auto intro!: terminal_safe_intros)

text \<open>The listener has no terminal.\<close>

lemma write_output_tty: "write_output dest bs w = (r, w') \<Longrightarrow> cli_tty w' = cli_tty w"
  using keepsD [OF files_only_output] by blast

lemma serve_one_tty:
  "serve_one codec err_text endpoint s w = (out, s', w') \<Longrightarrow> cli_tty w' = cli_tty w"
  by (auto simp: serve_one_def Let_def split: prod.splits sum.splits dest!: write_output_tty)

lemma listen_loop_tty:
  "listen_loop codec err_text endpoint once conns w = (r, served, w') \<Longrightarrow> cli_tty w' = cli_tty w"
  by (induction codec err_text endpoint once conns w arbitrary: served rule: listen_loop.induct)
    (auto split: prod.splits outcome.splits if_splits dest: serve_one_tty)

lemma listen_for_intents_tty:
  assumes "listen_for_intents env codec err_text endpoint once conns w =
    (r :: (('json, 'img) app_error + unit) option, served, w')"
  shows "cli_tty w' = cli_tty w"
proof -
  let ?bind = "io_bind (io_lift (map_err AppIntent (endpoint_parse endpoint)))
      (\<lambda>e. io_bind (io_lift (map_err AppIntent (runtime_root (probe_vars env ''XDG_RUNTIME_DIR''))))
      (\<lambda>root. io_map_err AppIntent (on_files (listener_bind root e)))) :: ('json, 'img, intent_listener) cli_io"
  let ?ready = "\<lambda>l. io_bind (io_lift (serialized_json (ready_to_json codec False)
      (ready_new (listener_endpoint l)))) (write_output None) :: ('json, 'img, unit) cli_io"
  have files: "files_only ?bind" "files_only (?ready l)" for l
    by (intro leaves_intros files_only_output)+
  obtain a w1 where bound: "?bind w = (a, w1)" by fastforce
  have w1: "cli_tty w1 = cli_tty w"
    using keepsD [OF files(1) _ bound] by simp
  show ?thesis
  proof (cases a)
    case (Inl e)
    with assms bound w1 show ?thesis
      by (simp add: listen_for_intents_def)
  next
    case (Inr l)
    obtain b w2 where announced: "?ready l w1 = (b, w2)" by fastforce
    have w2: "cli_tty w2 = cli_tty w"
      using keepsD [OF files(2) _ announced] w1 by simp
    show ?thesis
    proof (cases b)
      case (Inl e)
      with assms bound \<open>a = Inr l\<close> announced w2 show ?thesis
        by (auto simp: listen_for_intents_def)
    next
      case (Inr u)
      obtain r3 served3 w3 where loop: "listen_loop codec err_text (listener_endpoint l) once conns w2 =
          (r3 :: (('json, 'img) app_error + unit) option, served3, w3)"
        by (metis prod_cases3)
      have "cli_tty w3 = cli_tty w"
        using listen_loop_tty [OF loop] w2 by simp
      moreover have "w' = (if r3 = None then w3 else w3\<lparr>cli_files := listener_drop l (cli_files w3)\<rparr>)"
        using assms bound \<open>a = Inr l\<close> announced Inr loop by (auto simp: listen_for_intents_def)
      ultimately show ?thesis by simp
    qed
  qed
qed

section \<open>Standard output under every command\<close>

text \<open>A command that is not done has printed nothing: a step is silent, or it prints last.\<close>

abbreviation silent :: "('json, 'img, 'a) cli_io \<Rightarrow> bool" where
  "silent \<equiv> keeps (\<lambda>_. True) (\<lambda>w w'. cli_stdout w' = cli_stdout w)"

interpretation stdout_frame: frame_condition "\<lambda>_. True" "\<lambda>w w'. cli_stdout w' = cli_stdout w"
  by unfold_locales simp_all

definition prints_last :: "('json, 'img, 'a) cli_io \<Rightarrow> bool" where
  "prints_last m \<longleftrightarrow> (\<forall>w e w'. stream_room (cli_stdout w) = None \<longrightarrow> m w = (Inl e, w') \<longrightarrow>
     cli_stdout w' = cli_stdout w)"

named_theorems prints_last_intros

lemma prints_lastD:
  "prints_last m \<Longrightarrow> stream_room (cli_stdout w) = None \<Longrightarrow> m w = (Inl e, w') \<Longrightarrow> cli_stdout w' = cli_stdout w"
  unfolding prints_last_def by blast

lemma prints_last_bind [prints_last_intros]:
  assumes "silent m" "\<And>a. prints_last (f a)"
  shows "prints_last (io_bind m f)"
  unfolding prints_last_def
proof (intro allI impI)
  fix w e w'
  assume room: "stream_room (cli_stdout w) = None" and run: "io_bind m f w = (Inl e, w')"
  obtain q v where m: "m w = (q, v)" by fastforce
  then have "cli_stdout v = cli_stdout w"
    using keepsD [OF assms(1) _ m] by simp
  then have v: "stream_room (cli_stdout v) = None" "cli_stdout v = cli_stdout w"
    using room by simp_all
  show "cli_stdout w' = cli_stdout w"
  proof (cases q)
    case (Inl e')
    with run m v(2) show ?thesis by simp
  next
    case (Inr a)
    with run m have "f a v = (Inl e, w')" by simp
    with prints_lastD [OF assms(2) v(1)] v(2) show ?thesis by simp
  qed
qed

lemma prints_last_output [prints_last_intros]: "prints_last (write_output dest bs)"
proof (cases dest)
  case None
  then show ?thesis
    by (simp add: prints_last_def write_output_unlimited)
next
  case (Some p)
  then show ?thesis
    by (auto simp: prints_last_def write_output_def io_bind_def io_map_err_def on_files_def
        split: prod.splits sum.splits if_splits)
qed

lemma silent_intros [prints_last_intros]:
  "silent (io_return a)" "silent (io_fail e)" "silent (io_lift r)"
  "silent (on_tty m)" "silent (io_map_err f (on_files k))" "prints_last (io_return a)" "prints_last (io_fail e)"
  "silent g \<Longrightarrow> (\<And>a. silent (h a)) \<Longrightarrow> silent (io_bind g h)"
  by (simp_all add: keeps_def on_tty_def io_map_err_def on_files_def prints_last_def stdout_frame.keeps_bind [unfolded keeps_def]
      split: prod.splits)

lemma silent_read [prints_last_intros]: "silent (read_contract_document p)"
proof -
  have "silent (read_stdin :: ('json, 'img, bytes) cli_io)"
    by (simp add: keeps_def read_stdin_def Let_def)
  then show ?thesis
    unfolding read_contract_document_def by (auto intro!: prints_last_intros)
qed

lemma prints_last_commands:
  "prints_last (offer_artifact penv codec renv fill oargs)"
  "prints_last (intent_endpoint_command efill)"
  "prints_last (intent_uri_command enc dec endpoint p)"
  "prints_last (dispatch_callback penv codec connect uri ms quiet)"
  "prints_last (emit_probe_receipt codec receipt targs)"
  "prints_last (negotiate_pixel penv codec pid nargs)"
  "prints_last (emit_schema_document scodec kind pretty)"
  "prints_last (validate_contract codec vargs)"
  unfolding offer_artifact_def intent_endpoint_command_def intent_uri_command_def dispatch_callback_def
    emit_probe_receipt_def negotiate_pixel_def emit_schema_document_def validate_contract_def Let_def
  by (auto intro!: prints_last_intros)

text \<open>A preview draws on the terminal, never on standard output.\<close>

lemma silent_load: "silent (load_artifact env renv codec p)"
  for renv :: "('st, 'json) ref_env" and codec :: "('fmt, 'img, 'buf, 'opts, 'six) preview_codec"
  unfolding load_artifact_def requested_path_def registry_path_def load_file_def Let_def
  by (auto intro!: prints_last_intros)

lemma preview_stdout:
  assumes "preview_run env renv codec args w = Some (r :: ('json, 'img) app_error + unit, w')"
  shows "cli_stdout w' = cli_stdout w"
proof -
  let ?prepare = "io_bind (load_artifact env renv codec (preview_path args))
      (\<lambda>(p, artifact). io_bind (on_tty (observe_viewport env args (resolved_transport env (preview_transport args))))
      (\<lambda>view. io_return (p, artifact, view))) :: ('json, 'img, path \<times> prepared_artifact \<times> viewport) cli_io"
  have "silent ?prepare"
    by (auto intro!: silent_load prints_last_intros)
  then have "cli_stdout w1 = cli_stdout w" if "?prepare w = (a, w1)" for a w1
    using that by (auto dest: keepsD)
  with assms show ?thesis
    by (auto simp: preview_run_def Let_def lift_tty_def on_tty_def
        split: prod.splits sum.splits prepared_artifact.splits)
qed

section \<open>Properties\<close>

text \<open>A command that cannot wait for ever is one operation, safe in both respects.\<close>

lemma safe_probes:
  "terminal_safe (io_bind (on_tty (kgp_receipt penv kargs)) (\<lambda>r. emit_probe_receipt codec r targs))"
  "terminal_safe (io_bind (on_tty (sixel_receipt penv sargs)) (\<lambda>r. emit_probe_receipt codec r targs))"
  "prints_last (io_bind (on_tty (kgp_receipt penv kargs)) (\<lambda>r. emit_probe_receipt codec r targs))"
  "prints_last (io_bind (on_tty (sixel_receipt penv sargs)) (\<lambda>r. emit_probe_receipt codec r targs))"
  by (intro terminal_safe_intros terminal_safe_commands prints_last_intros prints_last_commands)+

lemma run_plain:
  assumes "\<forall>args. cmd \<noteq> Preview args" "\<forall>endpoint once. cmd \<noteq> Intent (IntentListen endpoint once)"
  shows "\<exists>m :: ('json, 'img, unit) cli_io. terminal_safe m \<and> prints_last m \<and> (\<forall>w. run env cmd w = Some (m w))"
proof (cases cmd)
  case (Intent c)
  then show ?thesis
    using assms(2) by (cases c) (auto simp: run_def Let_def intro: terminal_safe_commands prints_last_commands)
next
  case (Probe protocol)
  then show ?thesis
    by (cases protocol) (auto simp: run_def Let_def intro: safe_probes)
next
  case (Negotiate profile)
  then show ?thesis
    by (cases profile) (auto simp: run_def Let_def intro: terminal_safe_commands prints_last_commands)
qed (use assms(1) in \<open>auto simp: run_def Let_def intro: terminal_safe_commands prints_last_commands\<close>)

text \<open>C4: Whatever command is run, whether it succeeds or fails and wherever it fails, the terminal has
  the attributes it had before: every raw mode is undone.  The guard's descriptor must have been
  clonable and restoring the attributes must not be refused.\<close>

theorem run_keeps_terminal:
  assumes "run env cmd w = Some (r :: ('json, 'img) app_error + unit, w')"
    and "tty_io_fault (cli_tty w) CloneTty = None"
    and "tty_errno (cli_tty w) (SetAttributes (tty_attributes (cli_tty w))) = None"
  shows "tty_attributes (cli_tty w') = tty_attributes (cli_tty w)"
proof -
  consider args where "cmd = Preview args" | endpoint once where "cmd = Intent (IntentListen endpoint once)"
    | "\<forall>args. cmd \<noteq> Preview args" "\<forall>endpoint once. cmd \<noteq> Intent (IntentListen endpoint once)"
    by blast
  then show ?thesis
  proof cases
    case 1
    with assms show ?thesis
      by (auto simp: run_def Let_def intro: preview_restores_terminal)
  next
    case 2
    with assms(1) show ?thesis
      by (auto simp: run_def Let_def split: prod.splits dest: listen_for_intents_tty)
  next
    case 3
    then obtain m where m: "terminal_safe m" "m w = (r, w')"
      using run_plain [OF 3, of env] assms(1) by auto
    then show ?thesis
      using keepsD [OF m(1) _ m(2)] assms(2,3) by (simp add: guarded_def same_terminal_def)
  qed
qed

text \<open>C37: The exit code is authoritative for standard output: as long as standard output takes what is
  written, a command other than the listener that exits with a failure has left standard output
  untouched, so that a reader never finds a partial or a wrong document there.\<close>

theorem failed_command_silent:
  assumes "main_run env cmd w = Some (code, w')" "code \<noteq> 0"
    and "\<forall>endpoint once. cmd \<noteq> Intent (IntentListen endpoint once)"
    and "stream_room (cli_stdout w) = None"
  shows "cli_stdout w' = cli_stdout w"
proof -
  obtain r where "run env cmd w = Some (r, w')" "code = exit_code r"
    using assms(1) by (auto simp: main_run_def)
  with assms(2) obtain e where failed: "run env cmd w = Some (Inl e, w')"
    by (cases r) (auto simp: exit_code_def)
  show ?thesis
  proof (cases "\<exists>args. cmd = Preview args")
    case True
    with failed show ?thesis
      by (auto simp: run_def Let_def dest: preview_stdout)
  next
    case False
    then obtain m where "terminal_safe m" "prints_last m" "\<forall>w. run env cmd w = Some (m w)"
      using run_plain [OF _ assms(3), of env] by auto
    with failed have "prints_last m" "m w = (Inl e, w')" by simp_all
    then show ?thesis
      using prints_lastD assms(4) by blast
  qed
qed

section \<open>Witnesses\<close>

definition demo_run :: "(unit, unit, bytes, unit, unit, unit, unit, unit) run_env" where
  "demo_run = \<lparr>run_process = demo_preview_env, run_contracts = demo_intent_codec\<lparr>schema_of_document := \<lambda>_. Inr None\<rparr>,
     run_schemas = \<lparr>schema_for = \<lambda>_. Inl (), value_to_json = \<lambda>_ _. Inl ()\<rparr>, run_registry = demo_env,
     run_images = demo_preview_codec, run_token_fill = demo_fill, run_endpoint_fill = Inl [],
     run_url_encode = (\<lambda>_. []), run_connect = (\<lambda>_. Inl NotFound), run_connections = [],
     run_error_text = (\<lambda>_. [])\<rparr>"

theorem run_keeps_terminal_witness:
  "\<exists>w'. run demo_run (Preview demo_preview_args) ((demo_cli [(5, Arrives ''q'')] [])\<lparr>cli_files := demo_files\<rparr>) =
      Some (Inr () :: (unit, unit) app_error + unit, w') \<and>
    tty_attributes (cli_tty w') = Attributes ''cooked''"
proof -
  let ?w = "(demo_cli [(5, Arrives ''q'')] [])\<lparr>cli_files := demo_files\<rparr>"
  obtain w' where run: "run demo_run (Preview demo_preview_args) ?w =
      Some (Inr () :: (unit, unit) app_error + unit, w')"
    using demo_preview_run by (auto simp: run_def Let_def demo_run_def)
  from run_keeps_terminal [OF run] run show ?thesis
    by (auto simp: demo_cli_def demo_tty_def)
qed

text \<open>A document without a schema on standard input.\<close>

theorem failed_command_silent_witness:
  "\<exists>w'. main_run demo_run (Validate \<lparr>validate_input = ''-'', validate_quiet = False\<rparr>) (demo_cli [] ''{}'') =
      Some (1, w') \<and> stream_out (cli_stdout w') = []"
proof -
  obtain e w' where "run demo_run (Validate \<lparr>validate_input = ''-'', validate_quiet = False\<rparr>)
      (demo_cli [] ''{}'') = Some (Inl e :: (unit, unit) app_error + unit, w')"
    by (simp add: run_def Let_def demo_run_def demo_intent_codec_def demo_cli_def validate_contract_def io_bind_def
        read_contract_document_def read_stdin_def MAX_CONTRACT_DOCUMENT_BYTES_def map_err_def)
  then have run: "main_run demo_run (Validate \<lparr>validate_input = ''-'', validate_quiet = False\<rparr>) (demo_cli [] ''{}'') =
      Some (1, w')"
    by (simp add: main_run_def exit_code_def)
  from failed_command_silent [OF run] run show ?thesis
    by (auto simp: demo_cli_def open_stream_def)
qed

end
