(* ===== verification/Printed_Documents.thy ===== *)
theory Printed_Documents
  imports Cli_Dispatch
begin

text \<open>
  The two directions of the contracts together: a document that one command prints is a document that
  the validation command accepts.  The JSON library is only assumed to read back what it wrote.
\<close>

section \<open>Commands that print one document\<close>

definition prints_document :: "command \<Rightarrow> bool" where
  "prints_document cmd =
     (case cmd of
        Probe (ProbeKgp args) \<Rightarrow> probe_output (kgp_common args) = None
      | Probe (ProbeSixel args) \<Rightarrow> probe_output (sixel_common args) = None
      | Negotiate (PixelProfile args) \<Rightarrow> pixel_output args = None
      | Intent (IntentDispatch uri timeout_ms quiet) \<Rightarrow> \<not> quiet
      | _ \<Rightarrow> False)"

text \<open>What validation needs of the bytes.\<close>

definition acceptable :: "'json contract_codec \<Rightarrow> bytes \<Rightarrow> bool" where
  "acceptable codec bs \<longleftrightarrow> (\<exists>schema. schema_of_document codec bs = Inr (Some schema) \<and> conforms codec schema bs)"

text \<open>The libraries, as far as printing and checking rely on them.\<close>

definition faithful_libraries :: "probe_env \<Rightarrow> 'json contract_codec \<Rightarrow> bool" where
  "faithful_libraries penv codec \<longleftrightarrow>
     base64_engine (probe_encode penv) (standard_decode codec) \<and>
     reads_back (schema_of_document codec) (receipt_of_json codec) (receipt_to_json codec) receipt_schema \<and>
     reads_back (schema_of_document codec) (negotiation_of_json codec) (negotiation_to_json codec)
       negotiation_schema \<and>
     reads_back (schema_of_document codec) (delivery_of_json codec) (delivery_to_json codec) delivery_schema"

section \<open>Lemmas\<close>

lemma printed_bytes:
  assumes "write_output None (doc @ [CHR 0x0A]) u = (Inr () :: ('json, 'img) app_error + unit, w')"
    and "cli_stdout u = cli_stdout w" "stream_out (cli_stdout w') = stream_out (cli_stdout w) @ bs"
  shows "bs = doc @ [CHR 0x0A]"
  using assms by (auto simp: write_output_stdout dest!: write_all_Inr)

lemma acceptable_accepted:
  assumes "acceptable (run_contracts env) bs" "length bs \<le> MAX_CONTRACT_DOCUMENT_BYTES"
    and "cli_stdin v = bs" "cli_stdin_fault v = None"
  shows "\<exists>v'. run env (Validate \<lparr>validate_input = ''-'', validate_quiet = True\<rparr>) v =
    Some (Inr () :: ('json, 'img) app_error + unit, v')"
proof -
  obtain schema where "schema_of_document (run_contracts env) bs = Inr (Some schema)"
    "check_contract (run_contracts env) schema bs = (Inr () :: ('json, 'img) app_error + unit)"
    using assms(1) by (auto simp: acceptable_def check_contract_Inr)
  from validate_contract_ok [OF assms(2-4) this]
  have "fst (validate_contract (run_contracts env) \<lparr>validate_input = ''-'', validate_quiet = True\<rparr> v) =
      (Inr () :: ('json, 'img) app_error + unit)" .
  then show ?thesis
    by (auto simp: run_def Let_def fst_eq_Domain prod_eq_iff)
qed

lemma printed_receipt:
  assumes "emit_probe_receipt codec r args u = (Inr () :: ('json, 'img) app_error + unit, w')"
    and "probe_output args = None" "cli_stdout u = cli_stdout w"
    and "stream_out (cli_stdout w') = stream_out (cli_stdout w) @ bs"
    and "reads_back (schema_of_document codec) (receipt_of_json codec) (receipt_to_json codec) receipt_schema"
    and "receipt_well_formed (standard_decode codec) r"
  shows "acceptable codec bs"
proof -
  from assms(1,2) obtain doc where doc: "receipt_to_json codec (probe_pretty args) r = Inr doc"
    and out: "write_output None (doc @ [CHR 0x0A]) u = (Inr () :: ('json, 'img) app_error + unit, w')"
    by (auto simp: emit_probe_receipt_def io_bind_Inr_iff io_lift_Inr_iff serialized_json_Inr)
  have bs: "bs = doc @ [CHR 0x0A]"
    by (rule printed_bytes [OF out assms(3,4)])
  have "receipt_schema r = PROBE_RECEIPT_SCHEMA_V1"
    using assms(6) by (simp add: receipt_well_formed_def)
  with assms(5,6) doc show ?thesis
    by (auto simp: acceptable_def conforms_def reads_back_def bs)
qed

lemma printed_negotiation:
  assumes "negotiate_pixel penv codec pid args w = (Inr () :: ('json, 'img) app_error + unit, w')"
    and "pixel_output args = None" "stream_out (cli_stdout w') = stream_out (cli_stdout w) @ bs"
    and "faithful_libraries penv codec"
  shows "acceptable codec bs"
proof -
  have dec: "standard_decode codec (probe_encode penv x) = Some x" for x
    using assms(4) by (auto simp: faithful_libraries_def intro: base64_engine.dec_enc)
  from negotiate_pixel_Inr [OF assms(1) dec] assms(2) obtain kgp sixel doc u where
    wf: "receipt_well_formed (standard_decode codec) kgp" "receipt_well_formed (standard_decode codec) sixel"
    and doc: "negotiation_to_json codec (pixel_pretty args) (negotiate_capabilities_v1 [kgp, sixel]) = Inr doc"
    and out: "write_output None (doc @ [CHR 0x0A]) u = (Inr () :: ('json, 'img) app_error + unit, w')"
    and u: "cli_stdout u = cli_stdout w"
    by (auto simp only:)
  have bs: "bs = doc @ [CHR 0x0A]"
    by (rule printed_bytes [OF out u assms(3)])
  have "negotiation_of_json codec bs = Inr (negotiate_capabilities_v1 [kgp, sixel])"
    "schema_of_document codec bs = Inr (Some CAPABILITY_NEGOTIATION_SCHEMA_V1)"
    using assms(4) doc by (simp_all add: bs faithful_libraries_def reads_back_def negotiate_eq)
  moreover from wf have "list_all (receipt_well_formed (standard_decode codec)) [kgp, sixel]"
    by simp
  note check_negotiation_ok [OF calculation(1) this, where 'img = 'img]
  ultimately show ?thesis
    by (auto simp only: acceptable_def check_contract_Inr)
qed

text \<open>The receipt that the dispatcher prints has passed the checks of \<open>dispatch_on\<close>.\<close>

lemma read_frame_parsed:
  "read_frame from_json s = (Inr r, s') \<Longrightarrow> \<exists>payload. from_json payload = Inr r"
  by (auto simp: read_frame_def io_bind_Inr_iff io_lift_Inr_iff map_err_Inr_iff Let_def split: if_splits)

lemma dispatch_receipt:
  assumes "dispatch connect to_json (delivery_reader codec) root i timeout_ms =
      (Inr r :: (io_error_kind, 'json) intent_error + intent_receipt)"
  shows "valid_endpoint (delivery_endpoint r)"
proof -
  obtain c c' where "dispatch_on to_json (delivery_reader codec) i timeout_ms c =
      (Inr r :: (io_error_kind, 'json) intent_error + intent_receipt, c')"
    using assms by (auto simp: dispatch_def try_bind_Inr_iff map_err_def) (metis prod.collapse)
  then obtain c1 where "read_frame (delivery_reader codec) c1 =
      (Inr r :: (io_error_kind, 'json) intent_error + intent_receipt, c')"
    by (rule dispatch_on_reads)
  from read_frame_parsed [OF this] show ?thesis
    by (auto simp: delivery_reader_def with_endpoint_Inr)
qed

lemma printed_delivery:
  assumes "dispatch_callback penv codec connect uri timeout_ms False w = (Inr () :: ('json, 'img) app_error + unit, w')"
    and "stream_out (cli_stdout w') = stream_out (cli_stdout w) @ bs"
    and "faithful_libraries penv codec"
  shows "acceptable codec bs"
proof -
  from assms(1) obtain i root r doc where
    r: "dispatch connect (intent_to_json codec False) (delivery_reader codec) root i (unat timeout_ms) =
      (Inr r :: (io_error_kind, 'json) intent_error + intent_receipt)"
    and valid: "delivery_validate r = (Inr () :: (io_error_kind, 'json) intent_error + unit)"
    and doc: "delivery_to_json codec False r = Inr doc"
    and out: "write_output None (doc @ [CHR 0x0A]) w = (Inr () :: ('json, 'img) app_error + unit, w')"
    by (auto simp: dispatch_callback_def io_bind_Inr_iff io_lift_Inr_iff map_err_Inr_iff serialized_json_Inr
        simp del: io_simps(3) split: if_splits)
  have bs: "bs = doc @ [CHR 0x0A]"
    by (rule printed_bytes [OF out refl assms(2)])
  from doc assms(3) have "delivery_of_json codec bs = Inr r" "schema_of_document codec bs = Inr (Some (delivery_schema r))"
    by (auto simp: bs faithful_libraries_def reads_back_def)
  with valid dispatch_receipt [OF r] show ?thesis
    by (auto simp: acceptable_def conforms_def delivery_validate_Inr)
qed

section \<open>Properties\<close>

text \<open>C5: What the commands print, the validation command accepts: when a probe, a negotiation or a
  dispatch that prints its document has succeeded, validating exactly the bytes it printed succeeds,
  as long as they are within the bound.\<close>

theorem printed_document_accepted:
  assumes "run env cmd w = Some (Inr () :: ('json, 'img) app_error + unit, w')" "prints_document cmd"
    and "faithful_libraries (env_probe (run_process env)) (run_contracts env)"
    and "stream_out (cli_stdout w') = stream_out (cli_stdout w) @ bs" "length bs \<le> MAX_CONTRACT_DOCUMENT_BYTES"
    and "cli_stdin v = bs" "cli_stdin_fault v = None"
  shows "\<exists>v'. run env (Validate \<lparr>validate_input = ''-'', validate_quiet = True\<rparr>) v =
    Some (Inr () :: ('json, 'img) app_error + unit, v')"
proof (rule acceptable_accepted [OF _ assms(5-7)])
  let ?penv = "env_probe (run_process env)" and ?codec = "run_contracts env"
  have dec: "standard_decode ?codec (probe_encode ?penv x) = Some x" for x
    using assms(3) by (auto simp: faithful_libraries_def intro: base64_engine.dec_enc)
  have read: "reads_back (schema_of_document ?codec) (receipt_of_json ?codec) (receipt_to_json ?codec) receipt_schema"
    using assms(3) by (simp add: faithful_libraries_def)
  consider kargs where "cmd = Probe (ProbeKgp kargs)" "probe_output (kgp_common kargs) = None"
    | sargs where "cmd = Probe (ProbeSixel sargs)" "probe_output (sixel_common sargs) = None"
    | args where "cmd = Negotiate (PixelProfile args)" "pixel_output args = None"
    | uri timeout_ms where "cmd = Intent (IntentDispatch uri timeout_ms False)"
    using assms(2)
    by (auto simp: prints_document_def split: command.splits probe_protocol.splits negotiation_profile.splits
        intent_command.splits)
  then show "acceptable ?codec bs"
  proof cases
    case 1
    with assms(1) obtain r t where r: "kgp_receipt ?penv kargs (cli_tty w) = (Inr r :: ('json, 'img) app_error + probe_receipt, t)"
      and out: "emit_probe_receipt ?codec r (kgp_common kargs) (w\<lparr>cli_tty := t\<rparr>) =
        (Inr () :: ('json, 'img) app_error + unit, w')"
      by (auto simp: run_def Let_def io_bind_Inr_iff on_Inr)
    from kgp_receipt_Inr [OF r dec] have "receipt_well_formed (standard_decode ?codec) r" by blast
    with printed_receipt [OF out 1(2) _ assms(4) read] show ?thesis by simp
  next
    case 2
    with assms(1) obtain r t where r: "sixel_receipt ?penv sargs (cli_tty w) = (Inr r :: ('json, 'img) app_error + probe_receipt, t)"
      and out: "emit_probe_receipt ?codec r (sixel_common sargs) (w\<lparr>cli_tty := t\<rparr>) =
        (Inr () :: ('json, 'img) app_error + unit, w')"
      by (auto simp: run_def Let_def io_bind_Inr_iff on_Inr)
    from sixel_receipt_Inr [OF r dec] have "receipt_well_formed (standard_decode ?codec) r" by blast
    with printed_receipt [OF out 2(2) _ assms(4) read] show ?thesis by simp
  next
    case 3
    with assms(1) show ?thesis
      by (auto simp: run_def Let_def intro: printed_negotiation [OF _ 3(2) assms(4,3)])
  next
    case 4
    with assms(1) show ?thesis
      by (auto simp: run_def Let_def intro: printed_delivery [OF _ assms(4,3)])
  qed
qed

theorem printed_document_accepted_witness:
  "\<exists>n w' v'. run (demo_run\<lparr>run_contracts := demo_codec n\<rparr>) (Negotiate (PixelProfile demo_pixel_args))
      (demo_cli [demo_kgp_event, demo_sixel_event] []) = Some (Inr () :: (unit, unit) app_error + unit, w') \<and>
    run (demo_run\<lparr>run_contracts := demo_codec n\<rparr>) (Validate \<lparr>validate_input = ''-'', validate_quiet = True\<rparr>)
      (demo_cli [] (''document'' @ [CHR 0x0A])) = Some (Inr () :: (unit, unit) app_error + unit, v')"
proof -
  obtain n w' where run: "negotiate_pixel demo_probe_env (demo_codec n) 31 demo_pixel_args
      (demo_cli [demo_kgp_event, demo_sixel_event] []) = (Inr () :: (unit, unit) app_error + unit, w')"
    and out: "stream_out (cli_stdout w') = ''document'' @ [CHR 0x0A]"
    using demo_negotiation by blast
  let ?env = "demo_run\<lparr>run_contracts := demo_codec n\<rparr>"
  have env: "env_probe (run_process ?env) = demo_probe_env" "env_process_id (run_process ?env) = 31"
    "run_contracts ?env = demo_codec n"
    by (simp_all add: demo_run_def demo_preview_env_def)
  have command: "run ?env (Negotiate (PixelProfile demo_pixel_args)) (demo_cli [demo_kgp_event, demo_sixel_event] []) =
      Some (Inr () :: (unit, unit) app_error + unit, w')"
    using run by (simp add: run_def Let_def demo_run_def demo_preview_env_def)
  have "faithful_libraries demo_probe_env (demo_codec n)"
    using rfc_standard.base64_engine_axioms
    by (simp add: faithful_libraries_def demo_probe_env_def demo_codec_def reads_back_def)
  with printed_document_accepted [OF command, of "''document'' @ [CHR 0x0A]" "demo_cli [] (''document'' @ [CHR 0x0A])"]
  have "\<exists>v'. run ?env (Validate \<lparr>validate_input = ''-'', validate_quiet = True\<rparr>)
      (demo_cli [] (''document'' @ [CHR 0x0A])) = Some (Inr () :: (unit, unit) app_error + unit, v')"
    using out unfolding env by (simp add: prints_document_def demo_pixel_args_def demo_cli_def open_stream_def
        MAX_CONTRACT_DOCUMENT_BYTES_def)
  with command show ?thesis by blast
qed

end
