(* ===== verification/Error_Texts.thy ===== *)
theory Error_Texts
  imports Cli_Dispatch
begin

text \<open>
  The messages: \<open>Display\<close> of every error type of the crates, the line \<open>main\<close> prints on standard
  error when a command fails, and the line the listener logs for a malformed request.  The texts of
  errors of the operating system and of other crates are arguments; so is, for the characters
  from DEL on, the table of \<open>core::unicode\<close> that says which of them \<open>Debug\<close> prints as they are.
\<close>

section \<open>Quoted text\<close>

record ('json, 'img) foreign_texts =
  io_text :: "io_error_kind \<Rightarrow> string"
  errno_text :: "errno \<Rightarrow> string"
  json_text :: "'json \<Rightarrow> string"
  image_text :: "'img \<Rightarrow> string"
  shown_as_is :: "nat \<Rightarrow> bool"

fun hex_string :: "nat \<Rightarrow> string" where
  "hex_string n = (if n < 16 then [hex_digit n] else hex_string (n div 16) @ [hex_digit (n mod 16)])"

declare hex_string.simps [simp del, eval_simps]

text \<open>\<open>char::escape_debug\<close> inside a string, and \<open>Debug\<close> of a string.\<close>

definition escape_debug :: "(nat \<Rightarrow> bool) \<Rightarrow> nat \<Rightarrow> string" where
  "escape_debug shown c =
     (if c = 0x00 then [CHR 0x5C, CHR ''0''] else if c = 0x09 then [CHR 0x5C, CHR ''t'']
      else if c = 0x0D then [CHR 0x5C, CHR ''r''] else if c = 0x0A then [CHR 0x5C, CHR ''n'']
      else if c = 0x5C \<or> c = 0x22 then [CHR 0x5C, char_of c]
      else if 0x20 \<le> c \<and> c < 0x7F \<or> 0x7F \<le> c \<and> shown c then encode_char c
      else [CHR 0x5C, CHR ''u'', CHR ''{''] @ hex_string c @ ''}'')"

definition quoted :: "(nat \<Rightarrow> bool) \<Rightarrow> string \<Rightarrow> string" where
  "quoted shown s = [CHR 0x22] @ concat (map (escape_debug shown) (decode_lossy s)) @ [CHR 0x22]"

text \<open>\<open>Path::display\<close>.\<close>

definition display_path :: "path \<Rightarrow> string" where
  "display_path p = from_utf8_lossy p"

section \<open>The texts of the crates\<close>

fun receipt_text :: "(nat \<Rightarrow> bool) \<Rightarrow> probe_receipt_validation_error \<Rightarrow> string" where
  "receipt_text shown (UnsupportedSchema schema) = ''unsupported probe receipt schema: '' @ quoted shown schema"
| "receipt_text shown (InvalidBase64 field) = ''probe receipt field '' @ field @ '' is not standard Base64''"
| "receipt_text shown (NoncanonicalEventSequence exchange expected actual) =
     ''noncanonical event sequence in '' @ exchange @ '': expected '' @ dec_string (unat expected) @
       '', received '' @ dec_string (unat actual)"

fun negotiation_text :: "(nat \<Rightarrow> bool) \<Rightarrow> negotiation_validation_error \<Rightarrow> string" where
  "negotiation_text shown (NegotiationUnsupportedSchema schema) =
     ''unsupported capability negotiation schema: '' @ quoted shown schema"
| "negotiation_text shown (NoncanonicalPreference expected actual) =
     ''noncanonical capability preference: expected '' @ dec_string (unat expected) @
       '', received '' @ dec_string (unat actual)"
| "negotiation_text shown (DispositionMismatch preference) =
     ''capability disposition contradicts receipt at preference '' @ dec_string (unat preference)"
| "negotiation_text shown SelectionMismatch = ''selection is not the first eligible capability''"
| "negotiation_text shown (SelectedIdentityMismatch preference) =
     ''selected capability identity does not match preference '' @ dec_string (unat preference)"
| "negotiation_text shown (InvalidReceipt preference source) =
     ''invalid probe receipt at preference '' @ dec_string (unat preference) @ '': '' @ receipt_text shown source"

fun reference_text :: "(nat \<Rightarrow> bool) \<Rightarrow> artifact_ref_validation_error \<Rightarrow> string" where
  "reference_text shown (RefUnsupportedSchema schema) =
     ''unsupported artifact reference schema: '' @ quoted shown schema"
| "reference_text shown RefInvalidToken = ''artifact reference token is not canonical''"
| "reference_text shown (RefUnsupportedPathEncoding encoding) =
     ''unsupported artifact path encoding: '' @ quoted shown encoding"
| "reference_text shown RefInvalidPath = ''artifact reference path is invalid''"
| "reference_text shown RefInvalidDigest =
     ''artifact reference digest is not a SHA-256 value in standard Base64''"
| "reference_text shown (RefArtifactLimit actual limit) =
     ''artifact reference size '' @ dec_string (unat actual) @ '' exceeds the '' @ dec_string limit @
       ''-byte v1 limit''"

fun registry_text :: "('json, 'img) foreign_texts \<Rightarrow> 'json registry_error \<Rightarrow> string" where
  "registry_text t StateDirectoryUnavailable =
     ''cannot discover state directory; set TERM_INTEROP_STATE_DIR or HOME''"
| "registry_text t (RegistryIo e) = ''registry I/O failed: '' @ io_text t e"
| "registry_text t (RegistryJson e) = ''registry JSON failed: '' @ json_text t e"
| "registry_text t RegistryRandom = ''cannot generate artifact reference token''"
| "registry_text t InvalidReference = ''invalid artifact reference''"
| "registry_text t (RefNotFound token) = ''artifact reference does not exist: @'' @ token"
| "registry_text t (NotRegularFile p) = ''artifact is not a regular file: '' @ display_path p"
| "registry_text t (IdentityChanged token) = ''artifact changed after registration: @'' @ token"
| "registry_text t (RegistryPathEncoding encoding) = ''unsupported path encoding: '' @ encoding"
| "registry_text t ClockBeforeEpoch = ''system clock is before the Unix epoch''"
| "registry_text t TokenExhausted = ''cannot allocate a unique artifact reference token''"
| "registry_text t EntryLimit = ''artifact reference entry exceeds the 65536-byte limit''"
| "registry_text t (ArtifactLimit actual limit) =
     ''artifact has '' @ dec_string (unat actual) @ '' bytes; reference profile limit is '' @ dec_string limit"

fun intent_text :: "('json, 'img) foreign_texts \<Rightarrow> (io_error_kind, 'json) intent_error \<Rightarrow> string" where
  "intent_text t (Random detail) = ''cannot obtain secure random bytes: '' @ detail"
| "intent_text t InvalidEndpoint = ''intent endpoint must be 32 lowercase hexadecimal characters''"
| "intent_text t InvalidUri = ''intent URI is invalid''"
| "intent_text t UnsupportedUriComponent = ''intent URI query and fragment components are not supported''"
| "intent_text t InvalidTargetEncoding = ''intent target encoding is invalid''"
| "intent_text t InvalidTargetBytes =
     ''intent target is empty, contains NUL, or exceeds the '' @ dec_string MAX_TARGET_BYTES @ ''-byte bound''"
| "intent_text t TargetNotAbsolute = ''intent target must be an absolute path''"
| "intent_text t UnsupportedPathEncoding = ''path encoding is unsupported on this platform''"
| "intent_text t (UnsupportedIntentSchema schema) =
     ''unsupported intent schema: '' @ quoted (shown_as_is t) schema"
| "intent_text t InvalidReceiptDetail =
     ''intent receipt detail is empty or exceeds the bounded frame profile''"
| "intent_text t InvalidReadyPrefix = ''intent ready URI prefix does not match its endpoint''"
| "intent_text t RuntimeDirectoryUnavailable = ''XDG_RUNTIME_DIR is missing or is not absolute''"
| "intent_text t (RuntimeDirectoryNotPrivate p) =
     ''intent runtime directory is not private: '' @ display_path p"
| "intent_text t (SocketPathTooLong p) = ''intent socket path is too long: '' @ display_path p"
| "intent_text t (EndpointInUse p) = ''intent endpoint is already bound: '' @ display_path p"
| "intent_text t FrameTooLarge = ''intent frame exceeds the '' @ dec_string MAX_FRAME_BYTES @ ''-byte bound''"
| "intent_text t TruncatedFrame = ''intent peer closed before a complete frame was received''"
| "intent_text t EndpointMismatch = ''intent response endpoint does not match the request''"
| "intent_text t (Io e) = ''intent transport I/O failed: '' @ io_text t e"
| "intent_text t (Json e) = ''intent JSON failed: '' @ json_text t e"

fun artifact_text :: "('json, 'img) foreign_texts \<Rightarrow> 'img artifact_error \<Rightarrow> string" where
  "artifact_text t (InputLimit actual limit) =
     ''artifact has '' @ dec_string actual @ '' bytes; limit is '' @ dec_string limit"
| "artifact_text t (Image e) = ''image processing failed: '' @ image_text t e"
| "artifact_text t EmptyViewport = ''terminal viewport must have at least one column and one row''"
| "artifact_text t EmptyRasterTarget = ''raster target dimensions must be non-zero''"
| "artifact_text t InvalidRasterState = ''validated raster state is inconsistent''"
| "artifact_text t UnsupportedArtifact = ''artifact is not supported text or a supported raster image''"

fun probe_build_text :: "probe_build_error \<Rightarrow> string" where
  "probe_build_text ZeroCorrelationId = ''KGP correlation id must be non-zero''"

fun display_build_text :: "display_build_error \<Rightarrow> string" where
  "display_build_text EmptyPayload = ''KGP PNG payload must not be empty''"
| "display_build_text ZeroPlacement = ''KGP placement dimensions must be non-zero''"
| "display_build_text ZeroImageNumber = ''KGP image number must be non-zero''"

fun app_text :: "('json, 'img) foreign_texts \<Rightarrow> ('json, 'img) app_error \<Rightarrow> string" where
  "app_text t (AppIo e) = ''I/O failure: '' @ io_text t e"
| "app_text t (AppTerminal e) = ''terminal operation failed: '' @ errno_text t e"
| "app_text t (AppJson e) = ''JSON serialization failed: '' @ json_text t e"
| "app_text t (AppProbeBuild e) = ''cannot build KGP probe: '' @ probe_build_text e"
| "app_text t (AppDisplayBuild e) = ''cannot build KGP display request: '' @ display_build_text e"
| "app_text t (AppArtifact e) = ''artifact preparation failed: '' @ artifact_text t e"
| "app_text t (AppRegistry e) = ''artifact reference failed: '' @ registry_text t e"
| "app_text t (AppIntent e) = ''intent callback failed: '' @ intent_text t e"
| "app_text t (IntentRejected detail) = ''intent consumer rejected the request: '' @ detail"
| "app_text t (SixelEncoding detail) = ''Sixel encoding failed: '' @ detail"
| "app_text t (AppNotRegularFile p) = ''artifact is not a regular file: '' @ display_path p"
| "app_text t (PreviewInputLimit actual limit) =
     ''artifact has '' @ dec_string (unat actual) @ '' bytes; preview limit is '' @ dec_string limit"
| "app_text t (TerminalGeometryUnavailable p) =
     ''terminal cell geometry is unavailable for '' @ display_path p"
| "app_text t (NoPixelRenderer kgp sixel) =
     ''no evidence-backed pixel renderer is available (KGP: '' @ kgp @ ''; Sixel: '' @ sixel @ '')''"
| "app_text t (OutputExists p) = ''output already exists: '' @ display_path p"
| "app_text t AppClockBeforeEpoch = ''system clock is before the Unix epoch''"
| "app_text t ZeroTimeout = ''timeout must be greater than zero''"
| "app_text t TimeoutOutOfRange = ''timeout is outside the monotonic clock range''"
| "app_text t ZeroIntentTimeout = ''intent timeout must be greater than zero''"
| "app_text t ZeroTransportTimeout = ''transport timeout must be greater than zero''"
| "app_text t ZeroResponseLimit = ''max response bytes must be greater than zero''"
| "app_text t ContractLimit =
     ''contract document exceeds the '' @ dec_string MAX_CONTRACT_DOCUMENT_BYTES @ ''-byte validation limit''"
| "app_text t ContractSchemaMissing = ''contract document has no string schema identity''"
| "app_text t (UnsupportedContractSchema schema) =
     ''unsupported contract schema: '' @ quoted (shown_as_is t) schema"
| "app_text t (ContractInvalid detail) = ''contract validation failed: '' @ detail"

section \<open>What is printed\<close>

text \<open>The \<open>to_string\<close> of the validation errors, in the place of the texts of the codec.\<close>

definition with_texts :: "('json, 'img) foreign_texts \<Rightarrow> 'json contract_codec \<Rightarrow> 'json contract_codec" where
  "with_texts t codec = codec\<lparr>receipt_error_text := receipt_text (shown_as_is t),
     negotiation_error_text := negotiation_text (shown_as_is t),
     reference_error_text := reference_text (shown_as_is t), intent_error_text := intent_text t\<rparr>"

definition main_stderr :: "('json, 'img) foreign_texts \<Rightarrow> ('json, 'img) app_error + unit \<Rightarrow> bytes" where
  "main_stderr t r =
     (case r of Inr _ \<Rightarrow> [] | Inl e \<Rightarrow> ''term-interop: '' @ app_text t e @ [CHR 0x0A])"

definition listener_stderr :: "('json, 'img) foreign_texts \<Rightarrow> ('json, 'img) outcome \<Rightarrow> bytes" where
  "listener_stderr t r =
     (case r of Malformed e \<Rightarrow> ''term-interop: rejected malformed intent: '' @ intent_text t e @ [CHR 0x0A]
      | _ \<Rightarrow> [])"

text \<open>\<open>main\<close> with its two streams: the exit code, standard error, and the world.\<close>

definition main_report ::
  "('json, 'img) foreign_texts \<Rightarrow> ('json, 'img, 'st, 'fmt, 'buf, 'opts, 'six, 'r) run_env \<Rightarrow> command \<Rightarrow> cli_world
     \<Rightarrow> (nat \<times> bytes \<times> cli_world) option" where
  "main_report t env cmd w =
     map_option (\<lambda>(r, w'). (exit_code r, main_stderr t r, w'))
       (run (env\<lparr>run_contracts := with_texts t (run_contracts env), run_error_text := app_text t\<rparr>) cmd w)"

text \<open>Texts for the instances: no character from DEL to U+009F is shown as it is.\<close>

definition demo_texts :: "(unit, unit) foreign_texts" where
  "demo_texts = \<lparr>io_text = (\<lambda>_. ''I/O''), errno_text = (\<lambda>_. ''errno''), json_text = (\<lambda>_. ''JSON''),
     image_text = (\<lambda>_. ''image''), shown_as_is = (\<lambda>c. 0xA0 \<le> c)\<rparr>"

section \<open>Printable text\<close>

text \<open>Valid UTF-8 without control characters: one line, that leaves the state of a terminal alone.\<close>

definition printable :: "string \<Rightarrow> bool" where
  "printable s \<longleftrightarrow> utf8_valid s \<and> list_all (\<lambda>c. \<not> is_control c) (decode_lossy s)"

abbreviation printable_char :: "nat \<Rightarrow> bool" where
  "printable_char c \<equiv> is_scalar c \<and> \<not> is_control c"

named_theorems printable_intros

lemma printable_iff: "printable s \<longleftrightarrow> (\<exists>cs. list_all printable_char cs \<and> s = encode_chars cs)"
  by (auto simp: printable_def utf8_valid_iff decode_lossy_encode list_all_iff)

lemma printable_encode [printable_intros]: "printable_char c \<Longrightarrow> printable (encode_char c)"
  unfolding printable_iff by (intro exI [of _ "[c]"]) (simp add: encode_chars_def)

lemma printable_Nil [printable_intros]: "printable []"
  unfolding printable_iff by (intro exI [of _ "[]"]) simp

lemma printable_append [printable_intros]: "printable s \<Longrightarrow> printable s' \<Longrightarrow> printable (s @ s')"
  unfolding printable_iff by (metis encode_chars_append list_all_append)

lemma printable_concat: "list_all printable ss \<Longrightarrow> printable (concat ss)"
  by (induction ss) (simp_all add: printable_intros)

definition plain :: "string \<Rightarrow> bool" where
  "plain s \<longleftrightarrow> list_all (\<lambda>b. 0x20 \<le> (of_char b :: nat) \<and> of_char b < (0x7F :: nat)) s"

lemma printable_plain: "plain s \<Longrightarrow> printable s"
proof -
  assume plain: "plain s"
  then have "list_all ascii_byte s"
    by (auto simp: plain_def ascii_byte_def list_all_iff)
  then have "s = encode_chars (map of_char s)"
    by (simp add: encode_chars_ascii)
  moreover have "list_all printable_char (map of_char s)"
    using plain by (auto simp: plain_def list_all_iff is_control_def is_scalar_def)
  ultimately show ?thesis
    unfolding printable_iff by blast
qed

lemma plain_simps [simp]:
  "plain []" "plain (b # s) \<longleftrightarrow> 0x20 \<le> (of_char b :: nat) \<and> of_char b < (0x7F :: nat) \<and> plain s"
  by (simp_all add: plain_def)

lemma plain_append [simp]: "plain (s @ s') \<longleftrightarrow> plain s \<and> plain s'"
  by (simp add: plain_def)

lemma plain_nth: "plain s \<Longrightarrow> n < length s \<Longrightarrow> plain [s ! n]"
  by (simp add: plain_def list_all_length)

lemma plain_digit: "n < 10 \<Longrightarrow> plain [digit_char n]"
  unfolding digit_char_def by (rule plain_nth) simp_all

lemma plain_hex_digit: "n < 16 \<Longrightarrow> plain [hex_digit n]"
  unfolding hex_digit_def by (rule plain_nth) simp_all

lemma plain_dec_string: "plain (dec_string n)"
  by (induction n rule: dec_string.induct) (subst dec_string.simps, simp add: plain_digit del: plain_simps(2))

lemma plain_hex_string: "plain (hex_string n)"
  by (induction n rule: hex_string.induct) (subst hex_string.simps, simp add: plain_hex_digit del: plain_simps(2))

lemmas [printable_intros] = printable_plain [OF plain_dec_string]

text \<open>What \<open>Debug\<close> prints of a string is printable, when the table shows no control character.\<close>

definition no_control_shown :: "(nat \<Rightarrow> bool) \<Rightarrow> bool" where
  "no_control_shown shown \<longleftrightarrow> (\<forall>c. is_control c \<longrightarrow> 0x7F \<le> c \<longrightarrow> \<not> shown c)"

lemma printable_escape: "is_scalar c \<Longrightarrow> no_control_shown shown \<Longrightarrow> printable (escape_debug shown c)"
  by (auto simp: escape_debug_def no_control_shown_def is_control_def plain_hex_string
      intro!: printable_plain printable_encode)

lemma printable_quoted [printable_intros]: "no_control_shown shown \<Longrightarrow> printable (quoted shown s)"
  unfolding quoted_def using decode_lossy_scalars [of s]
  by (intro printable_append printable_concat printable_plain)
    (auto simp: list_all_iff intro: printable_escape)

text \<open>Printing the parts of a text in turn.\<close>

lemma printable_prefix [simp]:
  assumes "printable p"
  shows "printable (p @ s) \<longleftrightarrow> printable s"
proof -
  obtain cs where cs: "list_all printable_char cs" "p = encode_chars cs"
    using assms by (auto simp: printable_iff)
  then have "decode_lossy (p @ s) = cs @ decode_lossy s"
    by (simp add: decode_lossy_encode_append list_all_iff)
  then show ?thesis
    using cs by (auto simp: printable_def utf8_valid_def from_utf8_lossy_def list_all_iff)
qed

lemma printable_Cons [simp]:
  assumes "0x20 \<le> (of_char b :: nat)" "of_char b < (0x7F :: nat)"
  shows "printable (b # s) \<longleftrightarrow> printable s"
  using printable_prefix [of "[b]" s] printable_plain [of "[b]"] assms by simp

lemma printable_parts [simp]:
  "printable []" "printable (dec_string n)" "plain s \<Longrightarrow> printable s"
  "no_control_shown shown \<Longrightarrow> printable (quoted shown s)"
  by (intro printable_intros printable_plain | assumption)+

section \<open>Which errors an operation can end with\<close>

definition fails_only :: "('e \<Rightarrow> bool) \<Rightarrow> 'e + 'a \<Rightarrow> bool" where
  "fails_only Q r \<longleftrightarrow> (\<forall>e. r = Inl e \<longrightarrow> Q e)"

definition io_fails_only :: "('e \<Rightarrow> bool) \<Rightarrow> ('s, 'e, 'a) io \<Rightarrow> bool" where
  "io_fails_only Q m \<longleftrightarrow> (\<forall>s e s'. m s = (Inl e, s') \<longrightarrow> Q e)"

named_theorems fails_intros

lemma fails_only_results [fails_intros]: "fails_only Q (Inr a)" "Q e \<Longrightarrow> fails_only Q (Inl e)"
  by (simp_all add: fails_only_def)

lemma fails_only_bind [fails_intros]:
  "fails_only Q r \<Longrightarrow> (\<And>a. fails_only Q (f a)) \<Longrightarrow> fails_only Q (try_bind r f)"
  by (auto simp: fails_only_def try_bind_Inl_iff)

lemma fails_only_map_err [fails_intros]: "fails_only (\<lambda>e. Q (g e)) r \<Longrightarrow> fails_only Q (map_err g r)"
  by (auto simp: fails_only_def map_err_def split: sum.splits)

lemma fails_only_ok_or [fails_intros]: "Q e \<Longrightarrow> fails_only Q (ok_or e x)"
  by (auto simp: fails_only_def ok_or_def split: option.splits)

lemma fails_only_if [fails_intros]:
  "(b \<Longrightarrow> fails_only Q r) \<Longrightarrow> (\<not> b \<Longrightarrow> fails_only Q r') \<Longrightarrow> fails_only Q (if b then r else r')"
  by simp

lemma fails_only_True [simp]: "fails_only (\<lambda>_. True) r"
  by (simp add: fails_only_def)

lemma io_fails_only_results [fails_intros]:
  "io_fails_only Q (io_return a)" "Q e \<Longrightarrow> io_fails_only Q (io_fail e)"
  "fails_only Q r \<Longrightarrow> io_fails_only Q (io_lift r)"
  by (simp_all add: io_fails_only_def fails_only_def)

lemma io_fails_only_bind [fails_intros]:
  "io_fails_only Q m \<Longrightarrow> (\<And>a. io_fails_only Q (f a)) \<Longrightarrow> io_fails_only Q (io_bind m f)"
  by (auto simp: io_fails_only_def io_bind_def split: prod.splits sum.splits)

lemma io_fails_only_if [fails_intros]:
  "(b \<Longrightarrow> io_fails_only Q m) \<Longrightarrow> (\<not> b \<Longrightarrow> io_fails_only Q m') \<Longrightarrow> io_fails_only Q (if b then m else m')"
  by simp

lemma io_fails_map_err [fails_intros]: "(\<And>e. Q (g e)) \<Longrightarrow> io_fails_only Q (io_map_err g m)"
  by (auto simp: io_fails_only_def io_map_err_def map_err_def split: prod.splits sum.splits)

section \<open>The errors of the validations\<close>

fun plain_fields :: "probe_receipt_validation_error \<Rightarrow> bool" where
  "plain_fields (UnsupportedSchema schema) = True"
| "plain_fields (InvalidBase64 field) = plain field"
| "plain_fields (NoncanonicalEventSequence exchange expected actual) = plain exchange"

lemma plain_validate_base64: "plain field \<Longrightarrow> fails_only plain_fields (validate_base64 dec field val)"
  unfolding validate_base64_def by (intro fails_intros) simp

lemma plain_validate_events: "plain path \<Longrightarrow> fails_only plain_fields (validate_events dec path n es)"
  by (induction es arbitrary: n)
    (auto simp: Let_def plain_dec_string intro!: fails_intros plain_validate_base64)

lemma plain_validate_exchange: "plain path \<Longrightarrow> fails_only plain_fields (validate_exchange dec path ex)"
  unfolding validate_exchange_def
  by (intro fails_intros plain_validate_base64 plain_validate_events) simp_all

lemma plain_validate_preparation: "fails_only plain_fields (validate_preparation dec n exs)"
  by (induction exs arbitrary: n)
    (auto simp: plain_dec_string intro!: fails_intros plain_validate_exchange)

lemma plain_validate_receipt: "fails_only plain_fields (validate_receipt dec r)"
  unfolding validate_receipt_def
  by (intro fails_intros plain_validate_preparation plain_validate_exchange) simp_all

lemma printable_receipt_text:
  "no_control_shown shown \<Longrightarrow> plain_fields e \<Longrightarrow> printable (receipt_text shown e)"
  by (cases e) simp_all

lemma printable_validate_receipt:
  "no_control_shown shown \<Longrightarrow> fails_only (\<lambda>e. printable (receipt_text shown e)) (validate_receipt dec r)"
  using plain_validate_receipt [of dec r] by (auto simp: fails_only_def intro: printable_receipt_text)

lemma plain_validate_candidates:
  "fails_only (\<lambda>e. \<forall>p r. e = InvalidReceipt p r \<longrightarrow> plain_fields r) (validate_candidates dec index first cs)"
proof (induction cs arbitrary: index first)
  case (Cons c cs)
  have "fails_only (\<lambda>e. \<forall>p r. InvalidReceipt q e = InvalidReceipt p r \<longrightarrow> plain_fields r)
      (validate_receipt dec (candidate_receipt c))" for q
    using plain_validate_receipt by (simp add: fails_only_def)
  then show ?case
    unfolding validate_candidates.simps Let_def by (intro fails_intros Cons.IH) simp_all
qed (simp add: fails_only_def)

lemma printable_validate_negotiation:
  assumes "no_control_shown shown"
  shows "fails_only (\<lambda>e. printable (negotiation_text shown e)) (validate_negotiation dec n)"
proof -
  have shown: "printable (negotiation_text shown e)"
    if "\<forall>p r. e = InvalidReceipt p r \<longrightarrow> plain_fields r" for e
    using that assms by (cases e) (auto simp: printable_receipt_text)
  then have "fails_only (\<lambda>e. printable (negotiation_text shown e)) (validate_candidates dec 0 None cs)" for cs
    using plain_validate_candidates [of dec 0 None cs] by (auto simp: fails_only_def)
  moreover have "fails_only (\<lambda>e. printable (negotiation_text shown e)) (check_selection sel f)" for sel f
    by (auto simp: check_selection_def fails_only_def
        split: negotiation_selection.splits option.splits if_splits)
  ultimately show ?thesis
    unfolding validate_negotiation_def using assms by (intro fails_intros) simp_all
qed

lemma printable_validate_ref:
  "no_control_shown shown \<Longrightarrow> fails_only (\<lambda>e. printable (reference_text shown e)) (validate_ref dec r)"
  unfolding fails_only_def
proof (intro allI impI)
  fix e
  assume "no_control_shown shown"
  then show "printable (reference_text shown e)" by (cases e) simp_all
qed

text \<open>The errors of intents that carry no text of the system.\<close>

fun own_text :: "(io_error_kind, 'json) intent_error \<Rightarrow> bool" where
  "own_text (Random detail) = False"
| "own_text (RuntimeDirectoryNotPrivate p) = False"
| "own_text (SocketPathTooLong p) = False"
| "own_text (EndpointInUse p) = False"
| "own_text (Io e) = False"
| "own_text (Json e) = False"
| "own_text _ = True"

lemma printable_intent_text:
  "no_control_shown (shown_as_is t) \<Longrightarrow> own_text e \<Longrightarrow> printable (intent_text t e)"
  by (cases e) simp_all

lemma own_text_target: "fails_only own_text (portable_path_bytes dec i)"
  unfolding portable_path_bytes_def validate_target_bytes_def
  by (auto intro!: fails_intros split: path_encoding.splits)

lemma own_text_documents:
  "fails_only own_text (validate_portable dec i)" "fails_only own_text (delivery_validate r)"
  "fails_only own_text (ready_validate y)" "fails_only own_text (intent_path dec i)"
  unfolding validate_portable_def delivery_validate_def ready_validate_def intent_path_def path_from_bytes_def Let_def
  by (auto intro!: fails_intros own_text_target)

section \<open>What the commands can report\<close>

text \<open>The errors of a command whose text comes from the system or the JSON library, and all others
  with their text.\<close>

definition reportable :: "('json, 'img) foreign_texts \<Rightarrow> ('json, 'img) app_error \<Rightarrow> bool" where
  "reportable t e \<longleftrightarrow> (\<exists>k. e = AppIo k) \<or> (\<exists>j. e = AppJson j) \<or> printable (app_text t e)"

lemma reportable_own [simp]: "reportable t (AppIo k)" "reportable t (AppJson j)"
  by (simp_all add: reportable_def)

lemma reportable_text:
  "printable s \<Longrightarrow> reportable t (ContractInvalid s)"
  "no_control_shown (shown_as_is t) \<Longrightarrow> reportable t (UnsupportedContractSchema schema)"
  "reportable t ContractLimit" "reportable t ContractSchemaMissing" "reportable t ZeroIntentTimeout"
  by (simp_all add: reportable_def)

lemma with_texts_sel [simp]:
  "receipt_error_text (with_texts t codec) = receipt_text (shown_as_is t)"
  "negotiation_error_text (with_texts t codec) = negotiation_text (shown_as_is t)"
  "reference_error_text (with_texts t codec) = reference_text (shown_as_is t)"
  "intent_error_text (with_texts t codec) = intent_text t"
  by (simp_all add: with_texts_def)

lemma fails_only_own_text:
  "no_control_shown (shown_as_is t) \<Longrightarrow> fails_only own_text r \<Longrightarrow>
   fails_only (\<lambda>e. reportable t (ContractInvalid (intent_text t e))) r"
  by (auto simp: fails_only_def intro!: reportable_text printable_intent_text)

lemma fails_json: "fails_only (\<lambda>e. reportable t (AppJson e)) r"
  by (simp add: fails_only_def)

lemma reportable_check:
  assumes "no_control_shown (shown_as_is t)"
  shows "fails_only (reportable t) (check_contract (with_texts t codec) schema bs)"
proof -
  have texts: "fails_only (\<lambda>e. reportable t (ContractInvalid (receipt_text (shown_as_is t) e))) (validate_receipt dec r)"
    "fails_only (\<lambda>e. reportable t (ContractInvalid (negotiation_text (shown_as_is t) e))) (validate_negotiation dec n)"
    "fails_only (\<lambda>e. reportable t (ContractInvalid (reference_text (shown_as_is t) e))) (validate_ref dec a)" for dec r n a
    using printable_validate_receipt [OF assms] printable_validate_negotiation [OF assms]
      printable_validate_ref [OF assms]
    by (auto simp: fails_only_def intro!: reportable_text)
  show ?thesis
    unfolding check_contract_def with_texts_sel
    by (intro fails_intros fails_json texts fails_only_own_text own_text_documents reportable_text assms)
qed

lemma reportable_validate:
  fixes t :: "('json, 'img) foreign_texts"
  assumes "no_control_shown (shown_as_is t)"
  shows "io_fails_only (reportable t) (validate_contract (with_texts t codec) args)"
proof -
  have "io_fails_only (reportable t) (read_stdin :: ('json, 'img, bytes) cli_io)"
    by (auto simp: io_fails_only_def read_stdin_def Let_def)
  then show ?thesis
    unfolding validate_contract_def read_contract_document_def write_output_def option.case
    by (auto intro!: fails_intros reportable_check reportable_text assms)
qed

text \<open>A malformed request is one that the frame, the JSON library or the checks of the intent refuse.\<close>

definition request_error :: "(io_error_kind, 'json) intent_error \<Rightarrow> bool" where
  "request_error e \<longleftrightarrow> (\<exists>k. e = Io k) \<or> (\<exists>j. e = Json j) \<or> own_text e"

lemma request_error_accept: "io_fails_only request_error (accept_intent dec from_json to_json endpoint)"
proof -
  have checked: "fails_only request_error (intent_path dec i)" for i
    using own_text_documents(4) [of dec i] by (auto simp: fails_only_def request_error_def)
  show ?thesis
    unfolding accept_intent_def read_frame_def Let_def
    by (intro fails_intros checked)
      (auto simp: request_error_def map_frame_read_error_def io_fails_only_def io_ignore_def)
qed

text \<open>The errors of a reference: its token is canonical where it is printed.\<close>

definition reference_error :: "('json, 'img) foreign_texts \<Rightarrow> 'json registry_error \<Rightarrow> bool" where
  "reference_error t e \<longleftrightarrow> (\<exists>k. e = RegistryIo k) \<or> (\<exists>j. e = RegistryJson j) \<or>
     (\<exists>s. e = RegistryPathEncoding s) \<or> printable (registry_text t e)"

lemma plain_token: "valid_token s \<Longrightarrow> plain s"
proof -
  have "plain TOKEN_ALPHABET"
    by (simp add: TOKEN_ALPHABET_def)
  then show "valid_token s \<Longrightarrow> plain s"
    by (auto simp: valid_token_def plain_def list_all_iff)
qed

lemma io_fails_only_lift_bind:
  "fails_only Q r \<Longrightarrow> (\<And>a. r = Inr a \<Longrightarrow> io_fails_only Q (f a)) \<Longrightarrow> io_fails_only Q (io_bind (io_lift r) f)"
  by (cases r) (auto simp: io_fails_only_def fails_only_def io_bind_def)

lemma reference_error_texts:
  "reference_error t (RegistryIo k)" "reference_error t (RegistryJson j)" "reference_error t (RegistryPathEncoding s)"
  "reference_error t InvalidReference" "reference_error t EntryLimit" "reference_error t (ArtifactLimit n l)"
  "plain s \<Longrightarrow> reference_error t (RefNotFound s)" "plain s \<Longrightarrow> reference_error t (IdentityChanged s)"
  by (simp_all add: reference_error_def)

lemma reference_error_resolve:
  fixes t :: "('json, 'img) foreign_texts" and env :: "('st, 'json) ref_env"
  shows "io_fails_only (reference_error t) (resolve env reg reference)"
proof -
  have ref: "reference_error t (ref_error e)" for e
    by (simp add: ref_error_def reference_error_texts split: artifact_ref_validation_error.splits)
  have absent: "io_fails_only (reference_error t) (open_or e p)" if "reference_error t e" for e :: "'json registry_error" and p
    using that unfolding open_or_def by (intro fails_intros) (simp add: reference_error_texts)
  have entry: "io_fails_only (reference_error t) (read_entry env reg s)" if "plain s" for s
    using that unfolding read_entry_def Let_def reg_fs_def
    by (intro fails_intros absent) (simp_all add: reference_error_texts ref)
  have parsed: "fails_only (reference_error t) (parse_token reference)"
    unfolding parse_token_def Let_def by (intro fails_intros) (simp add: reference_error_texts)
  show ?thesis
    unfolding resolve_def
  proof (rule io_fails_only_lift_bind [OF parsed], goal_cases)
    case (1 s)
    then have "plain s"
      by (auto simp: parse_token_Inr intro: plain_token)
    then show ?case
      unfolding hash_file_def decode_path_def enforce_artifact_limit_def Let_def reg_fs_def
      by (intro fails_intros entry absent) (simp_all add: reference_error_texts)
  qed
qed

section \<open>Properties\<close>

text \<open>C13: What validation adds to a message is printable: whatever the document holds, the message
  that \<open>main\<close> prints when validation fails ends in one line feed, and before that it is valid UTF-8
  without control characters exactly when the text of another library that it carries is: the text of the
  operating system for an I/O error, the text of the JSON library for a document that library refuses,
  and none for every other error, which is therefore always printable.  (The JSON library's text is
  printed as it is, and it can hold names out of the document.)\<close>

theorem validate_message_printable:
  assumes "validate_contract (with_texts t codec) args w = (Inl e, w')" "no_control_shown (shown_as_is t)"
  shows "\<exists>line. main_stderr t (Inl e) = line @ [CHR 0x0A] \<and>
    (printable line \<longleftrightarrow> (case e of AppIo k \<Rightarrow> printable (io_text t k)
                       | AppJson j \<Rightarrow> printable (json_text t j) | _ \<Rightarrow> True))"
proof -
  let ?line = "''term-interop: '' @ app_text t e"
  have "reportable t e"
    using reportable_validate [OF assms(2), of codec args] assms(1) by (auto simp: io_fails_only_def)
  then have "printable ?line \<longleftrightarrow> (case e of AppIo k \<Rightarrow> printable (io_text t k)
      | AppJson j \<Rightarrow> printable (json_text t j) | _ \<Rightarrow> True)"
    by (cases e) (simp_all add: reportable_def)
  then show ?thesis
    by (intro exI [of _ ?line]) (simp add: main_stderr_def)
qed

theorem validate_message_printable_witness:
  "\<exists>line. main_stderr demo_texts (Inl (UnsupportedContractSchema [CHR 0x1B, CHR ''c''])) = line @ [CHR 0x0A] \<and>
     printable line"
proof -
  let ?codec = "(demo_codec (negotiate_capabilities_v1 []))\<lparr>schema_of_document := \<lambda>_. Inr (Some [CHR 0x1B, CHR ''c''])\<rparr>"
  let ?args = "\<lparr>validate_input = ''-'', validate_quiet = False\<rparr>"
  obtain w' where w': "validate_contract (with_texts demo_texts ?codec) ?args (demo_cli [] ''{}'')
      = (Inl (UnsupportedContractSchema [CHR 0x1B, CHR ''c'']) :: (unit, unit) app_error + unit, w')"
    by (auto simp: validate_contract_def read_contract_document_def read_stdin_def demo_cli_def io_bind_def
        with_texts_def MAX_CONTRACT_DOCUMENT_BYTES_def check_contract_def PROBE_RECEIPT_SCHEMA_V1_def
        CAPABILITY_NEGOTIATION_SCHEMA_V1_def ARTIFACT_REF_SCHEMA_V1_def OPEN_INTENT_SCHEMA_V1_def
        INTENT_RECEIPT_SCHEMA_V1_def INTENT_READY_SCHEMA_V1_def Let_def)
  have "no_control_shown (shown_as_is demo_texts)"
    by (simp add: no_control_shown_def demo_texts_def is_control_def)
  from validate_message_printable [OF w' this] show ?thesis
    by auto
qed

text \<open>The line the listener logs is printable, whatever a client sends, unless it carries an error of
  the operating system or of the JSON library.\<close>

theorem listener_log_printable:
  assumes "serve_one codec err_text endpoint s w = (Malformed e, s', w')" "no_control_shown (shown_as_is t)"
    and "\<forall>k. e \<noteq> Io k" "\<forall>j. e \<noteq> Json j"
  shows "\<exists>line. listener_stderr t (Malformed e) = line @ [CHR 0x0A] \<and> printable line"
proof -
  have "accept_intent (url_safe_decode codec) (intent_reader codec) (delivery_to_json codec False) endpoint s
      = (Inl e, s')"
    using assms(1) by (auto simp: serve_one_def Let_def split: prod.splits sum.splits)
  then have "request_error e"
    using request_error_accept unfolding io_fails_only_def by blast
  with assms(2-4) have "printable (''term-interop: rejected malformed intent: '' @ intent_text t e)"
    by (auto simp: request_error_def printable_intent_text)
  then show ?thesis
    by (intro exI [of _ "''term-interop: rejected malformed intent: '' @ intent_text t e"])
      (simp add: listener_stderr_def)
qed

text \<open>The message for a reference that does not resolve is printable, unless it carries an error of the
  operating system or of the JSON library, or a path encoding out of the entry, which is printed raw.\<close>

theorem resolve_message_printable:
  assumes "resolve env reg reference w = (Inl e, w')"
    and "\<forall>k. e \<noteq> RegistryIo k" "\<forall>j. e \<noteq> RegistryJson j" "\<forall>c. e \<noteq> RegistryPathEncoding c"
  shows "printable (app_text t (AppRegistry e))"
proof -
  have "reference_error t e"
    using reference_error_resolve assms(1) unfolding io_fails_only_def by blast
  with assms(2-4) show ?thesis
    by (auto simp: reference_error_def)
qed

text \<open>The detail of a consumer that rejects an intent is printed raw: here it resets the terminal.\<close>

lemma rejection_not_printable:
  "\<not> printable (main_stderr t (Inl (IntentRejected [CHR 0x1B, CHR ''c''])))"
  by (simp add: main_stderr_def) (simp add: printable_def decode_lossy_ascii ascii_byte_def is_control_def)

end
