(* ===== verification/Spec2Isabelle.thy ===== *)
theory Spec2Isabelle
  imports Da1_Attributes Window_Geometry Tmux_Transport Kgp_Adapter Sixel_Adapter Core_Contracts
    Artifact_Prep Registry_Concurrency Intent_Callback Printed_Documents Error_Texts
begin

text \<open>
  A verification library for terminal-interop, a set of Rust crates that find out what a terminal
  can do by asking it, keep the answers as receipts, choose a renderer from the receipts, and hand
  artifacts from a program in a terminal to a preview.

  Paths below are relative to \<open>src/crates\<close>, and \<open>x\<close> stands for \<open>terminal-interop-x/src/lib.rs\<close>.

  Parts, theories and the code they model:

  \<^item> \<open>Interop_Prelude\<close>: bytes, checked and saturating word arithmetic, results with an error as sums,
    slices, splitting, decimal numbers; the rules \<open>result_iff\<close> that invert successful computations.
  \<^item> \<open>Base64_Interface\<close>: the \<open>base64\<close> crate as locales (\<open>base64_engine\<close>, \<open>standard_engine\<close>,
    \<open>url_engine\<close>), interpreted on the RFC 4648 algorithm. \<open>Utf8_Text\<close>: \<open>str::from_utf8\<close> and
    \<open>String::from_utf8_lossy\<close>.
  \<^item> \<open>Byte_Scan\<close>: the loop all stream parsers share, as locales \<open>scanner\<close> and \<open>stable_scanner\<close>, each
    interpreted by the adapters on their own step.
  \<^item> \<open>Core_Contracts\<close>: crate \<open>core\<close>, receipts, their validation, negotiation.
  \<^item> \<open>Da1_Attributes\<close> (\<open>da1\<close>), \<open>Window_Geometry\<close> (\<open>geometry\<close>), \<open>Tmux_Transport\<close> (\<open>tmux\<close>),
    \<open>Kgp_Adapter\<close> (\<open>kgp\<close>), \<open>Sixel_Adapter\<close> (\<open>sixel\<close>): the wire formats, their parsers and the
    assessment of what was parsed. \<open>Probe_Contract\<close>: what a probe adapter owes to a receipt.
  \<^item> \<open>Artifact_Prep\<close> (\<open>artifact\<close>): decoding limits, placement of an image, text made safe to show.
  \<^item> \<open>Io_Effects\<close>, \<open>Unix_Files\<close>: operations with a state and a result, byte streams, and a file
    world in which every call can be made to fail.
  \<^item> \<open>Artifact_Ref\<close> (\<open>ref\<close>): tokens, record validation, the registry.  \<open>Registry_Concurrency\<close> cuts
    \<open>register\<close> into steps that processes take in any order.
  \<^item> \<open>Intent_Callback\<close> (\<open>intent\<close>): endpoints, callback URIs, frames, listener and dispatch.
  \<^item> The binary, \<open>terminal-interop-cli/src/main.rs\<close> and \<open>preview.rs\<close>:
    \<open>Cli_Base\<close> (constants, the error type, hints of the environment), \<open>Tty_Exchange\<close>
    (\<open>execute_tty_exchange\<close>: raw mode, its guard, the poll loop), \<open>Probe_Receipts\<close> (readiness of the
    transport and the two receipts), \<open>Cli_Commands\<close> (output, document check, negotiation, offers,
    endpoints, URIs), \<open>Intent_Service\<close> (listener loop and dispatcher), \<open>Schema_Documents\<close> (the schema
    command), \<open>Preview_Inputs\<close> (artifact, renderer, viewport, label, lines), \<open>Preview_Pager\<close> (screen
    guard, keys, pager, image display, the preview command) and \<open>Cli_Dispatch\<close> (\<open>run\<close> and
    \<open>main\<close>, over every command).  \<open>Printed_Documents\<close> joins the commands that print a document with the one that
    validates it, and \<open>Error_Texts\<close> holds \<open>Display\<close> of every error and what standard error gets.
  \<^item> \<open>Frame_Conditions\<close>: what an operation leaves alone, as a locale with its closure rules;
    \<open>Terminal_Kept\<close> and \<open>Cli_Dispatch\<close> interpret it for the terminal, the files and standard output.

  How the parts interact.  A probe (\<open>kgp_receipt\<close>, \<open>sixel_receipt\<close>) builds a query with its adapter,
  wraps it for tmux where needed, exchanges it with the terminal, and lets the adapter parse and judge
  the response; the receipt quotes all of it.  Negotiation and the preview choose from receipts only.
  Validation reads a document back and derives it again.  The preview loads an artifact by path or by
  reference, observes the viewport, and draws inside a screen that its guard leaves on every path that enters it.  The listener and
  the dispatcher meet in one connection, whose two directions are the streams of the two models.

  What the groups of lemmas show.  The parsers find exactly the reports in a stream, whatever
  surrounds them, and invert the encoders.  The assessments follow from the observed events by
  a stated rule.  Validation accepts exactly the documents the code produces, and so what the commands
  print.  Registration and
  resolution keep what they must and notice every change, also when processes register at once and
  some of them are killed.  Exchanges keep their bounds and say truly why they ended, and the
  terminal gets its attributes back under every command.  The preview shows pages of the text of the file
  requested and nothing else and returns when a read begins with a key that closes it.  A command that fails prints nothing but its message, and
  the message about a document is as printable as the text of the system or the JSON library in it.

  Reading the model.  Structs are records, enums are datatypes, \<open>Result\<close> is a sum with the error on
  the left, \<open>u16\<close> to \<open>u128\<close> are words of that width, \<open>usize\<close> offsets and lengths are natural numbers
  (a slice has fewer than \<open>2 ^ 63\<close> bytes, so the checked additions on offsets never fail), strings
  are their UTF-8 bytes.  Loops over a stream are recursive functions with the measure
  \<open>length input - offset\<close>; each is total and no fuel is needed.  The bounded retry loop of the
  registry recurses on its 16 attempts, so that a process takes at most 39 steps, the poll loop of an exchange on the input that is still to
  arrive, the readiness loop on the time to its deadline.  The loops that wait for keys need not
  end: they are partial functions with the result \<open>None\<close> for waiting for ever, and \<open>preview_returns\<close>
  says when that does not happen.  The listener runs over a list of connections and is \<open>None\<close> when
  it waits for the next one.

  The world.  A terminal is its attributes, its output, a clock in nanoseconds and a script of timed
  inputs, after which it is silent; a page of the preview takes a fixed time to draw, and a read of keys
  takes all that has come by then; every system call can be made to fail.  Files are a map from
  paths to nodes whose calls can be made to fail.  Sockets and standard output are byte streams with a
  room after which a write fails.

  Not modelled: the parsing of the command line (declarations for clap), accessors of fields, the code for
  systems other than Unix, the generator of JSON schemas, and the crates \<open>serde_json\<close>, \<open>image\<close>,
  \<open>icy_sixel\<close>, \<open>sha2\<close> and \<open>getrandom\<close>, which are arguments of the definitions that call them.  The
  file world follows symbolic links one level and, but for \<open>Registry_Concurrency\<close>, runs one process at a
  time; signals other than an interrupted poll are left out, so elsewhere a killed process is not
  described.

  Found while modelling: the descriptor for the guard is cloned after raw mode is set, so a failure
  there leaves the terminal raw (\<open>tty_exchange_restores\<close>); a timeout above 65535 ms ends early
  (\<open>tty_timeout_truncated\<close>); keys that one read takes are lost but the first
  (\<open>merged_keys_lost\<close>); one client that hangs up ends the listener
  (\<open>client_hangup_ends_listener\<close>); a record may hold a token with its prefix
  (\<open>validate_ref_prefixed_token\<close>); the reason a consumer gives for a rejection reaches the terminal
  raw (\<open>rejection_not_printable\<close>), and so does the text of a JSON error, which can hold names out of a
  document (\<open>validate_message_printable\<close>).
\<close>

end
